(* ===== verification/Prelude.thy ===== *)
theory Prelude
  imports Complex_Main "HOL-Library.AList" "HOL-Library.Word" "HOL-Library.Sublist"
    "HOL-Library.Multiset" "HOL-Library.Char_ord" "HOL-Library.List_Lexorder"
begin

text \<open>
  Shared vocabulary of the development: the collections that carry the component proofs, Go's
  64-bit integers, Go maps as association lists, the comparison sort of the \<open>slices\<close> package
  and generic facts about lists, options and sums.

  Integers. A Go \<open>int64\<close> is modelled as an \<open>int\<close>; every arithmetic operation whose overflow
  can matter goes through \<open>wrap64\<close>, the two's complement reduction. \<open>wrap64_word\<close> shows that this
  is the arithmetic of a 64-bit word of the library. Sequence counters that the code declares
  \<open>uint64\<close> are 64-bit words.

  Maps. A Go map is an association list with distinct keys, so that the state is finite and
  executable; the list order plays the part of Go's unspecified iteration order.

  Results. A Go result \<open>(value, error)\<close> is a sum: \<open>Inl\<close> is the error, \<open>Inr\<close> the value.
\<close>

named_theorems resp_defs \<open>definitions of the HTTP response builders\<close>
named_theorems repo_defs \<open>definitions of the repository operations\<close>
named_theorems inv_defs \<open>definitions of the component invariants\<close>

section \<open>Go's int64\<close>

type_synonym int64 = int
type_synonym uint64 = "64 word"

definition in64 :: "int \<Rightarrow> bool" where
  "in64 x \<longleftrightarrow> - (2 ^ 63) \<le> x \<and> x < 2 ^ 63"

definition wrap64 :: "int \<Rightarrow> int64" where
  "wrap64 x = (x + 2 ^ 63) mod 2 ^ 64 - 2 ^ 63"

definition maxInt64 :: int64 where
  "maxInt64 = 2 ^ 63 - 1"

lemma wrap64_in64: "in64 (wrap64 x)"
proof -
  have "0 \<le> (x + 2 ^ 63) mod 2 ^ 64" and "(x + 2 ^ 63) mod 2 ^ 64 < 2 ^ 64"
    by simp_all
  then show ?thesis by (simp add: in64_def wrap64_def)
qed

lemma wrap64_id [simp]: "in64 x \<Longrightarrow> wrap64 x = x"
  by (simp add: in64_def wrap64_def)

lemma wrap64_word: "wrap64 x = sint (word_of_int x :: 64 word)"
  by (simp add: wrap64_def sint_sbintrunc' signed_take_bit_eq_take_bit_shift take_bit_eq_mod)

lemma wrap64_cong: "a mod 2 ^ 64 = b mod 2 ^ 64 \<Longrightarrow> wrap64 a = wrap64 b"
  unfolding wrap64_def by (metis mod_add_left_eq)

lemma wrap64_mod: "wrap64 x mod 2 ^ 64 = x mod 2 ^ 64"
  unfolding wrap64_def by (metis add_diff_cancel_right' mod_diff_left_eq)

lemma wrap64_add_left [simp]: "wrap64 (wrap64 a + b) = wrap64 (a + b)"
  by (rule wrap64_cong) (metis mod_add_left_eq wrap64_mod)

lemma wrap64_add_right [simp]: "wrap64 (a + wrap64 b) = wrap64 (a + b)"
  by (rule wrap64_cong) (metis mod_add_right_eq wrap64_mod)

lemma wrap64_diff_left [simp]: "wrap64 (wrap64 a - b) = wrap64 (a - b)"
  by (rule wrap64_cong) (metis mod_diff_left_eq wrap64_mod)

lemma wrap64_idem [simp]: "wrap64 (wrap64 x) = wrap64 x"
  by (simp add: wrap64_in64)

lemma in64_succ: "in64 x \<Longrightarrow> x < maxInt64 \<Longrightarrow> in64 (x + 1)"
  by (simp add: in64_def maxInt64_def)

lemma in64_between: "in64 a \<Longrightarrow> in64 b \<Longrightarrow> a \<le> x \<Longrightarrow> x \<le> b \<Longrightarrow> in64 x"
  by (simp add: in64_def)

lemma in64_numerals [simp]: "in64 0" "in64 1" "in64 (- 1)"
  by (simp_all add: in64_def)

section \<open>Go maps\<close>

type_synonym ('k, 'v) gomap = "('k \<times> 'v) list"

abbreviation mput :: "'k \<Rightarrow> 'v \<Rightarrow> ('k, 'v) gomap \<Rightarrow> ('k, 'v) gomap" where
  "mput k v m \<equiv> AList.update k v m"

abbreviation mdel :: "'k \<Rightarrow> ('k, 'v) gomap \<Rightarrow> ('k, 'v) gomap" where
  "mdel k m \<equiv> AList.delete k m"

abbreviation mkeys :: "('k, 'v) gomap \<Rightarrow> 'k list" where
  "mkeys m \<equiv> map fst m"

abbreviation mvals :: "('k, 'v) gomap \<Rightarrow> 'v list" where
  "mvals m \<equiv> map snd m"

declare map_of_eq_Some_iff [simp del] Some_eq_map_of_iff [simp del]

lemma map_of_mput [simp]: "map_of (mput k v m) k' = (if k' = k then Some v else map_of m k')"
  by (simp add: update_conv')

lemma map_of_mdel [simp]: "map_of (mdel k m) k' = (if k' = k then None else map_of m k')"
  by (simp add: delete_conv')

lemma mkeys_mput: "set (mkeys (mput k v m)) = insert k (set (mkeys m))"
  by (induction m) auto

lemma mkeys_mput_fresh: "map_of m k = None \<Longrightarrow> mput k v m = m @ [(k, v)]"
  by (induction m) (auto split: if_splits)

lemma mvals_set_iff:
  "distinct (mkeys m) \<Longrightarrow> v \<in> set (mvals m) \<longleftrightarrow> (\<exists>k. map_of m k = Some v)"
  by (auto simp: map_of_eq_Some_iff image_iff intro: bexI [of _ "(_, v)"])

lemma distinct_mput: "distinct (mkeys m) \<Longrightarrow> distinct (mkeys (mput k v m))"
  by (rule distinct_update)

lemma distinct_mdel: "distinct (mkeys m) \<Longrightarrow> distinct (mkeys (mdel k m))"
  by (rule distinct_delete)

section \<open>Comparison sort\<close>

text \<open>
  \<open>slices.SortFunc\<close> sorts by a comparison returning a negative, zero or positive integer. The
  model is insertion by the same comparison; on distinct keys every comparison sort returns the
  same list, by \<open>sortFunc_sort_key\<close> and \<open>sort_key_unique\<close>.
\<close>

fun insertFunc :: "('a \<Rightarrow> 'a \<Rightarrow> int) \<Rightarrow> 'a \<Rightarrow> 'a list \<Rightarrow> 'a list" where
  "insertFunc cmp x [] = [x]"
| "insertFunc cmp x (y # ys) = (if cmp x y \<le> 0 then x # y # ys else y # insertFunc cmp x ys)"

definition sortFunc :: "('a \<Rightarrow> 'a \<Rightarrow> int) \<Rightarrow> 'a list \<Rightarrow> 'a list" where
  "sortFunc cmp xs = foldr (insertFunc cmp) xs []"

lemma mset_insertFunc: "mset (insertFunc cmp x ys) = add_mset x (mset ys)"
  by (induction ys) auto

lemma mset_sortFunc [simp]: "mset (sortFunc cmp xs) = mset xs"
  by (induction xs) (simp_all add: sortFunc_def mset_insertFunc)

lemma set_sortFunc [simp]: "set (sortFunc cmp xs) = set xs"
  by (metis mset_sortFunc set_mset_mset)

lemma insertFunc_insort:
  assumes "\<And>y. y \<in> set ys \<Longrightarrow> cmp x y \<le> 0 \<longleftrightarrow> key x \<le> key y"
  shows "insertFunc cmp x ys = insort_key (key :: 'a \<Rightarrow> 'b :: linorder) x ys"
  using assms by (induction ys) auto

lemma sortFunc_sort_key:
  assumes "\<And>x y. x \<in> set xs \<Longrightarrow> y \<in> set xs \<Longrightarrow> cmp x y \<le> 0 \<longleftrightarrow> key x \<le> key y"
  shows "sortFunc cmp xs = sort_key (key :: 'a \<Rightarrow> 'b :: linorder) xs"
  using assms
proof (induction xs)
  case Nil
  then show ?case by (simp add: sortFunc_def)
next
  case (Cons x xs)
  have IH: "sortFunc cmp xs = sort_key key xs"
    using Cons by simp
  have "insertFunc cmp x (sort_key key xs) = insort_key key x (sort_key key xs)"
    by (rule insertFunc_insort) (use Cons.prems in auto)
  then show ?case using IH by (simp add: sortFunc_def)
qed

lemma sort_key_unique:
  assumes "mset xs = mset ys" and "inj_on key (set xs)"
  shows "sort_key (key :: 'a \<Rightarrow> 'b :: linorder) xs = sort_key key ys"
  using assms by (metis mset_sort sort_key_inj_key_eq sorted_sort_key)

end
