(* ===== verification/GoStrings.thy ===== *)
theory GoStrings
  imports Prelude
begin

text \<open>
  Go strings as byte strings, and the operations of \<open>strings\<close>, \<open>strconv\<close> and \<open>fmt\<close> that the
  program uses.

  A Go string is a sequence of bytes; \<open>string\<close> is a list of 8-bit characters, so \<open>len\<close> is
  \<open>length\<close>. \<open>trimSpace\<close> and \<open>fields\<close> cut at every white-space code point of Unicode: the list
  \<open>goSpaces\<close> holds their UTF-8 encodings. A lead byte of an encoding is never a continuation
  byte, so an occurrence of an encoding in a byte string is always a decoded white-space rune,
  also in strings that are not valid UTF-8.
\<close>

section \<open>White space\<close>

definition goSpaces :: "string list" where
  "goSpaces =
    [[CHR 0x20], [CHR 0x09], [CHR 0x0A], [CHR 0x0B], [CHR 0x0C], [CHR 0x0D],
     [CHR 0xC2, CHR 0x85], [CHR 0xC2, CHR 0xA0], [CHR 0xE1, CHR 0x9A, CHR 0x80],
     [CHR 0xE2, CHR 0x80, CHR 0x80], [CHR 0xE2, CHR 0x80, CHR 0x81],
     [CHR 0xE2, CHR 0x80, CHR 0x82], [CHR 0xE2, CHR 0x80, CHR 0x83],
     [CHR 0xE2, CHR 0x80, CHR 0x84], [CHR 0xE2, CHR 0x80, CHR 0x85],
     [CHR 0xE2, CHR 0x80, CHR 0x86], [CHR 0xE2, CHR 0x80, CHR 0x87],
     [CHR 0xE2, CHR 0x80, CHR 0x88], [CHR 0xE2, CHR 0x80, CHR 0x89],
     [CHR 0xE2, CHR 0x80, CHR 0x8A], [CHR 0xE2, CHR 0x80, CHR 0xA8],
     [CHR 0xE2, CHR 0x80, CHR 0xA9], [CHR 0xE2, CHR 0x80, CHR 0xAF],
     [CHR 0xE2, CHR 0x81, CHR 0x9F], [CHR 0xE3, CHR 0x80, CHR 0x80]]"

definition firstSpace :: "string list \<Rightarrow> string \<Rightarrow> string option" where
  "firstSpace ws s = find (\<lambda>w. w \<noteq> [] \<and> prefix w s) ws"

lemma firstSpace_Some: "firstSpace ws s = Some w \<Longrightarrow> w \<noteq> [] \<and> prefix w s"
  by (auto simp: firstSpace_def find_Some_iff)

function stripLeft :: "string list \<Rightarrow> string \<Rightarrow> string" where
  "stripLeft ws s = (case firstSpace ws s of None \<Rightarrow> s | Some w \<Rightarrow> stripLeft ws (drop (length w) s))"
  by pat_completeness auto
termination
  by (relation "measure (\<lambda>(ws, s). length s)")
    (auto dest!: firstSpace_Some simp: prefix_length_le elim!: prefixE)

declare stripLeft.simps [simp del]

definition trimSpace :: "string \<Rightarrow> string" where
  "trimSpace s = rev (stripLeft (map rev goSpaces) (rev (stripLeft goSpaces s)))"

lemma stripLeft_suffix: "\<exists>u. s = u @ stripLeft ws s"
proof (induction ws s rule: stripLeft.induct)
  case (1 ws s)
  show ?case
  proof (cases "firstSpace ws s")
    case None
    then show ?thesis by (simp add: stripLeft.simps [of ws s])
  next
    case (Some w)
    with 1 obtain u where "drop (length w) s = u @ stripLeft ws (drop (length w) s)" by blast
    then have "s = (take (length w) s @ u) @ stripLeft ws (drop (length w) s)"
      by (metis append.assoc append_take_drop_id)
    moreover have "stripLeft ws s = stripLeft ws (drop (length w) s)"
      using Some by (simp add: stripLeft.simps [of ws s])
    ultimately show ?thesis by metis
  qed
qed

lemma stripLeft_clean: "firstSpace ws (stripLeft ws s) = None"
proof (induction ws s rule: stripLeft.induct)
  case (1 ws s)
  then show ?case by (cases "firstSpace ws s") (simp_all add: stripLeft.simps [of ws s])
qed

lemma stripLeft_fixed: "firstSpace ws s = None \<Longrightarrow> stripLeft ws s = s"
  by (simp add: stripLeft.simps)

lemma firstSpace_prefix: "firstSpace ws s = None \<Longrightarrow> prefix u s \<Longrightarrow> firstSpace ws u = None"
  by (auto simp: firstSpace_def find_None_iff intro: prefix_order.trans)

lemma trimSpace_prefix: "prefix (trimSpace s) (stripLeft goSpaces s)"
proof -
  obtain u where "rev (stripLeft goSpaces s)
      = u @ stripLeft (map rev goSpaces) (rev (stripLeft goSpaces s))"
    using stripLeft_suffix by blast
  then have "stripLeft goSpaces s = trimSpace s @ rev u"
    unfolding trimSpace_def by (metis rev_append rev_rev_ident)
  then show ?thesis by (metis prefixI)
qed

lemma trimSpace_idem [simp]: "trimSpace (trimSpace s) = trimSpace s"
proof -
  have "firstSpace goSpaces (trimSpace s) = None"
    using firstSpace_prefix [OF stripLeft_clean trimSpace_prefix] .
  then have left: "stripLeft goSpaces (trimSpace s) = trimSpace s"
    by (rule stripLeft_fixed)
  have "firstSpace (map rev goSpaces) (rev (trimSpace s)) = None"
    by (simp add: trimSpace_def stripLeft_clean)
  then have "stripLeft (map rev goSpaces) (rev (trimSpace s)) = rev (trimSpace s)"
    by (rule stripLeft_fixed)
  with left show ?thesis by (simp add: trimSpace_def [of "trimSpace s"])
qed

lemma trimSpace_Nil [simp]: "trimSpace [] = []"
  by (simp add: trimSpace_def stripLeft_fixed firstSpace_def find_None_iff)

section \<open>Letter case\<close>

text \<open>
  \<open>strings.ToLower\<close> maps ASCII strings byte by byte; on other strings it consults the Unicode
  tables, which are the parameter \<open>uni\<close>. \<open>strings.EqualFold\<close> is used with the constants
  \<open>Bearer\<close>, \<open>pm_fail\<close> and \<open>true\<close> only: no letter of these has a case variant outside ASCII, so
  the comparison is the ASCII one.
\<close>

abbreviation byteOf :: "char \<Rightarrow> nat" where
  "byteOf c \<equiv> of_char c"

definition isASCII :: "string \<Rightarrow> bool" where
  "isASCII s \<longleftrightarrow> (\<forall>c \<in> set s. byteOf c < 128)"

definition asciiLower :: "char \<Rightarrow> char" where
  "asciiLower c = (if 65 \<le> byteOf c \<and> byteOf c \<le> 90 then char_of (byteOf c + 32) else c)"

definition toLower :: "(string \<Rightarrow> string) \<Rightarrow> string \<Rightarrow> string" where
  "toLower uni s = (if isASCII s then map asciiLower s else uni s)"

definition equalFold :: "string \<Rightarrow> string \<Rightarrow> bool" where
  "equalFold s t \<longleftrightarrow> map asciiLower s = map asciiLower t"

lemma asciiLower_idem [simp]: "asciiLower (asciiLower c) = asciiLower c"
  by (simp add: asciiLower_def)

section \<open>Decimal numbers\<close>

text \<open>
  \<open>fmt.Sprintf("%d", i)\<close> is \<open>fmtD\<close>, \<open>%06d\<close> on an unsigned counter is \<open>fmtPad 6\<close>, and
  \<open>strconv.ParseInt(s, 10, 64)\<close> is \<open>parseInt\<close>: an optional sign, at least one digit, and an error
  (here \<open>None\<close>) on any other byte or outside the int64 range.
\<close>

definition digitChar :: "nat \<Rightarrow> char" where
  "digitChar d = char_of (48 + d)"

definition isDigit :: "char \<Rightarrow> bool" where
  "isDigit c \<longleftrightarrow> 48 \<le> byteOf c \<and> byteOf c \<le> 57"

definition digitVal :: "char \<Rightarrow> nat" where
  "digitVal c = byteOf c - 48"

fun fmtNat :: "nat \<Rightarrow> string" where
  "fmtNat n = (if n < 10 then [digitChar n] else fmtNat (n div 10) @ [digitChar (n mod 10)])"

declare fmtNat.simps [simp del]

definition fmtD :: "int \<Rightarrow> string" where
  "fmtD i = (if i < 0 then CHR ''-'' # fmtNat (nat (- i)) else fmtNat (nat i))"

definition fmtPad :: "nat \<Rightarrow> nat \<Rightarrow> string" where
  "fmtPad w n = replicate (w - length (fmtNat n)) (CHR ''0'') @ fmtNat n"

definition digitsVal :: "string \<Rightarrow> nat" where
  "digitsVal s = foldl (\<lambda>a c. 10 * a + digitVal c) 0 s"

definition parseNat :: "string \<Rightarrow> nat option" where
  "parseNat s = (if s \<noteq> [] \<and> list_all isDigit s then Some (digitsVal s) else None)"

definition parseInt :: "string \<Rightarrow> int64 option" where
  "parseInt s =
     (let (neg, ds) = (case s of
          c # cs \<Rightarrow> if c = CHR ''-'' then (True, cs)
                    else if c = CHR ''+'' then (False, cs) else (False, s)
        | [] \<Rightarrow> (False, s))
      in case parseNat ds of
           None \<Rightarrow> None
         | Some n \<Rightarrow> let v = (if neg then - int n else int n)
                     in if in64 v then Some v else None)"

lemma digitChar_digit: "d < 10 \<Longrightarrow> isDigit (digitChar d)"
  by (simp add: isDigit_def digitChar_def)

lemma digitVal_digitChar: "d < 10 \<Longrightarrow> digitVal (digitChar d) = d"
  by (simp add: digitVal_def digitChar_def)

lemma fmtNat_nonempty: "fmtNat n \<noteq> []"
  by (subst fmtNat.simps) simp

lemma fmtNat_digits: "list_all isDigit (fmtNat n)"
proof (induction n rule: fmtNat.induct)
  case (1 n)
  then show ?case by (subst fmtNat.simps) (simp add: digitChar_digit)
qed

lemma digitsVal_snoc: "digitsVal (s @ [c]) = 10 * digitsVal s + digitVal c"
  by (simp add: digitsVal_def)

lemma digitsVal_fmtNat: "digitsVal (fmtNat n) = n"
proof (induction n rule: fmtNat.induct)
  case (1 n)
  show ?case
  proof (cases "n < 10")
    case True
    then show ?thesis
      by (subst fmtNat.simps) (simp add: digitsVal_def digitVal_digitChar)
  next
    case False
    with 1 show ?thesis
      by (subst fmtNat.simps) (simp add: digitsVal_snoc digitVal_digitChar)
  qed
qed

lemma parseNat_fmtNat: "parseNat (fmtNat n) = Some n"
  by (simp add: parseNat_def fmtNat_nonempty fmtNat_digits digitsVal_fmtNat)

lemma hd_fmtNat: "\<exists>c cs. fmtNat n = c # cs \<and> isDigit c"
  using fmtNat_nonempty [of n] fmtNat_digits [of n] by (cases "fmtNat n") auto

lemma parseInt_fmtD: "in64 i \<Longrightarrow> parseInt (fmtD i) = Some i"
proof (cases "i < 0")
  case True
  assume "in64 i"
  with True show ?thesis
    by (simp add: parseInt_def fmtD_def parseNat_fmtNat)
next
  case False
  assume "in64 i"
  obtain c cs where c: "fmtNat (nat i) = c # cs" "isDigit c"
    using hd_fmtNat by blast
  then have "c \<noteq> CHR ''-''" "c \<noteq> CHR ''+''"
    by (auto simp: isDigit_def)
  then show ?thesis
    using False \<open>in64 i\<close> c parseNat_fmtNat [of "nat i"] by (simp add: parseInt_def fmtD_def)
qed

lemma fmtNat_inj: "fmtNat m = fmtNat n \<Longrightarrow> m = n"
  by (metis digitsVal_fmtNat)

lemma fmtD_inj: "fmtD i = fmtD j \<Longrightarrow> i = j"
proof -
  have "fmtNat n \<noteq> CHR ''-'' # s" for n s
    using fmtNat_digits [of n] by (auto simp: isDigit_def)
  moreover assume "fmtD i = fmtD j"
  ultimately show "i = j"
    by (auto simp: fmtD_def dest: fmtNat_inj split: if_splits) (metis not_sym)+
qed

lemma fmtD_no_bar: "CHR ''|'' \<notin> set (fmtD i)"
proof -
  have "CHR ''|'' \<notin> set (fmtNat n)" for n
    using fmtNat_digits [of n] by (auto simp: list_all_iff isDigit_def)
  then show ?thesis by (simp add: fmtD_def)
qed

lemma digitsVal_pad: "digitsVal (replicate k (CHR ''0'') @ s) = digitsVal s"
  by (induction k) (simp_all add: digitsVal_def digitVal_def)

lemma fmtPad_inj: "fmtPad w m = fmtPad w n \<Longrightarrow> m = n"
  by (metis fmtPad_def digitsVal_pad digitsVal_fmtNat)

section \<open>Substrings\<close>

definition containsStr :: "string \<Rightarrow> string \<Rightarrow> bool" where
  "containsStr s t \<longleftrightarrow> sublist t s"

fun breakAt :: "char \<Rightarrow> string \<Rightarrow> (string \<times> string) option" where
  "breakAt c [] = None"
| "breakAt c (x # xs) = (if x = c then Some ([], xs)
     else map_option (\<lambda>(a, b). (x # a, b)) (breakAt c xs))"

lemma breakAt_None: "breakAt c s = None \<longleftrightarrow> c \<notin> set s"
  by (induction s) auto

lemma breakAt_append: "c \<notin> set a \<Longrightarrow> breakAt c (a @ c # b) = Some (a, b)"
  by (induction a) auto

lemma append_sep_inj:
  assumes "(c :: char) \<notin> set a" and "c \<notin> set a'" and eq: "a @ c # b = a' @ c # b'"
  shows "a = a' \<and> b = b'"
proof -
  have "Some (a, b) = Some (a', b')"
    unfolding breakAt_append [OF assms(1), symmetric] breakAt_append [OF assms(2), symmetric]
    by (rule arg_cong [OF eq])
  then show ?thesis by simp
qed

section \<open>Strings without white space\<close>

lemma trimSpace_plain:
  assumes "\<And>c. c \<in> set s \<Longrightarrow> 32 < byteOf c \<and> byteOf c < 128"
  shows "trimSpace s = s"
proof -
  have bad: "\<exists>c \<in> set w. \<not> (32 < byteOf c \<and> byteOf c < 128)" if "w \<in> set goSpaces" for w
    using that by (auto simp: goSpaces_def)
  have "firstSpace goSpaces s = None"
    using bad assms by (fastforce simp: firstSpace_def find_None_iff dest: set_mono_prefix)
  moreover have "firstSpace (map rev goSpaces) (rev s) = None"
    using bad assms by (fastforce simp: firstSpace_def find_None_iff dest: set_mono_prefix)
  ultimately show ?thesis by (simp add: trimSpace_def stripLeft_fixed)
qed

lemma fmtNat_set: "c \<in> set (fmtNat n) \<Longrightarrow> isDigit c"
  using fmtNat_digits [of n] by (simp add: list_all_iff)

lemma fmtD_set: "c \<in> set (fmtD i) \<Longrightarrow> isDigit c \<or> c = CHR ''-''"
  by (auto simp: fmtD_def dest: fmtNat_set split: if_splits)

lemma fmtPad_set: "c \<in> set (fmtPad w n) \<Longrightarrow> isDigit c"
  by (auto simp: fmtPad_def isDigit_def dest!: fmtNat_set split: if_splits)

lemma trimSpace_fmtD [simp]: "trimSpace (fmtD i) = fmtD i"
  by (rule trimSpace_plain) (auto simp: isDigit_def dest!: fmtD_set)

end
