(* ===== verification/GoTime.thy ===== *)
theory GoTime
  imports GoStrings
begin

text \<open>
  Go's \<open>time.Time\<close> and \<open>time.Duration\<close>: an instant is the number of nanoseconds since the Unix
  epoch (every instant the program stores is in UTC), a duration a number of nanoseconds.
  \<open>fmtRFC3339\<close> is \<open>t.UTC().Format(time.RFC3339)\<close> and \<open>fmtKeyTime\<close> is the layout
  \<open>20060102T150405\<close> of the storage keys; both read the civil date of an instant off the day
  number by 400-year eras of the proleptic Gregorian calendar.
\<close>

type_synonym time = int
type_synonym duration = int

definition nanosecond :: duration where "nanosecond = 1"
definition millisecond :: duration where "millisecond = 1000000"
definition second :: duration where "second = 1000000000"
definition minute :: duration where "minute = 60 * second"
definition hour :: duration where "hour = 60 * minute"

definition unixSec :: "time \<Rightarrow> int" where
  "unixSec t = t div second"

definition civilOfDay :: "int \<Rightarrow> int \<times> int \<times> int" where
  "civilOfDay d =
     (let z = d + 719468;
          era = z div 146097;
          doe = z mod 146097;
          yoe = (doe - doe div 1460 + doe div 36524 - doe div 146096) div 365;
          doy = doe - (365 * yoe + yoe div 4 - yoe div 100);
          mp = (5 * doy + 2) div 153;
          day = doy - (153 * mp + 2) div 5 + 1;
          month = (if mp < 10 then mp + 3 else mp - 9);
          year = yoe + era * 400 + (if month \<le> 2 then 1 else 0)
      in (year, month, day))"

definition pad :: "nat \<Rightarrow> int \<Rightarrow> string" where
  "pad w i = (if i < 0 then CHR ''-'' # fmtPad w (nat (- i)) else fmtPad w (nat i))"

definition fmtRFC3339 :: "time \<Rightarrow> string" where
  "fmtRFC3339 t =
     (let s = unixSec t; (y, m, d) = civilOfDay (s div 86400); r = s mod 86400
      in pad 4 y @ ''-'' @ pad 2 m @ ''-'' @ pad 2 d @ ''T'' @
         pad 2 (r div 3600) @ '':'' @ pad 2 (r mod 3600 div 60) @ '':'' @ pad 2 (r mod 60) @ ''Z'')"

definition fmtKeyTime :: "time \<Rightarrow> string" where
  "fmtKeyTime t =
     (let s = unixSec t; (y, m, d) = civilOfDay (s div 86400); r = s mod 86400
      in pad 4 y @ pad 2 m @ pad 2 d @ ''T'' @
         pad 2 (r div 3600) @ pad 2 (r mod 3600 div 60) @ pad 2 (r mod 60))"

text \<open>The calendar at known instants: the epoch, a leap day, the last second of 1999.\<close>

lemma fmtRFC3339_epoch: "fmtRFC3339 0 = ''1970-01-01T00:00:00Z''"
  by code_simp

lemma fmtRFC3339_leap_day: "fmtRFC3339 (1709164800 * second) = ''2024-02-29T00:00:00Z''"
  by code_simp

lemma fmtRFC3339_y2k: "fmtRFC3339 (946684799 * second + 999999999) = ''1999-12-31T23:59:59Z''"
  by code_simp

end
