(* ===== verification/Http.thy ===== *)
theory Http
  imports GoTime
begin

text \<open>
  The HTTP core of \<open>internal/httpapp/handler.go\<close> and \<open>internal/hello\<close>: requests, responses, the
  JSON envelope, the request context, body decoding and the three middlewares.

  A handler is a function from a state and a request to a response and the next state. The
  response holds what the handler passed to \<open>WriteHeader\<close>, the headers it set and the envelope it
  encoded; the bytes \<open>encoding/json\<close> writes for an envelope are not modelled. A request body is
  what the JSON decoder yields on it: the result of decoding the first value into the handler's
  struct and how the second \<open>Decode\<close> call ends. The application log is modelled for the
  request-logging middleware only.
\<close>

section \<open>Requests and responses\<close>

record apiError =
  ae_Code :: string
  ae_Message :: string
  ae_Fields :: "(string, string) gomap"

record 'd responseEnvelope =
  env_Data :: "'d option"
  env_Error :: "apiError option"
  env_RequestID :: string

record 'd response =
  res_status :: nat
  res_headers :: "(string, string) gomap"
  res_body :: "'d responseEnvelope option"

record reqContext =
  ctx_requestID :: "string option"
  ctx_userID :: "int64 option"
  ctx_role :: "string option"
  ctx_deadline :: "time option"

record request =
  req_Method :: string
  req_Path :: string
  req_PathValue :: "(string, string) gomap"
  req_Query :: "(string, string) gomap"
  req_Header :: "(string, string) gomap"
  req_ctx :: reqContext

type_synonym ('s, 'd) handler = "'s \<Rightarrow> request \<Rightarrow> 'd response \<times> 's"

definition backgroundContext :: reqContext where
  "backgroundContext = \<lparr>ctx_requestID = None, ctx_userID = None, ctx_role = None, ctx_deadline = None\<rparr>"

definition lookupStr :: "(string, string) gomap \<Rightarrow> string \<Rightarrow> string" where
  "lookupStr m k = (case map_of m k of None \<Rightarrow> '''' | Some v \<Rightarrow> v)"

definition requestIDFromContext :: "reqContext \<Rightarrow> string \<times> bool" where
  "requestIDFromContext c = (case ctx_requestID c of None \<Rightarrow> ('''', False) | Some v \<Rightarrow> (v, True))"

definition jsonContentType :: string where
  "jsonContentType = ''application/json; charset=utf-8''"

definition respondJSON :: "request \<Rightarrow> nat \<Rightarrow> 'd \<Rightarrow> 'd response" where
  [resp_defs]: "respondJSON r status d =
     \<lparr>res_status = status, res_headers = [(''Content-Type'', jsonContentType)],
      res_body = Some \<lparr>env_Data = Some d, env_Error = None,
        env_RequestID = fst (requestIDFromContext (req_ctx r))\<rparr>\<rparr>"

definition respondErrorJSON :: "request \<Rightarrow> nat \<Rightarrow> apiError \<Rightarrow> 'd response" where
  [resp_defs]: "respondErrorJSON r status e =
     \<lparr>res_status = status, res_headers = [(''Content-Type'', jsonContentType)],
      res_body = Some \<lparr>env_Data = None, env_Error = Some e,
        env_RequestID = fst (requestIDFromContext (req_ctx r))\<rparr>\<rparr>"

definition apiErr :: "string \<Rightarrow> string \<Rightarrow> apiError" where
  "apiErr code msg = \<lparr>ae_Code = code, ae_Message = msg, ae_Fields = []\<rparr>"

definition apiErrFields :: "string \<Rightarrow> string \<Rightarrow> (string, string) gomap \<Rightarrow> apiError" where
  "apiErrFields code msg fs = \<lparr>ae_Code = code, ae_Message = msg, ae_Fields = fs\<rparr>"

definition respondStatus :: "nat \<Rightarrow> 'd response" where
  [resp_defs]: "respondStatus status = \<lparr>res_status = status, res_headers = [], res_body = None\<rparr>"

definition respondInternalServerError :: "request \<Rightarrow> 'd response" where
  [resp_defs]: "respondInternalServerError r =
     respondErrorJSON r 500 (apiErr ''internal_error'' ''internal server error'')"

definition errorCode :: "'d response \<Rightarrow> string option" where
  "errorCode res = (case res_body res of None \<Rightarrow> None
     | Some env \<Rightarrow> map_option ae_Code (env_Error env))"

definition responseData :: "'d response \<Rightarrow> 'd option" where
  "responseData res = (case res_body res of None \<Rightarrow> None | Some env \<Rightarrow> env_Data env)"

lemma response_simps [simp]:
  "res_status (respondJSON r st d) = st"
  "res_status (respondErrorJSON r st e) = st"
  "res_status (respondStatus st) = st"
  "res_status (respondInternalServerError r) = 500"
  "responseData (respondJSON r st d) = Some d"
  "responseData (respondErrorJSON r st e) = None"
  "responseData (respondStatus st) = None"
  "responseData (respondInternalServerError r) = None"
  "errorCode (respondJSON r st d) = None"
  "errorCode (respondErrorJSON r st e) = Some (ae_Code e)"
  "errorCode (respondStatus st) = None"
  "errorCode (respondInternalServerError r) = Some ''internal_error''"
  by (simp_all add: resp_defs responseData_def errorCode_def apiErr_def)

lemma apiErr_simps [simp]:
  "ae_Code (apiErr c m) = c" "ae_Message (apiErr c m) = m" "ae_Fields (apiErr c m) = []"
  "ae_Code (apiErrFields c m fs) = c" "ae_Fields (apiErrFields c m fs) = fs"
  by (simp_all add: apiErr_def apiErrFields_def)

section \<open>Body decoding\<close>

datatype decodeEnd = DecodeEOF | DecodeValue | DecodeError

record 'a jsonBody =
  jb_first :: "string + 'a"
  jb_second :: decodeEnd

definition decodeJSONBody :: "'a jsonBody \<Rightarrow> string + 'a" where
  "decodeJSONBody b = (case jb_first b of
       Inl e \<Rightarrow> Inl e
     | Inr v \<Rightarrow> if jb_second b \<noteq> DecodeEOF
                then Inl ''request body must contain a single JSON object''
                else Inr v)"

definition okBody :: "'a \<Rightarrow> 'a jsonBody" where
  "okBody v = \<lparr>jb_first = Inr v, jb_second = DecodeEOF\<rparr>"

lemma decodeJSONBody_okBody [simp]: "decodeJSONBody (okBody v) = Inr v"
  by (simp add: decodeJSONBody_def okBody_def)

lemma decodeJSONBody_Inr: "decodeJSONBody b = Inr v \<longleftrightarrow> b = okBody v"
  by (cases b) (auto simp: decodeJSONBody_def okBody_def split: sum.splits if_splits)

section \<open>Hello and health\<close>

datatype infoResponse = HelloResponse string | HealthResponse string string string

definition helloMessage :: string where
  "helloMessage = ''Hello from Go (running in Docker)!''"

definition serviceName :: string where
  "serviceName = ''showoff-golang''"

definition helloHandler :: "request \<Rightarrow> infoResponse response" where
  "helloHandler r = respondJSON r 200 (HelloResponse helloMessage)"

definition healthHandler :: "time \<Rightarrow> request \<Rightarrow> infoResponse response" where
  "healthHandler now r = respondJSON r 200 (HealthResponse ''ok'' serviceName (fmtRFC3339 now))"

section \<open>Middlewares\<close>

text \<open>
  \<open>requestSeq\<close> is a process-wide \<open>uint64\<close>, bumped atomically. The chain is
  \<open>withRequestLogging (withRequestTimeout (withRequestID mux))\<close>: each middleware hands its
  successor a copy of the request with an extended context.
\<close>

definition requestTimeout :: duration where
  "requestTimeout = 15 * second"

definition newRequestID :: "uint64 \<Rightarrow> string \<times> uint64" where
  "newRequestID seq = (let i = seq + 1 in (''req-'' @ fmtPad 6 (unat i), i))"

definition withRequestID :: "('s, 'd) handler \<Rightarrow> (uint64 \<times> 's, 'd) handler" where
  "withRequestID next = (\<lambda>(seq, s) r.
     let (reqID, seq') = newRequestID seq;
         (res, s') = next s (r\<lparr>req_ctx := (req_ctx r)\<lparr>ctx_requestID := Some reqID\<rparr>\<rparr>)
     in (res\<lparr>res_headers := mput ''X-Request-ID'' reqID (res_headers res)\<rparr>, (seq', s')))"

definition withRequestTimeout :: "time \<Rightarrow> ('s, 'd) handler \<Rightarrow> duration \<Rightarrow> ('s, 'd) handler" where
  "withRequestTimeout now next timeout = (\<lambda>s r.
     if timeout \<le> 0 then next s r
     else next s (r\<lparr>req_ctx := (req_ctx r)\<lparr>ctx_deadline := Some (case ctx_deadline (req_ctx r) of
            None \<Rightarrow> now + timeout | Some d \<Rightarrow> min d (now + timeout))\<rparr>\<rparr>))"

record statusRecorder =
  rec_status :: nat

definition recWriteHeader :: "statusRecorder \<Rightarrow> nat \<Rightarrow> statusRecorder" where
  "recWriteHeader rec code = rec\<lparr>rec_status := code\<rparr>"

definition recStatusCode :: "statusRecorder \<Rightarrow> nat" where
  "recStatusCode rec = (if rec_status rec = 0 then 200 else rec_status rec)"

record logEntry =
  log_method :: string
  log_path :: string
  log_status :: nat
  log_durationMs :: int
  log_requestID :: string

definition withRequestLogging ::
  "time \<Rightarrow> time \<Rightarrow> ('s, 'd) handler \<Rightarrow> 's \<Rightarrow> request \<Rightarrow> 'd response \<times> 's \<times> logEntry" where
  "withRequestLogging start end next s r =
     (let rec = \<lparr>rec_status = 0\<rparr>;
          (res, s') = next s r;
          rec' = (if res_status res = 0 then rec else recWriteHeader rec (res_status res))
      in (res, s',
          \<lparr>log_method = req_Method r, log_path = req_Path r, log_status = recStatusCode rec',
           log_durationMs = (end - start) div millisecond,
           log_requestID = fst (requestIDFromContext (req_ctx r))\<rparr>))"

definition serveChain ::
  "time \<Rightarrow> time \<Rightarrow> ('s, 'd) handler \<Rightarrow> uint64 \<times> 's \<Rightarrow> request
     \<Rightarrow> 'd response \<times> (uint64 \<times> 's) \<times> logEntry" where
  "serveChain start end mux =
     withRequestLogging start end (withRequestTimeout start (withRequestID mux) requestTimeout)"

section \<open>Properties of the core\<close>

lemma newRequestID_inj: "fst (newRequestID a) = fst (newRequestID b) \<Longrightarrow> a = b"
  by (auto simp: newRequestID_def Let_def dest!: fmtPad_inj simp flip: word_unat_eq_iff)

lemma requestTimeout_pos: "0 < requestTimeout"
  by (simp add: requestTimeout_def second_def)

lemmas chain_defs = serveChain_def withRequestLogging_def withRequestTimeout_def
  withRequestID_def Let_def

lemma serveChain_seq: "fst (fst (snd (serveChain t0 t1 mux (seq, s) r))) = seq + 1"
  by (simp add: chain_defs newRequestID_def split: prod.splits)

lemma serveChain_header:
  "map_of (res_headers (fst (serveChain t0 t1 mux (seq, s) r))) ''X-Request-ID''
     = Some (fst (newRequestID seq))"
  by (simp add: chain_defs split: prod.splits)

text \<open>A run of a process: the responses to a list of requests, each with its start and end time.\<close>

fun serveAll :: "('s, 'd) handler \<Rightarrow> uint64 \<times> 's \<Rightarrow> (time \<times> time \<times> request) list \<Rightarrow> 'd response list"
where
  "serveAll mux st [] = []"
| "serveAll mux st ((t0, t1, r) # rs) =
     (let (res, st', _) = serveChain t0 t1 mux st r in res # serveAll mux st' rs)"

definition requestIDHeader :: "'d response \<Rightarrow> string option" where
  "requestIDHeader res = map_of (res_headers res) ''X-Request-ID''"

lemma serveAll_headers:
  "map requestIDHeader (serveAll mux (seq, s) rs)
     = map (\<lambda>i. Some (fst (newRequestID (seq + of_nat i)))) [0..<length rs]"
proof (induction rs arbitrary: seq s)
  case Nil
  then show ?case by simp
next
  case (Cons q rs)
  obtain t0 t1 r where q: "q = (t0, t1, r)" by (cases q)
  obtain res seq' s' l where c: "serveChain t0 t1 mux (seq, s) r = (res, (seq', s'), l)"
    by (metis prod.exhaust)
  have seq': "seq' = seq + 1"
    using serveChain_seq [of t0 t1 mux seq s r] c by simp
  have hd: "requestIDHeader res = Some (fst (newRequestID seq))"
    using serveChain_header [of t0 t1 mux seq s r] c by (simp add: requestIDHeader_def)
  have "map (\<lambda>i. Some (fst (newRequestID (seq + of_nat i)))) [0..<length (q # rs)]
      = Some (fst (newRequestID seq)) # map (\<lambda>i. Some (fst (newRequestID (seq' + of_nat i)))) [0..<length rs]"
    by (simp add: upt_conv_Cons map_Suc_upt [symmetric] comp_def seq' add.assoc del: upt_Suc)
  with c q hd Cons.IH [of seq' s'] show ?case by (simp del: upt_Suc)
qed

lemma of_nat_word64_inj:
  assumes i: "i < 2 ^ 64" and j: "j < 2 ^ 64" and eq: "(of_nat i :: uint64) = of_nat j"
  shows "i = j"
proof -
  have "unat (of_nat i :: uint64) = i" "unat (of_nat j :: uint64) = j"
    using i j by (auto intro: of_nat_inverse [OF refl])
  with eq show ?thesis by metis
qed

text \<open>
  Request ids are unique within a process. The \<open>X-Request-ID\<close> headers of the responses to
  any list of requests are pairwise different, until the 64-bit counter has gone round once, and
  whatever the handler behind the middlewares does.
\<close>

theorem request_ids_distinct:
  assumes "length rs \<le> 2 ^ 64"
  shows "distinct (map requestIDHeader (serveAll mux (seq, s) rs))"
  unfolding serveAll_headers distinct_map
proof
  show "inj_on (\<lambda>i. Some (fst (newRequestID (seq + of_nat i)))) (set [0..<length rs])"
    using assms by (auto intro!: inj_onI of_nat_word64_inj dest!: newRequestID_inj)
qed simp

text \<open>
  The request log line never carries the request id. The logging middleware is the outermost
  one and reads the context of the request it was given, while the id is put into the context of
  the copy handed to the inner handlers: the response has the header, the log line the empty id.
\<close>

theorem request_log_id_empty:
  assumes "req_ctx r = backgroundContext"
  shows "log_requestID (snd (snd (serveChain t0 t1 mux (seq, s) r))) = ''''
    \<and> requestIDHeader (fst (serveChain t0 t1 mux (seq, s) r)) = Some (fst (newRequestID seq))"
proof
  show "log_requestID (snd (snd (serveChain t0 t1 mux (seq, s) r))) = ''''"
    by (simp add: chain_defs assms backgroundContext_def requestIDFromContext_def split: prod.splits)
qed (simp add: requestIDHeader_def serveChain_header)

text \<open>The hello endpoint behind the middlewares, on a fresh process.\<close>

definition demoGet :: request where
  "demoGet = \<lparr>req_Method = ''GET'', req_Path = ''/hello'', req_PathValue = [], req_Query = [],
     req_Header = [], req_ctx = backgroundContext\<rparr>"

definition demoMux :: "(unit, infoResponse) handler" where
  "demoMux s r = (helloHandler r, s)"

theorem request_ids_distinct_witness:
  "distinct (map requestIDHeader (serveAll demoMux (0, ()) [(0, 1, demoGet), (2, 3, demoGet)]))"
  by (rule request_ids_distinct) simp

theorem request_log_id_empty_witness:
  "log_requestID (snd (snd (serveChain 0 1 demoMux (0, ()) demoGet))) = ''''
    \<and> requestIDHeader (fst (serveChain 0 1 demoMux (0, ()) demoGet)) = Some (''req-'' @ fmtPad 6 1)"
  using request_log_id_empty [of demoGet 0 1 demoMux 0 "()"]
  by (simp add: demoGet_def newRequestID_def Let_def)

end
