(* ===== verification/Auth.thy ===== *)
theory Auth
  imports Http
begin

text \<open>
  The authentication service of \<open>internal/httpapp/auth.go\<close>: signup, login, refresh-token rotation,
  \<open>/auth/me\<close>, token issue and validation, and the middleware that puts a principal into the
  request context.

  The bcrypt and golang-jwt packages and the Unicode lower-case tables are not part of the
  repository: they are the fields of \<open>authEnv\<close>, an argument of the operations that call them.
  \<open>env_jwtParse\<close> takes the key function of \<open>validateAccessToken\<close> as \<open>jwt.Parse\<close> does. The random
  refresh token and the clock readings are arguments, one per call the code makes. The mutex
  sections of a handler run without interference from other handlers in this model.
\<close>

section \<open>State and data\<close>

record authUser =
  au_ID :: int64
  au_Email :: string
  au_Role :: string
  au_PasswordHash :: string
  au_CreatedAt :: time

record refreshTokenSession =
  rs_UserID :: int64
  rs_ExpiresAt :: time

record authAPI =
  aa_nextUserID :: int64
  aa_usersByID :: "(int64, authUser) gomap"
  aa_usersByMail :: "(string, authUser) gomap"
  aa_refreshTokens :: "(string, refreshTokenSession) gomap"

record signupRequest =
  su_Email :: string
  su_Password :: string
  su_Role :: string

record loginRequest =
  lo_Email :: string
  lo_Password :: string

record refreshRequest =
  rf_RefreshToken :: string

record authTokensResponse =
  at_AccessToken :: string
  at_AccessTokenExpiresAt :: string
  at_RefreshToken :: string
  at_RefreshTokenExpiresAt :: string
  at_TokenType :: string

record authMeResponse =
  me_UserID :: int64
  me_Email :: string

datatype authPayload = Tokens authTokensResponse | Me authMeResponse

datatype jsonVal = JStr string | JNum rat | JOther

type_synonym jwtClaims = "(string, jsonVal) gomap"

datatype jwtMethod = HS256 | OtherMethod string

record authEnv =
  env_uniLower :: "string \<Rightarrow> string"
  env_bcryptHash :: "string \<Rightarrow> string + string"
  env_bcryptCompare :: "string \<Rightarrow> string \<Rightarrow> bool"
  env_jwtSign :: "jwtClaims \<Rightarrow> string \<Rightarrow> string + string"
  env_jwtParse :: "time \<Rightarrow> string \<Rightarrow> (jwtMethod \<Rightarrow> string + string) \<Rightarrow> string + (bool \<times> jwtClaims)"

definition defaultAccessTTL :: duration where
  "defaultAccessTTL = 15 * minute"

definition defaultRefreshTTL :: duration where
  "defaultRefreshTTL = 7 * 24 * hour"

definition jwtSecret :: string where
  "jwtSecret = ''dev-secret-change-in-prod''"

definition newAuthAPI :: authAPI where
  "newAuthAPI = \<lparr>aa_nextUserID = 1, aa_usersByID = [], aa_usersByMail = [], aa_refreshTokens = []\<rparr>"

section \<open>Helpers\<close>

definition validateAuthInput :: "string \<Rightarrow> string \<Rightarrow> (string, string) gomap" where
  "validateAuthInput email password =
     (let f1 = (if email = '''' \<or> \<not> containsStr email ''@''
                then mput ''email'' ''email must be valid'' [] else [])
      in if length password < 8
         then mput ''password'' ''password must be at least 8 characters'' f1 else f1)"

definition parseBearerToken :: "string \<Rightarrow> string + string" where
  "parseBearerToken header = (case breakAt (CHR '' '') (trimSpace header) of
       None \<Rightarrow> Inl ''invalid authorization header''
     | Some (scheme, rest) \<Rightarrow>
         if \<not> equalFold scheme ''Bearer'' \<or> trimSpace rest = ''''
         then Inl ''invalid authorization header''
         else Inr (trimSpace rest))"

text \<open>\<open>int64(v)\<close> of a float64: truncation; out of range amd64 yields the least int64.\<close>

definition int64OfFloat :: "rat \<Rightarrow> int64" where
  "int64OfFloat q = (let t = (if 0 \<le> q then floor q else ceiling q)
                     in if in64 t then t else - (2 ^ 63))"

definition accessKeyFunc :: "jwtMethod \<Rightarrow> string + string" where
  "accessKeyFunc m = (if m \<noteq> HS256 then Inl ''invalid signing method'' else Inr jwtSecret)"

definition validateAccessToken :: "authEnv \<Rightarrow> time \<Rightarrow> string \<Rightarrow> string + (int64 \<times> string)" where
  "validateAccessToken env now raw = (case env_jwtParse env now raw accessKeyFunc of
       Inl _ \<Rightarrow> Inl ''invalid token''
     | Inr (valid, claims) \<Rightarrow>
         if \<not> valid then Inl ''invalid token''
         else if map_of claims ''typ'' \<noteq> Some (JStr ''access'') then Inl ''invalid token type''
         else (case map_of claims ''sub'' of
             None \<Rightarrow> Inl ''missing subject''
           | Some subVal \<Rightarrow>
               let role0 = (case map_of claims ''role'' of Some (JStr x) \<Rightarrow> x | _ \<Rightarrow> '''');
                   role = (if role0 = '''' then ''user'' else role0)
               in (case subVal of
                     JNum v \<Rightarrow> Inr (int64OfFloat v, role)
                   | _ \<Rightarrow> Inl ''invalid subject type'')))"

definition withAuthUserID :: "reqContext \<Rightarrow> int64 \<Rightarrow> reqContext" where
  "withAuthUserID c uid = c\<lparr>ctx_userID := Some uid\<rparr>"

definition withAuthPrincipal :: "reqContext \<Rightarrow> int64 \<Rightarrow> string \<Rightarrow> reqContext" where
  "withAuthPrincipal c uid role = (withAuthUserID c uid)\<lparr>ctx_role := Some role\<rparr>"

definition authUserIDFromContext :: "reqContext \<Rightarrow> int64 option" where
  "authUserIDFromContext c = ctx_userID c"

definition authRoleFromContext :: "reqContext \<Rightarrow> string option" where
  "authRoleFromContext c = ctx_role c"

definition authPrincipalFromContext :: "reqContext \<Rightarrow> (int64 \<times> string) option" where
  "authPrincipalFromContext c = (case authUserIDFromContext c of
       None \<Rightarrow> None
     | Some uid \<Rightarrow> (case authRoleFromContext c of
           None \<Rightarrow> Some (uid, ''user'')
         | Some role \<Rightarrow> Some (uid, if role = '''' then ''user'' else role)))"

definition userRoleByID :: "authAPI \<Rightarrow> int64 \<Rightarrow> string" where
  "userRoleByID a i = (case map_of (aa_usersByID a) i of
       None \<Rightarrow> ''user''
     | Some u \<Rightarrow> if au_Role u = '''' then ''user'' else au_Role u)"

text \<open>\<open>generateSecureToken\<close>: 32 random bytes, or the reader's error, in unpadded URL base64.\<close>

definition base64Char :: "nat \<Rightarrow> char" where
  "base64Char n = ''ABCDEFGHIJKLMNOPQRSTUVWXYZabcdefghijklmnopqrstuvwxyz0123456789-_'' ! n"

fun rawURLEncode :: "nat list \<Rightarrow> string" where
  "rawURLEncode (a # b # c # rest) =
     base64Char (a div 4) # base64Char (a mod 4 * 16 + b div 16) #
     base64Char (b mod 16 * 4 + c div 64) # base64Char (c mod 64) # rawURLEncode rest"
| "rawURLEncode [a, b] =
     [base64Char (a div 4), base64Char (a mod 4 * 16 + b div 16), base64Char (b mod 16 * 4)]"
| "rawURLEncode [a] = [base64Char (a div 4), base64Char (a mod 4 * 16)]"
| "rawURLEncode [] = []"

definition generateSecureToken :: "string + nat list \<Rightarrow> string + string" where
  "generateSecureToken rnd = (case rnd of Inl e \<Rightarrow> Inl e | Inr buf \<Rightarrow> Inr (rawURLEncode buf))"

section \<open>Operations\<close>

definition accessClaims :: "time \<Rightarrow> int64 \<Rightarrow> string \<Rightarrow> jwtClaims" where
  "accessClaims now uid role =
     [(''sub'', JNum (of_int uid)), (''exp'', JNum (of_int (unixSec (now + defaultAccessTTL)))),
      (''iat'', JNum (of_int (unixSec now))), (''typ'', JStr ''access''), (''role'', JStr role)]"

definition issueTokens ::
  "authEnv \<Rightarrow> time \<Rightarrow> string + string \<Rightarrow> authAPI \<Rightarrow> int64 \<Rightarrow> string
     \<Rightarrow> (string + authTokensResponse) \<times> authAPI" where
  "issueTokens env now tok a uid role =
     (case env_jwtSign env (accessClaims now uid role) jwtSecret of
        Inl e \<Rightarrow> (Inl e, a)
      | Inr accessToken \<Rightarrow>
          (case tok of
             Inl e \<Rightarrow> (Inl e, a)
           | Inr refreshToken \<Rightarrow>
               (Inr \<lparr>at_AccessToken = accessToken,
                     at_AccessTokenExpiresAt = fmtRFC3339 (now + defaultAccessTTL),
                     at_RefreshToken = refreshToken,
                     at_RefreshTokenExpiresAt = fmtRFC3339 (now + defaultRefreshTTL),
                     at_TokenType = ''Bearer''\<rparr>,
                a\<lparr>aa_refreshTokens := mput refreshToken
                    \<lparr>rs_UserID = uid, rs_ExpiresAt = now + defaultRefreshTTL\<rparr>
                    (aa_refreshTokens a)\<rparr>)))"

definition respondTokens ::
  "request \<Rightarrow> nat \<Rightarrow> (string + authTokensResponse) \<times> authAPI \<Rightarrow> authPayload response \<times> authAPI" where
  "respondTokens r status res = (case fst res of
       Inl _ \<Rightarrow> (respondInternalServerError r, snd res)
     | Inr tokens \<Rightarrow> (respondJSON r status (Tokens tokens), snd res))"

definition invalidJSON :: apiError where
  "invalidJSON = apiErr ''invalid_json'' ''invalid JSON request body''"

definition validationError :: "(string, string) gomap \<Rightarrow> apiError" where
  "validationError fs = apiErrFields ''validation_error'' ''request validation failed'' fs"

definition normEmail :: "authEnv \<Rightarrow> string \<Rightarrow> string" where
  "normEmail env e = trimSpace (toLower (env_uniLower env) e)"

definition signup ::
  "authEnv \<Rightarrow> time \<Rightarrow> time \<Rightarrow> string + string \<Rightarrow> signupRequest jsonBody
     \<Rightarrow> (authAPI, authPayload) handler" where
  "signup env nowCreate nowIssue tok body a r = (case decodeJSONBody body of
       Inl _ \<Rightarrow> (respondErrorJSON r 400 invalidJSON, a)
     | Inr inp \<Rightarrow>
         let email = normEmail env (su_Email inp);
             role0 = trimSpace (toLower (env_uniLower env) (su_Role inp));
             role = (if role0 = '''' then ''user'' else role0)
         in if role \<noteq> ''user'' \<and> role \<noteq> ''admin''
            then (respondErrorJSON r 400 (validationError [(''role'', ''role must be user or admin'')]), a)
            else let fields = validateAuthInput email (su_Password inp) in
            if 0 < length fields then (respondErrorJSON r 400 (validationError fields), a)
            else (case env_bcryptHash env (su_Password inp) of
                Inl _ \<Rightarrow> (respondInternalServerError r, a)
              | Inr hash \<Rightarrow>
                  if map_of (aa_usersByMail a) email \<noteq> None
                  then (respondErrorJSON r 409 (apiErr ''email_exists'' ''email already registered''), a)
                  else
                    let user = \<lparr>au_ID = aa_nextUserID a, au_Email = email, au_Role = role,
                                au_PasswordHash = hash, au_CreatedAt = nowCreate\<rparr>;
                        a' = a\<lparr>aa_nextUserID := wrap64 (aa_nextUserID a + 1),
                               aa_usersByID := mput (au_ID user) user (aa_usersByID a),
                               aa_usersByMail := mput email user (aa_usersByMail a)\<rparr>
                    in respondTokens r 201 (issueTokens env nowIssue tok a' (au_ID user) (au_Role user))))"

definition login ::
  "authEnv \<Rightarrow> time \<Rightarrow> string + string \<Rightarrow> loginRequest jsonBody \<Rightarrow> (authAPI, authPayload) handler" where
  "login env now tok body a r = (case decodeJSONBody body of
       Inl _ \<Rightarrow> (respondErrorJSON r 400 invalidJSON, a)
     | Inr inp \<Rightarrow>
         let email = normEmail env (lo_Email inp) in
         if email = '''' \<or> lo_Password inp = ''''
         then (respondErrorJSON r 400 (validationError
                [(''email'', ''email is required''), (''password'', ''password is required'')]), a)
         else (case map_of (aa_usersByMail a) email of
             None \<Rightarrow> (respondErrorJSON r 401
                 (apiErr ''invalid_credentials'' ''invalid email or password''), a)
           | Some user \<Rightarrow>
               if \<not> env_bcryptCompare env (au_PasswordHash user) (lo_Password inp)
               then (respondErrorJSON r 401
                 (apiErr ''invalid_credentials'' ''invalid email or password''), a)
               else respondTokens r 200 (issueTokens env now tok a (au_ID user) (au_Role user))))"

text \<open>
  \<open>refresh\<close>: when the token is unknown the Go variable \<open>session\<close> is the zero value, so the user
  lookup reads user 0; the result is only used when the token was found.
\<close>

definition refresh ::
  "authEnv \<Rightarrow> time \<Rightarrow> time \<Rightarrow> string + string \<Rightarrow> refreshRequest jsonBody
     \<Rightarrow> (authAPI, authPayload) handler" where
  "refresh env now nowIssue tok body a r = (case decodeJSONBody body of
       Inl _ \<Rightarrow> (respondErrorJSON r 400 invalidJSON, a)
     | Inr inp \<Rightarrow>
         let token = trimSpace (rf_RefreshToken inp) in
         if token = ''''
         then (respondErrorJSON r 400 (validationError
                [(''refresh_token'', ''refresh_token is required'')]), a)
         else
           let found = map_of (aa_refreshTokens a) token;
               session = (case found of None \<Rightarrow> \<lparr>rs_UserID = 0, rs_ExpiresAt = 0\<rparr> | Some x \<Rightarrow> x);
               expired = (found \<noteq> None \<and> rs_ExpiresAt session < now);
               ok = (found \<noteq> None \<and> \<not> expired);
               a' = (if found \<noteq> None
                     then a\<lparr>aa_refreshTokens := mdel token (aa_refreshTokens a)\<rparr> else a);
               userExists = (map_of (aa_usersByID a') (rs_UserID session) \<noteq> None)
           in if \<not> ok \<or> \<not> userExists
              then (respondErrorJSON r 401
                  (apiErr ''invalid_refresh_token'' ''refresh token is invalid or expired''), a')
              else respondTokens r 200
                (issueTokens env nowIssue tok a' (rs_UserID session) (userRoleByID a' (rs_UserID session))))"

definition me :: "(authAPI, authPayload) handler" where
  "me a r = (case authUserIDFromContext (req_ctx r) of
       None \<Rightarrow> (respondErrorJSON r 401 (apiErr ''unauthorized'' ''missing authenticated user''), a)
     | Some uid \<Rightarrow> (case map_of (aa_usersByID a) uid of
           None \<Rightarrow> (respondErrorJSON r 401 (apiErr ''unauthorized'' ''user not found''), a)
         | Some user \<Rightarrow> (respondJSON r 200 (Me \<lparr>me_UserID = au_ID user, me_Email = au_Email user\<rparr>), a)))"

definition authMiddleware :: "authEnv \<Rightarrow> time \<Rightarrow> ('s, 'd) handler \<Rightarrow> ('s, 'd) handler" where
  "authMiddleware env now nxt s r =
     (case parseBearerToken (lookupStr (req_Header r) ''Authorization'') of
        Inl _ \<Rightarrow> (respondErrorJSON r 401
                   (apiErr ''unauthorized'' ''missing or invalid authorization header''), s)
      | Inr tok \<Rightarrow> (case validateAccessToken env now tok of
            Inl _ \<Rightarrow> (respondErrorJSON r 401
                       (apiErr ''unauthorized'' ''invalid or expired access token''), s)
          | Inr (uid, role) \<Rightarrow> nxt s (r\<lparr>req_ctx := withAuthPrincipal (req_ctx r) uid role\<rparr>)))"

section \<open>The invariant of the user and session tables\<close>

definition authInv :: "authAPI \<Rightarrow> bool" where
  [inv_defs]: "authInv a \<longleftrightarrow>
     distinct (mkeys (aa_usersByID a)) \<and> distinct (mkeys (aa_usersByMail a)) \<and>
     distinct (mkeys (aa_refreshTokens a)) \<and> 1 \<le> aa_nextUserID a \<and> in64 (aa_nextUserID a) \<and>
     (\<forall>i u. map_of (aa_usersByID a) i = Some u \<longrightarrow>
        au_ID u = i \<and> 1 \<le> i \<and> i < aa_nextUserID a \<and> au_Role u \<in> {''user'', ''admin''} \<and>
        map_of (aa_usersByMail a) (au_Email u) = Some u) \<and>
     (\<forall>e u. map_of (aa_usersByMail a) e = Some u \<longrightarrow>
        au_Email u = e \<and> map_of (aa_usersByID a) (au_ID u) = Some u) \<and>
     (\<forall>t x. map_of (aa_refreshTokens a) t = Some x \<longrightarrow> map_of (aa_usersByID a) (rs_UserID x) \<noteq> None)"

inductive authStep :: "string + string \<Rightarrow> authAPI \<Rightarrow> authAPI \<Rightarrow> bool" where
  step_signup: "snd (signup env t0 t1 tok body a r) = a' \<Longrightarrow> authStep tok a a'"
| step_login: "snd (login env t0 tok body a r) = a' \<Longrightarrow> authStep tok a a'"
| step_refresh: "snd (refresh env t0 t1 tok body a r) = a' \<Longrightarrow> authStep tok a a'"

inductive authRun :: "authAPI \<Rightarrow> (string + string) list \<Rightarrow> authAPI \<Rightarrow> bool" for a :: authAPI where
  run_nil: "authRun a [] a"
| run_step: "authRun a toks b \<Longrightarrow> authStep tok b c \<Longrightarrow> authRun a (toks @ [tok]) c"

lemma authInv_new: "authInv newAuthAPI"
  by (simp add: authInv_def newAuthAPI_def)

lemma authInv_ID:
  "authInv a \<Longrightarrow> map_of (aa_usersByID a) i = Some u \<Longrightarrow>
     au_ID u = i \<and> 1 \<le> i \<and> i < aa_nextUserID a \<and> au_Role u \<in> {''user'', ''admin''} \<and>
     map_of (aa_usersByMail a) (au_Email u) = Some u"
  unfolding authInv_def by blast

lemma authInv_Mail:
  "authInv a \<Longrightarrow> map_of (aa_usersByMail a) e = Some u \<Longrightarrow>
     au_Email u = e \<and> map_of (aa_usersByID a) (au_ID u) = Some u"
  unfolding authInv_def by blast

lemma authInv_Tok:
  "authInv a \<Longrightarrow> map_of (aa_refreshTokens a) t = Some x \<Longrightarrow>
     map_of (aa_usersByID a) (rs_UserID x) \<noteq> None"
  unfolding authInv_def by blast

lemma snd_respondTokens [simp]: "snd (respondTokens r st res) = snd res"
  by (simp add: respondTokens_def split: sum.splits)

lemma issueTokens_users [simp]:
  "aa_usersByID (snd (issueTokens env now tok a uid role)) = aa_usersByID a"
  "aa_usersByMail (snd (issueTokens env now tok a uid role)) = aa_usersByMail a"
  "aa_nextUserID (snd (issueTokens env now tok a uid role)) = aa_nextUserID a"
  by (simp_all add: issueTokens_def split: sum.splits)

lemma issueTokens_tokens:
  "aa_refreshTokens (snd (issueTokens env now tok a uid role)) = aa_refreshTokens a \<or>
   (\<exists>t. tok = Inr t \<and> aa_refreshTokens (snd (issueTokens env now tok a uid role))
      = mput t \<lparr>rs_UserID = uid, rs_ExpiresAt = now + defaultRefreshTTL\<rparr> (aa_refreshTokens a))"
  by (simp add: issueTokens_def split: sum.splits)

lemma issueTokens_inv:
  assumes "authInv a" and "map_of (aa_usersByID a) uid \<noteq> None"
  shows "authInv (snd (issueTokens env now tok a uid role))"
  using issueTokens_tokens [of env now tok a uid role]
  by (rule disjE) (use assms in \<open>auto simp: authInv_def distinct_mput split: if_splits\<close>)

lemma addUser_inv:
  assumes inv: "authInv a" and bound: "aa_nextUserID a < maxInt64"
    and free: "map_of (aa_usersByMail a) (au_Email u) = None"
    and u: "au_ID u = aa_nextUserID a" "au_Role u \<in> {''user'', ''admin''}"
  shows "authInv (a\<lparr>aa_nextUserID := wrap64 (aa_nextUserID a + 1),
      aa_usersByID := mput (au_ID u) u (aa_usersByID a),
      aa_usersByMail := mput (au_Email u) u (aa_usersByMail a)\<rparr>)"
proof -
  have fresh: "map_of (aa_usersByID a) (au_ID u) = None"
    using inv u(1) by (cases "map_of (aa_usersByID a) (au_ID u)") (auto simp: authInv_def)
  have "wrap64 (aa_nextUserID a + 1) = aa_nextUserID a + 1"
    using inv bound by (simp add: authInv_def in64_succ)
  moreover have "in64 (aa_nextUserID a + 1)"
    using inv bound by (simp add: authInv_def in64_succ)
  moreover have "distinct (mkeys (aa_usersByID a))" "distinct (mkeys (aa_usersByMail a))"
    "distinct (mkeys (aa_refreshTokens a))" "1 \<le> aa_nextUserID a"
    using inv by (simp_all add: authInv_def)
  ultimately show ?thesis
    using free fresh u
    by (auto simp: authInv_def [of "a\<lparr>aa_nextUserID := _, aa_usersByID := _, aa_usersByMail := _\<rparr>"] distinct_mput split: if_splits
        dest: authInv_ID [OF inv] authInv_Mail [OF inv] authInv_Tok [OF inv])
qed

text \<open>What \<open>signup\<close> can do to the tables: nothing, or one user under a free address.\<close>

definition signupUser :: "authAPI \<Rightarrow> authUser \<Rightarrow> authAPI" where
  "signupUser a u = a\<lparr>aa_nextUserID := wrap64 (aa_nextUserID a + 1),
      aa_usersByID := mput (au_ID u) u (aa_usersByID a),
      aa_usersByMail := mput (au_Email u) u (aa_usersByMail a)\<rparr>"

lemma signup_cases:
  obtains (unchanged) "snd (signup env t0 t1 tok body a r) = a"
    and "res_status (fst (signup env t0 t1 tok body a r)) \<noteq> 201"
  | (added) inp hash u where "body = okBody inp" and "env_bcryptHash env (su_Password inp) = Inr hash"
      and "au_Email u = normEmail env (su_Email inp)" and "au_ID u = aa_nextUserID a"
      and "au_PasswordHash u = hash" and "au_Role u \<in> {''user'', ''admin''}"
      and "normEmail env (su_Email inp) \<noteq> ''''" and "8 \<le> length (su_Password inp)"
      and "map_of (aa_usersByMail a) (au_Email u) = None"
      and "signup env t0 t1 tok body a r
             = respondTokens r 201 (issueTokens env t1 tok (signupUser a u) (au_ID u) (au_Role u))"
proof (cases "decodeJSONBody body")
  case (Inl e)
  then show ?thesis by (intro unchanged) (simp_all add: signup_def)
next
  case (Inr inp)
  then have body: "body = okBody inp" by (simp add: decodeJSONBody_Inr)
  let ?role0 = "trimSpace (toLower (env_uniLower env) (su_Role inp))"
  define role where "role = (if ?role0 = '''' then ''user'' else ?role0)"
  let ?fields = "validateAuthInput (normEmail env (su_Email inp)) (su_Password inp)"
  consider "role \<noteq> ''user'' \<and> role \<noteq> ''admin''" | "\<not> (role \<noteq> ''user'' \<and> role \<noteq> ''admin'')" "?fields \<noteq> []"
    | e where "\<not> (role \<noteq> ''user'' \<and> role \<noteq> ''admin'')" "?fields = []"
        "env_bcryptHash env (su_Password inp) = Inl e"
    | hash where "\<not> (role \<noteq> ''user'' \<and> role \<noteq> ''admin'')" "?fields = []"
        "env_bcryptHash env (su_Password inp) = Inr hash"
        "map_of (aa_usersByMail a) (normEmail env (su_Email inp)) \<noteq> None"
    | hash where "\<not> (role \<noteq> ''user'' \<and> role \<noteq> ''admin'')" "?fields = []"
        "env_bcryptHash env (su_Password inp) = Inr hash"
        "map_of (aa_usersByMail a) (normEmail env (su_Email inp)) = None"
    by (cases "env_bcryptHash env (su_Password inp)"; cases "?fields = []";
        cases "map_of (aa_usersByMail a) (normEmail env (su_Email inp))") auto
  then show ?thesis
  proof cases
    case (5 hash)
    let ?u = "\<lparr>au_ID = aa_nextUserID a, au_Email = normEmail env (su_Email inp), au_Role = role,
               au_PasswordHash = hash, au_CreatedAt = t0\<rparr>"
    have "normEmail env (su_Email inp) \<noteq> ''''" and "8 \<le> length (su_Password inp)"
      using 5(2) by (auto simp: validateAuthInput_def Let_def split: if_splits)
    moreover have "signup env t0 t1 tok body a r
        = respondTokens r 201 (issueTokens env t1 tok (signupUser a ?u) (au_ID ?u) (au_Role ?u))"
      using 5 by (auto simp: signup_def Inr Let_def body signupUser_def role_def [symmetric])
    ultimately show ?thesis
      using 5 body by (intro added [of inp hash ?u]) auto
  qed (intro unchanged; simp add: signup_def Inr Let_def role_def [symmetric] split: option.splits)+
qed

lemma signup_inv:
  assumes "authInv a" and "aa_nextUserID a < maxInt64"
  shows "authInv (snd (signup env t0 t1 tok body a r))"
proof (cases rule: signup_cases [where env = env and ?t0.0 = t0 and ?t1.0 = t1 and tok = tok
      and body = body and a = a and r = r])
  case unchanged
  with assms show ?thesis by simp
next
  case (added inp hash u)
  have "authInv (signupUser a u)"
    unfolding signupUser_def by (rule addUser_inv) (use assms added in auto)
  moreover have "map_of (aa_usersByID (signupUser a u)) (au_ID u) \<noteq> None"
    by (simp add: signupUser_def)
  ultimately show ?thesis using added by (simp add: issueTokens_inv)
qed

lemma login_inv:
  assumes "authInv a"
  shows "authInv (snd (login env now tok body a r))"
proof -
  have "authInv (snd (issueTokens env now tok a (au_ID u) (au_Role u)))"
    if "map_of (aa_usersByMail a) e = Some u" for e u
    using assms authInv_Mail [OF assms that] by (simp add: issueTokens_inv)
  with assms show ?thesis
    by (auto simp: login_def Let_def split: sum.splits option.splits)
qed

lemma delToken_inv: "authInv a \<Longrightarrow> authInv (a\<lparr>aa_refreshTokens := mdel t (aa_refreshTokens a)\<rparr>)"
  by (auto simp: authInv_def distinct_mdel split: if_splits)

lemma refresh_inv:
  assumes "authInv a"
  shows "authInv (snd (refresh env now nowIssue tok body a r))"
  using assms
  by (auto simp: refresh_def Let_def delToken_inv issueTokens_inv split: sum.splits option.splits)

lemma authStep_inv:
  assumes "authStep tok a b" and "authInv a" and "aa_nextUserID a < maxInt64"
  shows "authInv b"
  using assms by (cases rule: authStep.cases) (auto simp: signup_inv login_inv refresh_inv)

lemma signup_nextUserID:
  "aa_nextUserID (snd (signup env t0 t1 tok body a r)) \<in> {aa_nextUserID a, wrap64 (aa_nextUserID a + 1)}"
  by (cases rule: signup_cases [where env = env and ?t0.0 = t0 and ?t1.0 = t1 and tok = tok
      and body = body and a = a and r = r]) (simp_all add: signupUser_def)

lemma login_nextUserID: "aa_nextUserID (snd (login env now tok body a r)) = aa_nextUserID a"
  by (auto simp: login_def Let_def split: sum.splits option.splits)

lemma refresh_nextUserID:
  "aa_nextUserID (snd (refresh env now nowIssue tok body a r)) = aa_nextUserID a"
  by (auto simp: refresh_def Let_def split: sum.splits option.splits)

lemma authStep_nextUserID:
  "authStep tok a b \<Longrightarrow> aa_nextUserID b \<in> {aa_nextUserID a, wrap64 (aa_nextUserID a + 1)}"
  by (erule authStep.cases)
    (metis signup_nextUserID, metis insertI1 login_nextUserID, metis insertI1 refresh_nextUserID)

lemma authRun_inv_bound:
  assumes "authRun newAuthAPI toks a" and "int (length toks) < maxInt64"
  shows "authInv a \<and> aa_nextUserID a \<le> 1 + int (length toks)"
  using assms
proof (induction rule: authRun.induct)
  case run_nil
  then show ?case by (simp add: authInv_new) (simp add: newAuthAPI_def)
next
  case (run_step toks b tok c)
  then have IH: "authInv b" "aa_nextUserID b \<le> 1 + int (length toks)" by auto
  then have lt: "aa_nextUserID b < maxInt64" using run_step by simp
  then have "wrap64 (aa_nextUserID b + 1) = aa_nextUserID b + 1"
    using IH(1) by (simp add: authInv_def in64_succ)
  then show ?case
    using authStep_inv [OF run_step(2) IH(1) lt] authStep_nextUserID [OF run_step(2)] IH(2) by auto
qed

text \<open>
  In every state that signup, login and refresh calls reach from an empty service, the two
  user tables describe the same users under their own ids and addresses, ids are positive and
  below the counter, roles are user or admin and every refresh session belongs to an existing
  user (for the first \<open>2^63 - 2\<close> calls, after which the id counter would wrap).
\<close>

theorem auth_tables_consistent:
  assumes "authRun newAuthAPI toks a" and "int (length toks) < maxInt64"
  shows "authInv a"
  using authRun_inv_bound [OF assms] by blast

section \<open>Refresh tokens are single use\<close>

lemma issueTokens_other:
  "tok \<noteq> Inr t \<Longrightarrow> map_of (aa_refreshTokens a) t = None \<Longrightarrow>
   map_of (aa_refreshTokens (snd (issueTokens env now tok a uid role))) t = None"
  by (auto simp: issueTokens_def split: sum.splits)

lemma authStep_dead_token:
  assumes "authStep tok a b" and "tok \<noteq> Inr t" and dead: "map_of (aa_refreshTokens a) t = None"
  shows "map_of (aa_refreshTokens b) t = None"
  using assms(1)
proof (cases rule: authStep.cases)
  case (step_signup env t0 t1 body r)
  show ?thesis
    by (cases rule: signup_cases [where env = env and ?t0.0 = t0 and ?t1.0 = t1 and tok = tok
        and body = body and a = a and r = r])
      (use step_signup assms(2) dead in \<open>auto simp: issueTokens_other signupUser_def\<close>)
next
  case (step_login env t0 body r)
  then show ?thesis using assms(2) dead
    by (auto simp: login_def Let_def issueTokens_other split: sum.splits option.splits)
next
  case (step_refresh env t0 t1 body r)
  then show ?thesis using assms(2) dead
    by (auto simp: refresh_def Let_def issueTokens_other split: sum.splits option.splits if_splits)
qed

lemma authRun_dead_token:
  assumes "authRun a toks b" and "Inr t \<notin> set toks" and "map_of (aa_refreshTokens a) t = None"
  shows "map_of (aa_refreshTokens b) t = None"
  using assms by (induction rule: authRun.induct) (auto intro: authStep_dead_token)

lemma refresh_kills_token:
  assumes "refresh env now nowIssue tok (okBody \<lparr>rf_RefreshToken = t\<rparr>) a r = (res, a')"
    and "tok \<noteq> Inr (trimSpace t)" and "trimSpace t \<noteq> ''''"
  shows "map_of (aa_refreshTokens a') (trimSpace t) = None"
  using assms
  by (auto simp: refresh_def Let_def respondTokens_def issueTokens_def
      split: sum.splits option.splits if_splits)

lemma refresh_unknown:
  "map_of (aa_refreshTokens a) (trimSpace t) = None \<Longrightarrow> trimSpace t \<noteq> '''' \<Longrightarrow>
   refresh env now nowIssue tok (okBody \<lparr>rf_RefreshToken = t\<rparr>) a r
     = (respondErrorJSON r 401 (apiErr ''invalid_refresh_token'' ''refresh token is invalid or expired''), a)"
  by (simp add: refresh_def Let_def)

text \<open>
  C30: refresh-token rotation is one-time use. Once a refresh call has presented token \<open>t\<close>, then in
  every state later calls reach, as long as the random generator does not draw \<open>t\<close> again,
  presenting \<open>t\<close> is answered 401 \<open>invalid_refresh_token\<close> and changes nothing.
\<close>

theorem refresh_single_use:
  assumes "refresh env now nowIssue tok (okBody \<lparr>rf_RefreshToken = t\<rparr>) a r = (res, a1)"
    and "trimSpace t \<noteq> ''''" and "authRun a1 toks a2" and "Inr (trimSpace t) \<notin> set (tok # toks)"
  shows "refresh env' now' nowIssue' tok' (okBody \<lparr>rf_RefreshToken = t\<rparr>) a2 r'
     = (respondErrorJSON r' 401 (apiErr ''invalid_refresh_token'' ''refresh token is invalid or expired''), a2)"
proof (rule refresh_unknown [OF _ assms(2)])
  have "map_of (aa_refreshTokens a1) (trimSpace t) = None"
    using assms by (intro refresh_kills_token [OF assms(1)]) auto
  then show "map_of (aa_refreshTokens a2) (trimSpace t) = None"
    using authRun_dead_token [OF assms(3)] assms(4) by auto
qed

section \<open>Signup, login and the access token\<close>

lemma login_ok:
  assumes "map_of (aa_usersByMail a) (normEmail env (lo_Email inp)) = Some u"
    and "env_bcryptCompare env (au_PasswordHash u) (lo_Password inp)"
    and "normEmail env (lo_Email inp) \<noteq> ''''" and "lo_Password inp \<noteq> ''''"
  shows "login env now tok (okBody inp) a r
           = respondTokens r 200 (issueTokens env now tok a (au_ID u) (au_Role u))"
  using assms by (simp add: login_def Let_def)

lemma respondTokens_ok:
  assumes "env_jwtSign env (accessClaims now uid role) jwtSecret = Inr t" and "tok = Inr rt"
  obtains x where "fst (respondTokens r st (issueTokens env now tok a uid role)) = respondJSON r st (Tokens x)"
    and "at_AccessToken x = t" and "at_RefreshToken x = rt"
  using assms that by (auto simp: respondTokens_def issueTokens_def)

text \<open>
  An account works after signup. When a signup was answered 201, bcrypt accepts the hash it
  made for the password and token signing succeeds, a login with the same password and an address
  that normalises to the same address is answered 200 with an access and a refresh token.
\<close>

theorem signup_then_login:
  assumes su: "signup env t0 t1 tok (okBody inp) a r = (res, a1)" and "res_status res = 201"
    and hash: "\<forall>h. env_bcryptHash env (su_Password inp) = Inr h \<longrightarrow> env_bcryptCompare env h (su_Password inp)"
    and sign: "\<forall>c. \<exists>t. env_jwtSign env c jwtSecret = Inr t"
    and mail: "normEmail env mail = normEmail env (su_Email inp)"
  shows "\<exists>x. fst (login env t2 (Inr rt) (okBody \<lparr>lo_Email = mail, lo_Password = su_Password inp\<rparr>) a1 r')
           = respondJSON r' 200 (Tokens x) \<and> at_RefreshToken x = rt"
proof (cases rule: signup_cases [where env = env and ?t0.0 = t0 and ?t1.0 = t1 and tok = tok
      and body = "okBody inp" and a = a and r = r])
  case unchanged
  with assms show ?thesis by simp
next
  case (added inp' h u)
  then have inp: "inp' = inp" by (simp add: okBody_def)
  have a1: "map_of (aa_usersByMail a1) (normEmail env mail) = Some u"
  proof -
    have "a1 = snd (issueTokens env t1 tok (signupUser a u) (au_ID u) (au_Role u))"
      using added(10) su by (metis snd_conv snd_respondTokens)
    then show ?thesis using added inp mail by (simp add: signupUser_def)
  qed
  let ?l = "\<lparr>lo_Email = mail, lo_Password = su_Password inp\<rparr>"
  have "login env t2 (Inr rt) (okBody ?l) a1 r'
      = respondTokens r' 200 (issueTokens env t2 (Inr rt) a1 (au_ID u) (au_Role u))"
    using a1 added inp hash mail by (intro login_ok) auto
  moreover obtain t where "env_jwtSign env (accessClaims t2 (au_ID u) (au_Role u)) jwtSecret = Inr t"
    using sign by blast
  ultimately show ?thesis by (metis respondTokens_ok)
qed

text \<open>Concrete collaborators for the witnesses: a hash that marks the password, a token that ignores its claims.\<close>

definition demoClaims :: jwtClaims where
  "demoClaims = accessClaims (1000 * second) 1 ''user''"

definition demoEnv :: authEnv where
  "demoEnv = \<lparr>env_uniLower = id, env_bcryptHash = (\<lambda>p. Inr (CHR ''#'' # p)),
     env_bcryptCompare = (\<lambda>h p. h = CHR ''#'' # p), env_jwtSign = (\<lambda>c k. Inr ''jwt''),
     env_jwtParse = (\<lambda>now t kf. case kf HS256 of
        Inr k \<Rightarrow> if t = ''jwt'' \<and> k = jwtSecret then Inr (True, demoClaims) else Inl ''bad''
      | Inl e \<Rightarrow> Inl e)\<rparr>"

definition demoRequest :: request where
  "demoRequest = \<lparr>req_Method = ''POST'', req_Path = ''/'', req_PathValue = [], req_Query = [],
     req_Header = [], req_ctx = backgroundContext\<rparr>"

definition demoSignup :: signupRequest where
  "demoSignup = \<lparr>su_Email = ''Ann@x.io'', su_Password = ''password'', su_Role = ''''\<rparr>"

definition demoAuth :: authAPI where
  "demoAuth = snd (signup demoEnv 0 0 (Inr ''rt1'') (okBody demoSignup) newAuthAPI demoRequest)"

lemma demoAuth_run: "authRun newAuthAPI [Inr ''rt1''] demoAuth"
  using run_step [OF run_nil step_signup [OF refl]] by (simp add: demoAuth_def)

lemma trimSpace_rt1: "trimSpace ''rt1'' = ''rt1''"
  by code_simp

lemma demo_inputs:
  "normEmail demoEnv ''Ann@x.io'' = ''ann@x.io''"
  "normEmail demoEnv ''ann@X.IO '' = ''ann@x.io''"
  "validateAuthInput ''ann@x.io'' ''password'' = []"
  by code_simp+

lemma toLower_Nil [simp]: "toLower u [] = []"
  by (simp add: toLower_def isASCII_def)

lemma demoEnv_simps [simp]:
  "env_bcryptHash demoEnv p = Inr (CHR ''#'' # p)"
  "env_bcryptCompare demoEnv h p \<longleftrightarrow> h = CHR ''#'' # p"
  "env_jwtSign demoEnv c k = Inr ''jwt''"
  "env_jwtParse demoEnv now ''jwt'' accessKeyFunc = Inr (True, demoClaims)"
  by (simp_all add: demoEnv_def accessKeyFunc_def)

lemma demoSignup_status:
  "res_status (fst (signup demoEnv 0 0 (Inr ''rt1'') (okBody demoSignup) newAuthAPI demoRequest)) = 201"
  by (simp add: signup_def demoSignup_def demo_inputs Let_def newAuthAPI_def respondTokens_def
      issueTokens_def)

theorem auth_tables_consistent_witness:
  "authRun newAuthAPI [Inr ''rt1''] demoAuth \<and> int (length [Inr ''rt1'' :: string + string]) < maxInt64
     \<and> authInv demoAuth"
  using auth_tables_consistent [OF demoAuth_run] demoAuth_run by (simp add: maxInt64_def)

theorem refresh_single_use_witness:
  "let a1 = snd (refresh demoEnv 1 1 (Inr ''rt2'') (okBody \<lparr>rf_RefreshToken = ''rt1''\<rparr>) demoAuth demoRequest)
   in refresh demoEnv 2 2 (Inr ''rt3'') (okBody \<lparr>rf_RefreshToken = ''rt1''\<rparr>) a1 demoRequest
      = (respondErrorJSON demoRequest 401
           (apiErr ''invalid_refresh_token'' ''refresh token is invalid or expired''), a1)"
  unfolding Let_def
  by (rule refresh_single_use [where toks = "[]", OF prod.collapse [symmetric] _ run_nil])
    (simp_all add: trimSpace_rt1)

theorem signup_then_login_witness:
  "\<exists>x. fst (login demoEnv 5 (Inr ''rt9'') (okBody \<lparr>lo_Email = ''ann@X.IO '', lo_Password = ''password''\<rparr>)
        demoAuth demoRequest) = respondJSON demoRequest 200 (Tokens x) \<and> at_RefreshToken x = ''rt9''"
proof -
  have pw: "su_Password demoSignup = ''password''" by (simp add: demoSignup_def)
  show ?thesis
    unfolding pw [symmetric]
    by (rule signup_then_login [where inp = demoSignup, OF prod.collapse [symmetric] demoSignup_status,
          folded demoAuth_def])
      (simp_all add: demoSignup_def demo_inputs)
qed

text \<open>
  C39: an access token is good for what it was issued for. The token \<open>issueTokens\<close> returns for
  user \<open>uid\<close> and a non-empty role, presented as a bearer token while golang-jwt accepts it and
  returns the signed claims, makes the middleware run the protected handler with exactly that user
  and role in the request context (ids up to \<open>2^53\<close>, where the float64 of the JSON claim is exact).
\<close>

theorem access_token_authenticates:
  assumes iss: "issueTokens env now tok a uid role = (Inr x, a1)"
    and parse: "env_jwtParse env now' (at_AccessToken x) accessKeyFunc = Inr (True, accessClaims now uid role)"
    and hdr: "parseBearerToken (lookupStr (req_Header r) ''Authorization'') = Inr (at_AccessToken x)"
    and "\<bar>uid\<bar> \<le> 2 ^ 53" and "role \<noteq> ''''"
  shows "authMiddleware env now' nxt s r = nxt s (r\<lparr>req_ctx := withAuthPrincipal (req_ctx r) uid role\<rparr>)"
proof -
  have "in64 uid" using assms(4) by (simp add: in64_def abs_le_iff)
  then have "int64OfFloat (of_int uid) = uid"
    by (simp add: int64OfFloat_def)
  then have "validateAccessToken env now' (at_AccessToken x) = Inr (uid, role)"
    using parse assms(5) by (simp add: validateAccessToken_def accessClaims_def)
  with hdr show ?thesis by (simp add: authMiddleware_def)
qed

theorem access_token_authenticates_witness:
  "let x = projr (fst (issueTokens demoEnv (1000 * second) (Inr ''rt1'') newAuthAPI 1 ''user''));
       r = demoRequest\<lparr>req_Header := [(''Authorization'', ''bearer  jwt '')]\<rparr>
   in at_AccessToken x = ''jwt'' \<and>
      authMiddleware demoEnv (1100 * second) me demoAuth r
        = me demoAuth (r\<lparr>req_ctx := withAuthPrincipal (req_ctx r) 1 ''user''\<rparr>)"
proof -
  let ?i = "issueTokens demoEnv (1000 * second) (Inr ''rt1'') newAuthAPI 1 ''user''"
  let ?r = "demoRequest\<lparr>req_Header := [(''Authorization'', ''bearer  jwt '')]\<rparr>"
  have tok: "at_AccessToken (projr (fst ?i)) = ''jwt''"
    by (simp add: issueTokens_def)
  have hdr: "parseBearerToken ''bearer  jwt '' = Inr ''jwt''"
    by code_simp
  have "authMiddleware demoEnv (1100 * second) me demoAuth ?r
      = me demoAuth (?r\<lparr>req_ctx := withAuthPrincipal (req_ctx ?r) 1 ''user''\<rparr>)"
  proof (rule access_token_authenticates)
    show "?i = (Inr (projr (fst ?i)), snd ?i)" by (simp add: issueTokens_def)
    show "env_jwtParse demoEnv (1100 * second) (at_AccessToken (projr (fst ?i))) accessKeyFunc
        = Inr (True, accessClaims (1000 * second) 1 ''user'')"
      by (simp add: tok demoClaims_def)
  qed (simp_all add: tok hdr lookupStr_def)
  with tok show ?thesis by (simp add: Let_def)
qed

end
