(* ===== verification/Tasks.thy ===== *)
theory Tasks
  imports Auth
begin

text \<open>
  The notes and tasks API of \<open>internal/httpapp/tasks.go\<close>: the five handlers with their role and
  ownership checks, the repository interface and the in-memory repository.

  The Go interface \<open>taskRepository\<close> is the record \<open>taskRepository\<close> of its five methods over a
  state type; the handlers take it as an argument. The locale \<open>task_repo\<close> states what the handlers
  rely on: an abstraction of the repository to a map from ids to tasks, and what every method does
  to it, allowing a backend to fail with an error that leaves the map as it is and to store time
  stamps at its own resolution (\<open>stamp\<close>). The authorization
  properties of the handlers are proved once in the locale and hold for every interpretation; the
  in-memory repository is interpreted here, the Postgres one in \<open>PgTasks\<close>.
\<close>

section \<open>Data\<close>

record task =
  task_ID :: int64
  task_OwnerUserID :: int64
  task_Title :: string
  task_Note :: string
  task_Done :: bool
  task_CreatedAt :: time
  task_UpdatedAt :: time

record taskInput =
  ti_OwnerUserID :: int64
  ti_Title :: string
  ti_Note :: string
  ti_Done :: bool

record taskResponse =
  tr_ID :: int64
  tr_Title :: string
  tr_Note :: string
  tr_Done :: bool
  tr_CreatedAt :: string
  tr_UpdatedAt :: string

datatype taskPayload = TaskList "taskResponse list" | TaskOne taskResponse

datatype taskError = ErrTaskNotFound | TaskRepoError string

record 's taskRepository =
  repo_List :: "'s \<Rightarrow> (taskError + task list) \<times> 's"
  repo_Create :: "taskInput \<Rightarrow> time \<Rightarrow> 's \<Rightarrow> (taskError + task) \<times> 's"
  repo_Get :: "int64 \<Rightarrow> 's \<Rightarrow> (taskError + task) \<times> 's"
  repo_Update :: "int64 \<Rightarrow> taskInput \<Rightarrow> time \<Rightarrow> 's \<Rightarrow> (taskError + task) \<times> 's"
  repo_Delete :: "int64 \<Rightarrow> 's \<Rightarrow> (taskError + unit) \<times> 's"

definition toTaskResponse :: "task \<Rightarrow> taskResponse" where
  "toTaskResponse t =
     \<lparr>tr_ID = task_ID t, tr_Title = task_Title t, tr_Note = task_Note t, tr_Done = task_Done t,
      tr_CreatedAt = fmtRFC3339 (task_CreatedAt t), tr_UpdatedAt = fmtRFC3339 (task_UpdatedAt t)\<rparr>"

definition compareTaskByID :: "task \<Rightarrow> task \<Rightarrow> int" where
  "compareTaskByID a b = (if task_ID a < task_ID b then - 1 else if task_ID a > task_ID b then 1 else 0)"

section \<open>Handlers\<close>

definition authRequired :: "request \<Rightarrow> 'd response" where
  [resp_defs]: "authRequired r = respondErrorJSON r 401 (apiErr ''unauthorized'' ''authentication required'')"

definition taskDenied :: "request \<Rightarrow> taskPayload response" where
  [resp_defs]: "taskDenied r = respondErrorJSON r 403 (apiErr ''forbidden'' ''task access denied'')"

definition parseTaskID :: "request \<Rightarrow> taskPayload response + int64" where
  "parseTaskID r = (case parseInt (lookupStr (req_PathValue r) ''id'') of
       None \<Rightarrow> Inl (respondErrorJSON r 400 (apiErr ''invalid_id'' ''task id must be a positive integer''))
     | Some i \<Rightarrow> if i \<le> 0
         then Inl (respondErrorJSON r 400 (apiErr ''invalid_id'' ''task id must be a positive integer''))
         else Inr i)"

definition respondTaskNotFound :: "request \<Rightarrow> taskPayload response" where
  [resp_defs]: "respondTaskNotFound r = respondErrorJSON r 404 (apiErr ''not_found'' ''task not found'')"

definition respondTaskRepositoryError :: "request \<Rightarrow> taskError \<Rightarrow> taskPayload response" where
  "respondTaskRepositoryError r e = (case e of
       ErrTaskNotFound \<Rightarrow> respondTaskNotFound r
     | TaskRepoError _ \<Rightarrow> respondInternalServerError r)"

definition validateTaskInput :: "taskInput \<Rightarrow> (string, string) gomap" where
  "validateTaskInput inp =
     (let f1 = (if ti_Title inp = '''' then mput ''title'' ''title is required'' [] else []);
          f2 = (if 200 < length (ti_Title inp)
                then mput ''title'' ''title must be at most 200 characters'' f1 else f1)
      in if 2000 < length (ti_Note inp)
         then mput ''note'' ''note must be at most 2000 characters'' f2 else f2)"

definition canAccess :: "int64 \<Rightarrow> string \<Rightarrow> task \<Rightarrow> bool" where
  "canAccess uid role t \<longleftrightarrow> role = ''admin'' \<or> task_OwnerUserID t = uid"

definition listTasks :: "'s taskRepository \<Rightarrow> ('s, taskPayload) handler" where
  "listTasks repo s r = (case authPrincipalFromContext (req_ctx r) of
       None \<Rightarrow> (authRequired r, s)
     | Some (uid, role) \<Rightarrow> (case repo_List repo s of
           (Inl _, s') \<Rightarrow> (respondInternalServerError r, s')
         | (Inr tasks, s') \<Rightarrow>
             (respondJSON r 200 (TaskList (map toTaskResponse (filter (canAccess uid role) tasks))), s')))"

definition createTask ::
  "'s taskRepository \<Rightarrow> time \<Rightarrow> taskInput jsonBody \<Rightarrow> ('s, taskPayload) handler" where
  "createTask repo now body s r = (case authPrincipalFromContext (req_ctx r) of
       None \<Rightarrow> (authRequired r, s)
     | Some (uid, role) \<Rightarrow> (case decodeJSONBody body of
           Inl _ \<Rightarrow> (respondErrorJSON r 400 invalidJSON, s)
         | Inr inp0 \<Rightarrow>
             let inp = inp0\<lparr>ti_Title := trimSpace (ti_Title inp0), ti_OwnerUserID := uid\<rparr>;
                 fields = validateTaskInput inp
             in if 0 < length fields then (respondErrorJSON r 400 (validationError fields), s)
                else (case repo_Create repo inp now s of
                    (Inl _, s') \<Rightarrow> (respondInternalServerError r, s')
                  | (Inr t, s') \<Rightarrow> (respondJSON r 201 (TaskOne (toTaskResponse t)), s'))))"

definition getTask :: "'s taskRepository \<Rightarrow> ('s, taskPayload) handler" where
  "getTask repo s r = (case authPrincipalFromContext (req_ctx r) of
       None \<Rightarrow> (authRequired r, s)
     | Some (uid, role) \<Rightarrow> (case parseTaskID r of
           Inl res \<Rightarrow> (res, s)
         | Inr i \<Rightarrow> (case repo_Get repo i s of
               (Inl e, s') \<Rightarrow> (respondTaskRepositoryError r e, s')
             | (Inr t, s') \<Rightarrow>
                 if \<not> canAccess uid role t then (taskDenied r, s')
                 else (respondJSON r 200 (TaskOne (toTaskResponse t)), s'))))"

definition updateTask ::
  "'s taskRepository \<Rightarrow> time \<Rightarrow> taskInput jsonBody \<Rightarrow> ('s, taskPayload) handler" where
  "updateTask repo now body s r = (case authPrincipalFromContext (req_ctx r) of
       None \<Rightarrow> (authRequired r, s)
     | Some (uid, role) \<Rightarrow> (case parseTaskID r of
           Inl res \<Rightarrow> (res, s)
         | Inr i \<Rightarrow> (case decodeJSONBody body of
               Inl _ \<Rightarrow> (respondErrorJSON r 400 invalidJSON, s)
             | Inr inp0 \<Rightarrow>
                 let inp = inp0\<lparr>ti_Title := trimSpace (ti_Title inp0)\<rparr>;
                     fields = validateTaskInput inp
                 in if 0 < length fields then (respondErrorJSON r 400 (validationError fields), s)
                    else (case repo_Get repo i s of
                        (Inl e, s1) \<Rightarrow> (respondTaskRepositoryError r e, s1)
                      | (Inr current, s1) \<Rightarrow>
                          if \<not> canAccess uid role current then (taskDenied r, s1)
                          else (case repo_Update repo i inp now s1 of
                              (Inl e, s2) \<Rightarrow> (respondTaskRepositoryError r e, s2)
                            | (Inr t, s2) \<Rightarrow> (respondJSON r 200 (TaskOne (toTaskResponse t)), s2))))))"

definition deleteTask :: "'s taskRepository \<Rightarrow> ('s, taskPayload) handler" where
  "deleteTask repo s r = (case authPrincipalFromContext (req_ctx r) of
       None \<Rightarrow> (authRequired r, s)
     | Some (uid, role) \<Rightarrow> (case parseTaskID r of
           Inl res \<Rightarrow> (res, s)
         | Inr i \<Rightarrow> (case repo_Get repo i s of
               (Inl e, s1) \<Rightarrow> (respondTaskRepositoryError r e, s1)
             | (Inr current, s1) \<Rightarrow>
                 if \<not> canAccess uid role current then (taskDenied r, s1)
                 else (case repo_Delete repo i s1 of
                     (Inl e, s2) \<Rightarrow> (respondTaskRepositoryError r e, s2)
                   | (Inr _, s2) \<Rightarrow> (respondStatus 204, s2)))))"

section \<open>The in-memory repository\<close>

record memoryTaskRepository =
  mt_nextID :: int64
  mt_tasks :: "(int64, task) gomap"

definition newMemoryTaskRepository :: memoryTaskRepository where
  "newMemoryTaskRepository = \<lparr>mt_nextID = 1, mt_tasks = []\<rparr>"

definition newTask :: "int64 \<Rightarrow> taskInput \<Rightarrow> time \<Rightarrow> task" where
  "newTask i inp ts =
     \<lparr>task_ID = i, task_OwnerUserID = ti_OwnerUserID inp, task_Title = ti_Title inp,
      task_Note = ti_Note inp, task_Done = ti_Done inp, task_CreatedAt = ts, task_UpdatedAt = ts\<rparr>"

definition applyTaskInput :: "taskInput \<Rightarrow> time \<Rightarrow> task \<Rightarrow> task" where
  "applyTaskInput inp ts t =
     t\<lparr>task_Title := ti_Title inp, task_Note := ti_Note inp, task_Done := ti_Done inp, task_UpdatedAt := ts\<rparr>"

definition memTask_List :: "memoryTaskRepository \<Rightarrow> (taskError + task list) \<times> memoryTaskRepository" where
  "memTask_List s = (Inr (sortFunc compareTaskByID (mvals (mt_tasks s))), s)"

definition memTask_Create ::
  "taskInput \<Rightarrow> time \<Rightarrow> memoryTaskRepository \<Rightarrow> (taskError + task) \<times> memoryTaskRepository" where
  "memTask_Create inp ts s =
     (let t = newTask (mt_nextID s) inp ts
      in (Inr t, s\<lparr>mt_tasks := mput (task_ID t) t (mt_tasks s), mt_nextID := wrap64 (mt_nextID s + 1)\<rparr>))"

definition memTask_Get ::
  "int64 \<Rightarrow> memoryTaskRepository \<Rightarrow> (taskError + task) \<times> memoryTaskRepository" where
  "memTask_Get i s = (case map_of (mt_tasks s) i of
       None \<Rightarrow> (Inl ErrTaskNotFound, s) | Some t \<Rightarrow> (Inr t, s))"

definition memTask_Update ::
  "int64 \<Rightarrow> taskInput \<Rightarrow> time \<Rightarrow> memoryTaskRepository \<Rightarrow> (taskError + task) \<times> memoryTaskRepository" where
  "memTask_Update i inp ts s = (case map_of (mt_tasks s) i of
       None \<Rightarrow> (Inl ErrTaskNotFound, s)
     | Some t \<Rightarrow> let t' = applyTaskInput inp ts t in (Inr t', s\<lparr>mt_tasks := mput i t' (mt_tasks s)\<rparr>))"

definition memTask_Delete ::
  "int64 \<Rightarrow> memoryTaskRepository \<Rightarrow> (taskError + unit) \<times> memoryTaskRepository" where
  "memTask_Delete i s = (case map_of (mt_tasks s) i of
       None \<Rightarrow> (Inl ErrTaskNotFound, s)
     | Some _ \<Rightarrow> (Inr (), s\<lparr>mt_tasks := mdel i (mt_tasks s)\<rparr>))"

definition memoryTaskRepo :: "memoryTaskRepository taskRepository" where
  "memoryTaskRepo = \<lparr>repo_List = memTask_List, repo_Create = memTask_Create, repo_Get = memTask_Get,
     repo_Update = memTask_Update, repo_Delete = memTask_Delete\<rparr>"

lemma newTask_simps [simp]:
  "task_ID (newTask i inp ts) = i" "task_Title (newTask i inp ts) = ti_Title inp"
  "task_Note (newTask i inp ts) = ti_Note inp" "task_Done (newTask i inp ts) = ti_Done inp"
  by (simp_all add: newTask_def)

lemma newTask_owner [simp]: "task_OwnerUserID (newTask i inp ts) = ti_OwnerUserID inp"
  by (simp add: newTask_def)

lemma applyTaskInput_simps [simp]:
  "task_ID (applyTaskInput inp ts t) = task_ID t"
  "task_OwnerUserID (applyTaskInput inp ts t) = task_OwnerUserID t"
  by (simp_all add: applyTaskInput_def)

lemmas memTask_defs [repo_defs] = memoryTaskRepo_def memTask_List_def memTask_Create_def
  memTask_Get_def memTask_Update_def memTask_Delete_def

section \<open>The repository contract and what the handlers guarantee over it\<close>

text \<open>One authenticated request of principal \<open>(uid, role)\<close>, by any of the five handlers.\<close>

inductive taskStep :: "'s taskRepository \<Rightarrow> int64 \<Rightarrow> string \<Rightarrow> 's \<Rightarrow> 's \<Rightarrow> bool"
  for repo :: "'s taskRepository" and uid :: int64 and role :: string where
  step_list: "authPrincipalFromContext (req_ctx r) = Some (uid, role) \<Longrightarrow>
     taskStep repo uid role s (snd (listTasks repo s r))"
| step_create: "authPrincipalFromContext (req_ctx r) = Some (uid, role) \<Longrightarrow>
     taskStep repo uid role s (snd (createTask repo now body s r))"
| step_get: "authPrincipalFromContext (req_ctx r) = Some (uid, role) \<Longrightarrow>
     taskStep repo uid role s (snd (getTask repo s r))"
| step_update: "authPrincipalFromContext (req_ctx r) = Some (uid, role) \<Longrightarrow>
     taskStep repo uid role s (snd (updateTask repo now body s r))"
| step_delete: "authPrincipalFromContext (req_ctx r) = Some (uid, role) \<Longrightarrow>
     taskStep repo uid role s (snd (deleteTask repo s r))"

text \<open>Requests of any number of users other than \<open>owner\<close>, none of them an admin.\<close>

inductive othersRun :: "'s taskRepository \<Rightarrow> ('s \<Rightarrow> bool) \<Rightarrow> int64 \<Rightarrow> 's \<Rightarrow> 's \<Rightarrow> bool"
  for repo :: "'s taskRepository" and room :: "'s \<Rightarrow> bool" and owner :: int64 and s0 :: 's where
  others_refl: "othersRun repo room owner s0 s0"
| others_step: "othersRun repo room owner s0 s \<Longrightarrow> room s \<Longrightarrow> taskStep repo uid role s s' \<Longrightarrow>
     uid \<noteq> owner \<Longrightarrow> role \<noteq> ''admin'' \<Longrightarrow> othersRun repo room owner s0 s'"

locale task_repo =
  fixes repo :: "'s taskRepository"
    and tasksOf :: "'s \<Rightarrow> int64 \<Rightarrow> task option"
    and ok :: "'s \<Rightarrow> bool"
    and room :: "'s \<Rightarrow> bool"
    and stamp :: "time \<Rightarrow> time"
  assumes list_spec: "ok s \<Longrightarrow> repo_List repo s = (res, s') \<Longrightarrow>
      ok s' \<and> tasksOf s' = tasksOf s \<and>
      (\<forall>ts. res = Inr ts \<longrightarrow> sorted_wrt (\<lambda>a b. task_ID a < task_ID b) ts \<and> set ts = ran (tasksOf s))"
    and get_spec: "ok s \<Longrightarrow> repo_Get repo i s = (gres, s') \<Longrightarrow>
      ok s' \<and> tasksOf s' = tasksOf s \<and> (gres = Inl ErrTaskNotFound \<longrightarrow> tasksOf s i = None) \<and>
      (\<forall>t. gres = Inr t \<longrightarrow> tasksOf s i = Some t)"
    and create_spec: "ok s \<Longrightarrow> repo_Create repo inp ts s = (cres, s') \<Longrightarrow>
      (room s \<longrightarrow> ok s') \<and> (\<forall>e. cres = Inl e \<longrightarrow> tasksOf s' = tasksOf s) \<and>
      (\<forall>t. cres = Inr t \<longrightarrow> tasksOf s (task_ID t) = None \<and> t = newTask (task_ID t) inp (stamp ts) \<and>
         tasksOf s' = (tasksOf s)(task_ID t \<mapsto> t))"
    and update_spec: "ok s \<Longrightarrow> repo_Update repo i inp ts s = (ures, s') \<Longrightarrow>
      ok s' \<and> (\<forall>e. ures = Inl e \<longrightarrow> tasksOf s' = tasksOf s) \<and>
      (\<forall>t. ures = Inr t \<longrightarrow> (\<exists>t0. tasksOf s i = Some t0 \<and> t = applyTaskInput inp (stamp ts) t0 \<and>
         tasksOf s' = (tasksOf s)(i \<mapsto> t)))"
    and delete_spec: "ok s \<Longrightarrow> repo_Delete repo i s = (dres, s') \<Longrightarrow>
      ok s' \<and> (\<forall>e. dres = Inl e \<longrightarrow> tasksOf s' = tasksOf s) \<and>
      (dres = Inr () \<longrightarrow> tasksOf s i \<noteq> None \<and> tasksOf s' = (tasksOf s)(i := None))"
begin

text \<open>The effect of one request: which tasks may differ afterwards, and who owns them.\<close>

definition authorized :: "int64 \<Rightarrow> string \<Rightarrow> 's \<Rightarrow> 's \<Rightarrow> bool" where
  "authorized uid role s s' \<longleftrightarrow> (\<forall>i. tasksOf s' i = tasksOf s i \<or>
     ((\<forall>t. tasksOf s i = Some t \<longrightarrow> canAccess uid role t) \<and>
      (\<forall>t. tasksOf s' i = Some t \<longrightarrow> canAccess uid role t)))"

lemma authorized_same: "tasksOf s' = tasksOf s \<Longrightarrow> authorized uid role s s'"
  by (simp add: authorized_def)

lemma create_authorized:
  assumes "ok s" and p: "authPrincipalFromContext (req_ctx r) = Some (uid, role)"
  shows "authorized uid role s (snd (createTask repo now body s r))
     \<and> (room s \<longrightarrow> ok (snd (createTask repo now body s r)))"
proof (cases "decodeJSONBody body")
  case (Inl e)
  with assms show ?thesis by (simp add: createTask_def authorized_same)
next
  case (Inr inp0)
  define inp where "inp = inp0\<lparr>ti_Title := trimSpace (ti_Title inp0), ti_OwnerUserID := uid\<rparr>"
  have inp_owner: "ti_OwnerUserID inp = uid" by (simp add: inp_def)
  obtain cres s' where c: "repo_Create repo inp now s = (cres, s')" by fastforce
  note spec = create_spec [OF \<open>ok s\<close> c]
  show ?thesis
  proof (cases "validateTaskInput inp = []")
    case False
    with Inr assms show ?thesis by (simp add: createTask_def Let_def authorized_same flip: inp_def)
  next
    case True
    then have res: "snd (createTask repo now body s r) = s'"
      using Inr p c by (simp add: createTask_def Let_def flip: inp_def split: sum.splits)
    show ?thesis
    proof (cases cres)
      case (Inl e)
      with spec res show ?thesis by (simp add: authorized_same)
    next
      case (Inr t)
      then have "t = newTask (task_ID t) inp (stamp now)" using spec by blast
      then have "task_OwnerUserID t = uid" by (metis newTask_owner inp_owner)
      with Inr spec res show ?thesis by (auto simp: authorized_def canAccess_def)
    qed
  qed
qed

lemma update_authorized:
  assumes "ok s" and p: "authPrincipalFromContext (req_ctx r) = Some (uid, role)"
  shows "authorized uid role s (snd (updateTask repo now body s r))
     \<and> ok (snd (updateTask repo now body s r))"
proof -
  have final: "authorized uid role s s2 \<and> ok s2"
    if "repo_Get repo i s = (Inr cur, s1)" "canAccess uid role cur"
      "repo_Update repo i inp now s1 = (ures, s2)" for i cur s1 inp ures s2
  proof -
    have g: "ok s1" "tasksOf s1 = tasksOf s" "tasksOf s i = Some cur"
      using get_spec [OF \<open>ok s\<close> that(1)] by auto
    show ?thesis
      using update_spec [OF g(1) that(3)] g that(2)
      by (cases ures) (auto simp: authorized_def canAccess_def)
  qed
  have same: "authorized uid role s s1 \<and> ok s1" if "repo_Get repo i s = (gres, s1)" for i gres s1
    using get_spec [OF \<open>ok s\<close> that] by (auto simp: authorized_same)
  show ?thesis
    using assms by (auto simp: updateTask_def Let_def authorized_same final same
        split: sum.splits prod.splits)
qed

lemma delete_authorized:
  assumes "ok s" and p: "authPrincipalFromContext (req_ctx r) = Some (uid, role)"
  shows "authorized uid role s (snd (deleteTask repo s r)) \<and> ok (snd (deleteTask repo s r))"
proof -
  have final: "authorized uid role s s2 \<and> ok s2"
    if "repo_Get repo i s = (Inr cur, s1)" "canAccess uid role cur"
      "repo_Delete repo i s1 = (dres, s2)" for i cur s1 dres s2
  proof -
    have g: "ok s1" "tasksOf s1 = tasksOf s" "tasksOf s i = Some cur"
      using get_spec [OF \<open>ok s\<close> that(1)] by auto
    show ?thesis
      using delete_spec [OF g(1) that(3)] g that(2)
      by (cases dres) (auto simp: authorized_def canAccess_def)
  qed
  have same: "authorized uid role s s1 \<and> ok s1" if "repo_Get repo i s = (gres, s1)" for i gres s1
    using get_spec [OF \<open>ok s\<close> that] by (auto simp: authorized_same)
  show ?thesis
    using assms by (auto simp: deleteTask_def authorized_same final same
        split: sum.splits prod.splits)
qed

lemma list_unchanged:
  assumes "ok s"
  shows "tasksOf (snd (listTasks repo s r)) = tasksOf s \<and> ok (snd (listTasks repo s r))"
  using assms list_spec by (auto simp: listTasks_def split: sum.splits prod.splits option.splits)

lemma get_unchanged:
  assumes "ok s"
  shows "tasksOf (snd (getTask repo s r)) = tasksOf s \<and> ok (snd (getTask repo s r))"
  using assms get_spec by (auto simp: getTask_def split: sum.splits prod.splits option.splits)

lemma taskStep_authorized:
  assumes "taskStep repo uid role s s'" and "ok s"
  shows "authorized uid role s s' \<and> (room s \<longrightarrow> ok s')"
  using assms(1)
  by (cases rule: taskStep.cases)
    (use assms(2) create_authorized update_authorized delete_authorized list_unchanged get_unchanged
      in \<open>auto simp: authorized_same\<close>)

lemma othersRun_keeps:
  assumes "othersRun repo room owner s0 s" and "ok s0"
    and "tasksOf s0 i = Some t" and "task_OwnerUserID t = owner"
  shows "ok s \<and> tasksOf s i = Some t"
  using assms(1)
proof (induction rule: othersRun.induct)
  case others_refl
  with assms show ?case by simp
next
  case (others_step s uid role s')
  have "authorized uid role s s'" "ok s'"
    using taskStep_authorized others_step by blast+
  with others_step assms(4) show ?case
    unfolding authorized_def canAccess_def by metis
qed

lemma get_reveals:
  assumes "ok s" and p: "authPrincipalFromContext (req_ctx r) = Some (uid, role)"
    and "responseData (fst (getTask repo s r)) = Some (TaskOne x)"
  shows "\<exists>i t. tasksOf s i = Some t \<and> canAccess uid role t \<and> x = toTaskResponse t"
  using assms get_spec [OF \<open>ok s\<close>]
  by (auto simp: getTask_def parseTaskID_def respondTaskRepositoryError_def resp_defs responseData_def
      split: sum.splits prod.splits option.splits if_splits taskError.splits) blast

lemma list_reveals:
  assumes "ok s" and p: "authPrincipalFromContext (req_ctx r) = Some (uid, role)"
    and d: "responseData (fst (listTasks repo s r)) = Some (TaskList xs)"
  shows "\<exists>ts. xs = map toTaskResponse ts \<and> sorted_wrt (\<lambda>a b. task_ID a < task_ID b) ts
     \<and> set ts = {t \<in> ran (tasksOf s). canAccess uid role t}"
proof -
  obtain res s' where l: "repo_List repo s = (res, s')" by fastforce
  with p d obtain ts where ts: "res = Inr ts" "xs = map toTaskResponse (filter (canAccess uid role) ts)"
    by (auto simp: listTasks_def split: sum.splits)
  with list_spec [OF \<open>ok s\<close> l] show ?thesis
    by (intro exI [of _ "filter (canAccess uid role) ts"]) (auto simp: sorted_wrt_filter)
qed

end

section \<open>The in-memory repository meets the contract\<close>

definition memTaskInv :: "memoryTaskRepository \<Rightarrow> bool" where
  [inv_defs]: "memTaskInv s \<longleftrightarrow> distinct (mkeys (mt_tasks s)) \<and> 1 \<le> mt_nextID s \<and> in64 (mt_nextID s) \<and>
     (\<forall>i t. map_of (mt_tasks s) i = Some t \<longrightarrow> task_ID t = i \<and> 1 \<le> i \<and> i < mt_nextID s)"

definition memTaskRoom :: "memoryTaskRepository \<Rightarrow> bool" where
  "memTaskRoom s \<longleftrightarrow> mt_nextID s < maxInt64"

lemma memTaskInv_new: "memTaskInv newMemoryTaskRepository"
  by (simp add: memTaskInv_def newMemoryTaskRepository_def)

lemma sorted_by_ID:
  assumes "inj_on task_ID (set ts)" and "distinct ts"
  shows "sorted_wrt (\<lambda>a b. task_ID a < task_ID b) (sortFunc compareTaskByID ts)"
proof -
  have "sortFunc compareTaskByID ts = sort_key task_ID ts"
    by (rule sortFunc_sort_key) (auto simp: compareTaskByID_def)
  moreover have "sorted_wrt (<) (map task_ID (sort_key task_ID ts))"
    using assms by (simp add: strict_sorted_iff distinct_map)
  ultimately show ?thesis by (simp add: sorted_wrt_map)
qed

lemma memTask_vals:
  assumes "memTaskInv s"
  shows "inj_on task_ID (set (mvals (mt_tasks s)))" and "distinct (mvals (mt_tasks s))"
    and "set (mvals (mt_tasks s)) = ran (map_of (mt_tasks s))"
proof -
  have d: "distinct (mkeys (mt_tasks s))" using assms by (simp add: memTaskInv_def)
  have id: "task_ID t = i" if "(i, t) \<in> set (mt_tasks s)" for i t
    using assms that d by (auto simp: memTaskInv_def map_of_eq_Some_iff)
  then have eq: "map task_ID (mvals (mt_tasks s)) = mkeys (mt_tasks s)"
    by (auto simp: comp_def intro!: map_cong)
  then show "inj_on task_ID (set (mvals (mt_tasks s)))" and "distinct (mvals (mt_tasks s))"
    using d by (metis distinct_map)+
  show "set (mvals (mt_tasks s)) = ran (map_of (mt_tasks s))"
    using mvals_set_iff [OF d] by (auto simp: ran_def)
qed

interpretation memTasks: task_repo memoryTaskRepo "\<lambda>s. map_of (mt_tasks s)" memTaskInv memTaskRoom id
proof (unfold_locales, goal_cases)
  case (1 s res s')
  then show ?case
    using memTask_vals [OF 1(1)] by (auto simp: memTask_defs sorted_by_ID)
next
  case (2 s i gres s')
  then show ?case by (auto simp: memTask_defs split: option.splits)
next
  case (3 s inp ts cres s')
  have fresh: "map_of (mt_tasks s) (mt_nextID s) = None"
    using 3(1) by (cases "map_of (mt_tasks s) (mt_nextID s)") (auto simp: memTaskInv_def)
  with 3 show ?case
    by (auto simp: memTask_defs memTaskInv_def memTaskRoom_def in64_succ distinct_mput Let_def
        fun_eq_iff split: if_splits) fastforce+
next
  case (4 s i inp ts ures s')
  then show ?case
    by (auto simp: memTask_defs memTaskInv_def distinct_mput Let_def fun_eq_iff
        split: option.splits if_splits)
next
  case (5 s i dres s')
  then show ?case
    by (auto simp: memTask_defs memTaskInv_def distinct_mdel fun_eq_iff split: option.splits if_splits)
qed

section \<open>Properties of the tasks API on the in-memory repository\<close>

text \<open>
  C27: tasks are isolated between users. Starting from a consistent repository, no sequence of
  list, create, get, update and delete requests by users who are neither the owner of a task nor
  an admin changes or removes that task, in any interleaving.
\<close>

theorem task_isolation:
  assumes "othersRun memoryTaskRepo memTaskRoom owner s0 s" and "memTaskInv s0"
    and "map_of (mt_tasks s0) i = Some t" and "task_OwnerUserID t = owner"
  shows "map_of (mt_tasks s) i = Some t"
  using memTasks.othersRun_keeps [OF assms] by blast

text \<open>
  A listing shows an ordinary user exactly the tasks he owns, an admin all tasks, in
  ascending order of id.
\<close>

theorem list_tasks_exact:
  assumes "memTaskInv s" and "authPrincipalFromContext (req_ctx r) = Some (uid, role)"
  shows "\<exists>ts. listTasks memoryTaskRepo s r = (respondJSON r 200 (TaskList (map toTaskResponse ts)), s)
     \<and> sorted_wrt (\<lambda>a b. task_ID a < task_ID b) ts
     \<and> set ts = {t. (\<exists>i. map_of (mt_tasks s) i = Some t) \<and> (role = ''admin'' \<or> task_OwnerUserID t = uid)}"
proof -
  let ?ts = "filter (canAccess uid role) (sortFunc compareTaskByID (mvals (mt_tasks s)))"
  have l: "listTasks memoryTaskRepo s r = (respondJSON r 200 (TaskList (map toTaskResponse ?ts)), s)"
    using assms(2) by (simp add: listTasks_def memTask_defs)
  moreover have "sorted_wrt (\<lambda>a b. task_ID a < task_ID b) ?ts"
    using memTask_vals [OF assms(1)] by (simp add: sorted_wrt_filter sorted_by_ID)
  moreover have "set ?ts = {t. (\<exists>i. map_of (mt_tasks s) i = Some t) \<and> canAccess uid role t}"
    using memTask_vals(3) [OF assms(1)] by (auto simp: ran_def)
  ultimately show ?thesis unfolding canAccess_def by blast
qed

lemma createTask_ok:
  assumes "responseData (fst (createTask memoryTaskRepo now body s r)) = Some (TaskOne x)"
  obtains uid role inp where "authPrincipalFromContext (req_ctx r) = Some (uid, role)"
    and "ti_OwnerUserID inp = uid" and "x = toTaskResponse (newTask (mt_nextID s) inp now)"
    and "snd (createTask memoryTaskRepo now body s r) = snd (memTask_Create inp now s)"
proof -
  from assms obtain uid role inp0 where p: "authPrincipalFromContext (req_ctx r) = Some (uid, role)"
    and b: "decodeJSONBody body = Inr inp0"
    by (auto simp: createTask_def resp_defs responseData_def split: option.splits sum.splits)
  define inp where "inp = inp0\<lparr>ti_Title := trimSpace (ti_Title inp0), ti_OwnerUserID := uid\<rparr>"
  have v: "validateTaskInput inp = []"
    using assms p b
    by (auto simp: createTask_def Let_def resp_defs responseData_def inp_def split: if_splits)
  have "createTask memoryTaskRepo now body s r
      = (respondJSON r 201 (TaskOne (toTaskResponse (newTask (mt_nextID s) inp now))), snd (memTask_Create inp now s))"
    using p b v by (simp add: createTask_def Let_def memTask_defs flip: inp_def)
  with assms p show ?thesis by (intro that [of uid role inp]) (auto simp: inp_def)
qed

text \<open>
  What is created can be read back. When a create request is answered with a task, a get
  request for that id by the same user returns the same task with status 200.
\<close>

theorem create_then_get:
  assumes "memTaskInv s" and "createTask memoryTaskRepo now body s r = (res, s')"
    and "responseData res = Some (TaskOne x)"
    and "authPrincipalFromContext (req_ctx r) = Some (uid, role)"
    and "authPrincipalFromContext (req_ctx r') = Some (uid, role')"
    and "lookupStr (req_PathValue r') ''id'' = fmtD (tr_ID x)"
  shows "getTask memoryTaskRepo s' r' = (respondJSON r' 200 (TaskOne x), s')"
proof -
  obtain inp where inp: "ti_OwnerUserID inp = uid" "x = toTaskResponse (newTask (mt_nextID s) inp now)"
    "s' = snd (memTask_Create inp now s)"
    using createTask_ok [of now body s r x] assms(2-4) by auto
  have i: "tr_ID x = mt_nextID s" by (simp add: inp toTaskResponse_def)
  then have "parseTaskID r' = Inr (mt_nextID s)"
    using assms(1,6) by (simp add: parseTaskID_def parseInt_fmtD memTaskInv_def)
  moreover have "map_of (mt_tasks s') (mt_nextID s) = Some (newTask (mt_nextID s) inp now)"
    by (simp add: inp(3) memTask_Create_def Let_def)
  ultimately show ?thesis
    using assms(5) inp by (simp add: getTask_def memTask_defs canAccess_def)
qed

text \<open>A user with id 1 and his first task; user 2 tries to delete it.\<close>

definition demoPrincipal :: "int64 \<Rightarrow> string \<Rightarrow> request" where
  "demoPrincipal uid role = demoRequest\<lparr>req_PathValue := [(''id'', ''1'')],
     req_ctx := withAuthPrincipal backgroundContext uid role\<rparr>"

definition demoTaskInput :: taskInput where
  "demoTaskInput = \<lparr>ti_OwnerUserID = 0, ti_Title = '' milk '', ti_Note = '''', ti_Done = False\<rparr>"

definition demoTask :: task where
  "demoTask = newTask 1 \<lparr>ti_OwnerUserID = 1, ti_Title = ''milk'', ti_Note = '''', ti_Done = False\<rparr> 0"

definition demoTasks :: memoryTaskRepository where
  "demoTasks = \<lparr>mt_nextID = 2, mt_tasks = [(1, demoTask)]\<rparr>"

lemma demoTasks_inv: "memTaskInv demoTasks"
  by (simp add: memTaskInv_def demoTasks_def demoTask_def in64_def)

lemma demoTasks_lookup: "map_of (mt_tasks demoTasks) 1 = Some demoTask"
  by (simp add: demoTasks_def)

lemma demoTask_owner: "task_OwnerUserID demoTask = 1"
  by (simp add: demoTask_def)

lemma demoPrincipal_ctx: "role \<noteq> '''' \<Longrightarrow>
    authPrincipalFromContext (req_ctx (demoPrincipal uid role)) = Some (uid, role)"
  by (simp add: demoPrincipal_def authPrincipalFromContext_def authUserIDFromContext_def
      authRoleFromContext_def withAuthPrincipal_def withAuthUserID_def)

lemma demoTask_trim: "trimSpace '' milk '' = ''milk''"
  by code_simp

lemma demoTask_created:
  "createTask memoryTaskRepo 0 (okBody demoTaskInput) newMemoryTaskRepository (demoPrincipal 1 ''user'')
     = (respondJSON (demoPrincipal 1 ''user'') 201 (TaskOne (toTaskResponse demoTask)), demoTasks)"
  by (simp add: createTask_def demoPrincipal_ctx demoTaskInput_def demoTask_trim validateTaskInput_def
      Let_def memTask_defs newMemoryTaskRepository_def demoTasks_def demoTask_def newTask_def in64_def)

theorem task_isolation_witness:
  "let s = snd (deleteTask memoryTaskRepo demoTasks (demoPrincipal 2 ''user''))
   in memTaskInv demoTasks \<and> map_of (mt_tasks s) 1 = Some demoTask"
proof -
  have "othersRun memoryTaskRepo memTaskRoom 1 demoTasks
      (snd (deleteTask memoryTaskRepo demoTasks (demoPrincipal 2 ''user'')))"
    by (rule others_step [OF others_refl _ step_delete [OF demoPrincipal_ctx]])
      (simp_all add: memTaskRoom_def demoTasks_def maxInt64_def)
  from task_isolation [OF this demoTasks_inv, of 1 demoTask] show ?thesis
    by (simp add: demoTasks_inv demoTasks_lookup demoTask_owner)
qed

theorem list_tasks_exact_witness:
  "memTaskInv demoTasks \<and> (\<exists>ts. listTasks memoryTaskRepo demoTasks (demoPrincipal 1 ''user'')
       = (respondJSON (demoPrincipal 1 ''user'') 200 (TaskList (map toTaskResponse ts)), demoTasks)
     \<and> sorted_wrt (\<lambda>a b. task_ID a < task_ID b) ts \<and> set ts = {demoTask})"
proof -
  have "{t. (\<exists>i. map_of (mt_tasks demoTasks) i = Some t) \<and> (''user'' = ''admin'' \<or> task_OwnerUserID t = 1)}
      = {demoTask}"
    by (auto simp: demoTasks_def demoTask_def split: if_splits)
  with list_tasks_exact [OF demoTasks_inv demoPrincipal_ctx [of "''user''" 1]] demoTasks_inv
  show ?thesis by simp
qed

theorem create_then_get_witness:
  "getTask memoryTaskRepo demoTasks (demoPrincipal 1 ''user'')
     = (respondJSON (demoPrincipal 1 ''user'') 200 (TaskOne (toTaskResponse demoTask)), demoTasks)"
proof (rule create_then_get [OF memTaskInv_new demoTask_created])
  have "fmtD 1 = ''1''" by code_simp
  then show "lookupStr (req_PathValue (demoPrincipal 1 ''user'')) ''id'' = fmtD (tr_ID (toTaskResponse demoTask))"
    by (simp add: demoPrincipal_def lookupStr_def toTaskResponse_def demoTask_def)
qed (simp_all add: demoPrincipal_ctx)

end
