(* ===== verification/Files.thy ===== *)
theory Files
  imports Tasks
begin

text \<open>
  File uploads of \<open>internal/httpapp/files.go\<close>: the metadata repository, the disk and S3 blob
  storages, the upload and metadata handlers and the choice of the storage from the environment.

  A multipart request is what the multipart reader yields: its parts with form name, file name
  (\<open>FileName()\<close>, already reduced to its base name by the library), content type and body, and how
  the sequence of parts ends. A body is the bytes that can be read and an error that may follow
  them. The file system is a map from cleaned paths to contents, with the outcomes of \<open>MkdirAll\<close>
  and \<open>Create\<close> given by the environment. SHA-256, the Unicode tables and the S3 uploader are
  parameters. The upload hook runs in its own goroutine and its result is only logged; the server
  is built with the hook that does nothing.
\<close>

section \<open>Data\<close>

record fileRecord =
  fr_ID :: int64
  fr_OwnerUserID :: int64
  fr_FileName :: string
  fr_ContentType :: string
  fr_SizeBytes :: int64
  fr_SHA256 :: string
  fr_StorageProvider :: string
  fr_StorageKey :: string
  fr_CreatedAt :: time

record createFileInput =
  cf_OwnerUserID :: int64
  cf_FileName :: string
  cf_ContentType :: string
  cf_SizeBytes :: int64
  cf_SHA256 :: string
  cf_StorageProvider :: string
  cf_StorageKey :: string

record fileUploadResponse =
  fu_ID :: int64
  fu_FileName :: string
  fu_ContentType :: string
  fu_SizeBytes :: int64
  fu_SHA256 :: string
  fu_StorageProvider :: string
  fu_StorageKey :: string
  fu_CreatedAt :: string

datatype fileError = ErrFileNotFound | FileRepoError string

record 's fileRepository =
  fr_CreateFile :: "createFileInput \<Rightarrow> time \<Rightarrow> 's \<Rightarrow> (fileError + fileRecord) \<times> 's"
  fr_GetFile :: "int64 \<Rightarrow> 's \<Rightarrow> (fileError + fileRecord) \<times> 's"

record bodyReader =
  br_content :: string
  br_err :: "string option"

record filePart =
  fp_FormName :: string
  fp_FileName :: string
  fp_ContentType :: string
  fp_body :: bodyReader

datatype multipartForm = NotMultipart | Parts "filePart list" "string option"

record fileEnv =
  fe_sha256 :: "string \<Rightarrow> nat list"
  fe_uniLower :: "string \<Rightarrow> string"
  fe_mkdirAll :: "string \<Rightarrow> string option"
  fe_create :: "string \<Rightarrow> string option"
  fe_s3Upload :: "string \<Rightarrow> string \<Rightarrow> bodyReader \<Rightarrow> string \<Rightarrow> nat \<times> string option"

text \<open>
  \<open>Put\<close> also reports the bytes it read from the body: the handler hashes what passes through its
  tee reader.
\<close>

record 'b blobStorage =
  bs_Provider :: string
  bs_Put :: "string \<Rightarrow> bodyReader \<Rightarrow> string \<Rightarrow> 'b \<Rightarrow> (string + string \<times> int64) \<times> string \<times> 'b"

section \<open>Metadata repository\<close>

record memoryFileRepository =
  mf_seq :: int64
  mf_items :: "(int64, fileRecord) gomap"

definition newMemoryFileRepository :: memoryFileRepository where
  "newMemoryFileRepository = \<lparr>mf_seq = 0, mf_items = []\<rparr>"

definition newFileRecord :: "int64 \<Rightarrow> createFileInput \<Rightarrow> time \<Rightarrow> fileRecord" where
  "newFileRecord i inp ts =
     \<lparr>fr_ID = i, fr_OwnerUserID = cf_OwnerUserID inp, fr_FileName = cf_FileName inp,
      fr_ContentType = cf_ContentType inp, fr_SizeBytes = cf_SizeBytes inp, fr_SHA256 = cf_SHA256 inp,
      fr_StorageProvider = cf_StorageProvider inp, fr_StorageKey = cf_StorageKey inp, fr_CreatedAt = ts\<rparr>"

lemma newFileRecord_sel:
  "fr_ID (newFileRecord i inp ts) = i" "fr_OwnerUserID (newFileRecord i inp ts) = cf_OwnerUserID inp"
  "fr_SizeBytes (newFileRecord i inp ts) = cf_SizeBytes inp" "fr_SHA256 (newFileRecord i inp ts) = cf_SHA256 inp"
  "fr_StorageKey (newFileRecord i inp ts) = cf_StorageKey inp"
  by (simp_all add: newFileRecord_def)

definition memFile_Create ::
  "createFileInput \<Rightarrow> time \<Rightarrow> memoryFileRepository \<Rightarrow> (fileError + fileRecord) \<times> memoryFileRepository" where
  "memFile_Create inp ts s =
     (let seq = wrap64 (mf_seq s + 1);
          rec = newFileRecord seq inp ts
      in (Inr rec, s\<lparr>mf_seq := seq, mf_items := mput (fr_ID rec) rec (mf_items s)\<rparr>))"

definition memFile_Get ::
  "int64 \<Rightarrow> memoryFileRepository \<Rightarrow> (fileError + fileRecord) \<times> memoryFileRepository" where
  "memFile_Get i s = (case map_of (mf_items s) i of
       None \<Rightarrow> (Inl ErrFileNotFound, s) | Some rec \<Rightarrow> (Inr rec, s))"

definition memoryFileRepo :: "memoryFileRepository fileRepository" where
  "memoryFileRepo = \<lparr>fr_CreateFile = memFile_Create, fr_GetFile = memFile_Get\<rparr>"

lemmas memFile_defs [repo_defs] = memoryFileRepo_def memFile_Create_def memFile_Get_def

section \<open>Paths\<close>

text \<open>
  \<open>filepath.Clean\<close> and \<open>filepath.Join\<close> of two elements on Unix, by components: empty and dot
  components vanish, a dot-dot component removes its predecessor or, in a relative path with
  nothing to remove, stays. \<open>st\<close> is the stack of components, innermost first.
\<close>

fun splitOn :: "char \<Rightarrow> string \<Rightarrow> string list" where
  "splitOn c [] = [[]]"
| "splitOn c (x # xs) = (if x = c then [] # splitOn c xs
     else (case splitOn c xs of [] \<Rightarrow> [[x]] | w # ws \<Rightarrow> (x # w) # ws))"

fun joinWith :: "char \<Rightarrow> string list \<Rightarrow> string" where
  "joinWith c [] = []"
| "joinWith c [w] = w"
| "joinWith c (w # v # ws) = w @ c # joinWith c (v # ws)"

fun cleanComps :: "bool \<Rightarrow> string list \<Rightarrow> string list \<Rightarrow> string list" where
  "cleanComps rooted st [] = rev st"
| "cleanComps rooted st (w # ws) =
     (if w = '''' \<or> w = ''.'' then cleanComps rooted st ws
      else if w = ''..'' then
        (case st of
           [] \<Rightarrow> cleanComps rooted (if rooted then [] else [''..'']) ws
         | t # ts \<Rightarrow> if t = ''..'' then cleanComps rooted (''..'' # st) ws else cleanComps rooted ts ws)
      else cleanComps rooted (w # st) ws)"

definition cleanParts :: "string \<Rightarrow> string list" where
  "cleanParts p = cleanComps (prefix ''/'' p) [] (splitOn (CHR ''/'') p)"

definition cleanPath :: "string \<Rightarrow> string" where
  "cleanPath p =
     (let body = joinWith (CHR ''/'') (cleanParts p)
      in if prefix ''/'' p then CHR ''/'' # body else if body = '''' then ''.'' else body)"

definition joinPath :: "string \<Rightarrow> string \<Rightarrow> string" where
  "joinPath a b = (if a = '''' then (if b = '''' then '''' else cleanPath b)
     else if b = '''' then cleanPath a else cleanPath (a @ CHR ''/'' # b))"

definition dirPath :: "string \<Rightarrow> string" where
  "dirPath p = cleanPath (rev (dropWhile (\<lambda>c. c \<noteq> CHR ''/'') (rev p)))"

text \<open>\<open>filepath.Ext\<close>: the suffix from the last dot of the last element.\<close>

definition extOf :: "string \<Rightarrow> string" where
  "extOf p =
     (let base = rev (takeWhile (\<lambda>c. c \<noteq> CHR ''/'') (rev p))
      in if CHR ''.'' \<in> set base
         then CHR ''.'' # rev (takeWhile (\<lambda>c. c \<noteq> CHR ''.'') (rev base)) else '''')"

section \<open>Blob storage\<close>

type_synonym disk = "(string, string) gomap"

definition readOutcome :: "bodyReader \<Rightarrow> string + int64" where
  "readOutcome b = (case br_err b of
       None \<Rightarrow> Inr (int (length (br_content b))) | Some e \<Rightarrow> Inl e)"

definition diskPut :: "fileEnv \<Rightarrow> string \<Rightarrow> string \<Rightarrow> bodyReader \<Rightarrow> string \<Rightarrow> disk
     \<Rightarrow> (string + string \<times> int64) \<times> string \<times> disk" where
  "diskPut env rootDir key body ct d =
     (if trimSpace key = '''' then (Inl ''key is required'', '''', d)
      else let path = joinPath rootDir key
           in (case fe_mkdirAll env (dirPath path) of
                 Some e \<Rightarrow> (Inl (''mkdir upload dir: '' @ e), '''', d)
               | None \<Rightarrow> (case fe_create env path of
                     Some e \<Rightarrow> (Inl (''create upload file: '' @ e), '''', d)
                   | None \<Rightarrow>
                       let d' = mput path (br_content body) d
                       in (case readOutcome body of
                             Inl e \<Rightarrow> (Inl (''write upload file: '' @ e), br_content body, d')
                           | Inr n \<Rightarrow> (Inr (key, n), br_content body, d')))))"

definition diskBlobStorage :: "fileEnv \<Rightarrow> string \<Rightarrow> disk blobStorage" where
  "diskBlobStorage env rootDir = \<lparr>bs_Provider = ''disk'', bs_Put = diskPut env rootDir\<rparr>"

text \<open>
  \<open>countingWriter\<close> counts the chunks written to it. The S3 uploader is a parameter that reads some
  prefix of the body and reports success or an error; the remote bucket is not modelled.
\<close>

definition countingWrite :: "int64 \<Rightarrow> string \<Rightarrow> int64" where
  "countingWrite n p = wrap64 (n + int (length p))"

definition s3Put :: "fileEnv \<Rightarrow> string \<Rightarrow> string \<Rightarrow> bodyReader \<Rightarrow> string \<Rightarrow> 'b
     \<Rightarrow> (string + string \<times> int64) \<times> string \<times> 'b" where
  "s3Put env bucket key body ct b =
     (if trimSpace bucket = '''' then (Inl ''s3 bucket is required'', '''', b)
      else let (n, err) = fe_s3Upload env bucket key body ct;
               seen = take n (br_content body)
           in (case err of
                 Some e \<Rightarrow> (Inl (''upload object to s3: '' @ e), seen, b)
               | None \<Rightarrow> (Inr (key, countingWrite 0 seen), seen, b)))"

definition s3BlobStorage :: "fileEnv \<Rightarrow> string \<Rightarrow> 'b blobStorage" where
  "s3BlobStorage env bucket = \<lparr>bs_Provider = ''s3'', bs_Put = s3Put env bucket\<rparr>"

record storageEnv =
  sv_driver :: string
  sv_dir :: string
  sv_s3Bucket :: string
  sv_awsConfig :: "string option"

definition newBlobStorageFromEnv :: "fileEnv \<Rightarrow> storageEnv \<Rightarrow> disk blobStorage" where
  "newBlobStorageFromEnv env sv =
     (let driver = toLower (fe_uniLower env) (trimSpace (sv_driver sv))
      in if driver = '''' \<or> driver = ''disk'' then diskBlobStorage env (sv_dir sv)
         else if driver \<noteq> ''s3'' then diskBlobStorage env (sv_dir sv)
         else if sv_awsConfig sv \<noteq> None then diskBlobStorage env (sv_dir sv)
         else s3BlobStorage env (sv_s3Bucket sv))"

definition getenv :: "(string, string) gomap \<Rightarrow> string \<Rightarrow> string \<Rightarrow> string" where
  "getenv environ key fallback =
     (let v = trimSpace (lookupStr environ key) in if v \<noteq> '''' then v else fallback)"

section \<open>Handlers\<close>

definition hexByte :: "nat \<Rightarrow> string" where
  "hexByte n = [''0123456789abcdef'' ! (n div 16 mod 16), ''0123456789abcdef'' ! (n mod 16)]"

definition hexEncode :: "nat list \<Rightarrow> string" where
  "hexEncode bs = concat (map hexByte bs)"

definition newStorageKey :: "fileEnv \<Rightarrow> time \<Rightarrow> string + nat list \<Rightarrow> string \<Rightarrow> string + string" where
  "newStorageKey env now rnd fileName = (case rnd of
       Inl e \<Rightarrow> Inl e
     | Inr buf \<Rightarrow>
         let ext = toLower (fe_uniLower env) (extOf fileName)
         in Inr (fmtKeyTime now @ CHR ''/'' # hexEncode buf @ ext))"

definition parseFileID :: "string \<Rightarrow> string + int64" where
  "parseFileID raw = (case parseInt (trimSpace raw) of
       None \<Rightarrow> Inl ''invalid file id''
     | Some i \<Rightarrow> if i \<le> 0 then Inl ''invalid file id'' else Inr i)"

fun readFilePart :: "filePart list \<Rightarrow> string option \<Rightarrow> string + filePart" where
  "readFilePart [] None = Inl ''multipart form must include \"file\" part''"
| "readFilePart [] (Some _) = Inl ''failed to read multipart form''"
| "readFilePart (p # ps) e = (if fp_FormName p = ''file'' then Inr p else readFilePart ps e)"

definition toFileUploadResponse :: "fileRecord \<Rightarrow> fileUploadResponse" where
  "toFileUploadResponse rec =
     \<lparr>fu_ID = fr_ID rec, fu_FileName = fr_FileName rec, fu_ContentType = fr_ContentType rec,
      fu_SizeBytes = fr_SizeBytes rec, fu_SHA256 = fr_SHA256 rec,
      fu_StorageProvider = fr_StorageProvider rec, fu_StorageKey = fr_StorageKey rec,
      fu_CreatedAt = fmtRFC3339 (fr_CreatedAt rec)\<rparr>"

definition badRequest :: "request \<Rightarrow> string \<Rightarrow> 'd response" where
  [resp_defs]: "badRequest r msg = respondErrorJSON r 400 (apiErr ''bad_request'' msg)"

definition internalError :: "request \<Rightarrow> string \<Rightarrow> 'd response" where
  [resp_defs]: "internalError r msg = respondErrorJSON r 500 (apiErr ''internal_error'' msg)"

text \<open>The second half of \<open>upload\<close>, from the content type on.\<close>

definition storeUpload ::
  "fileEnv \<Rightarrow> 's fileRepository \<Rightarrow> 'b blobStorage \<Rightarrow> time \<Rightarrow> int64 \<Rightarrow> filePart \<Rightarrow> string
     \<Rightarrow> ('s \<times> 'b, fileUploadResponse) handler" where
  "storeUpload env repo storage now userID part key st r =
     (let ct0 = trimSpace (fp_ContentType part);
          ct = (if ct0 = '''' then ''application/octet-stream'' else ct0)
      in (case bs_Put storage key (fp_body part) ct (snd st) of
            (Inl _, _, b) \<Rightarrow> (internalError r ''failed to store file'', (fst st, b))
          | (Inr (storedKey, sizeBytes), seen, b) \<Rightarrow>
              (case fr_CreateFile repo
                 \<lparr>cf_OwnerUserID = userID, cf_FileName = fp_FileName part, cf_ContentType = ct,
                  cf_SizeBytes = sizeBytes, cf_SHA256 = hexEncode (fe_sha256 env seen),
                  cf_StorageProvider = bs_Provider storage, cf_StorageKey = storedKey\<rparr> now (fst st) of
                 (Inl _, s) \<Rightarrow> (internalError r ''failed to persist file metadata'', (s, b))
               | (Inr rec, s) \<Rightarrow> (respondJSON r 201 (toFileUploadResponse rec), (s, b)))))"

definition upload ::
  "fileEnv \<Rightarrow> 's fileRepository \<Rightarrow> 'b blobStorage \<Rightarrow> time \<Rightarrow> time \<Rightarrow> string + nat list \<Rightarrow> multipartForm
     \<Rightarrow> ('s \<times> 'b, fileUploadResponse) handler" where
  "upload env repo storage t0 t1 rnd form st r = (case authUserIDFromContext (req_ctx r) of
       None \<Rightarrow> (authRequired r, st)
     | Some userID \<Rightarrow> (case form of
           NotMultipart \<Rightarrow> (badRequest r ''request must be multipart/form-data'', st)
         | Parts ps e \<Rightarrow> (case readFilePart ps e of
               Inl msg \<Rightarrow> (badRequest r msg, st)
             | Inr part \<Rightarrow>
                 if trimSpace (fp_FileName part) = ''''
                 then (badRequest r ''file part must include a filename'', st)
                 else (case newStorageKey env t0 rnd (fp_FileName part) of
                     Inl _ \<Rightarrow> (internalError r ''failed to allocate storage key'', st)
                   | Inr key \<Rightarrow> storeUpload env repo storage t1 userID part key st r))))"

definition getFileMetadata :: "'s fileRepository \<Rightarrow> ('s, fileUploadResponse) handler" where
  "getFileMetadata repo s r = (case authUserIDFromContext (req_ctx r) of
       None \<Rightarrow> (authRequired r, s)
     | Some userID \<Rightarrow> (case parseFileID (lookupStr (req_PathValue r) ''id'') of
           Inl msg \<Rightarrow> (badRequest r msg, s)
         | Inr i \<Rightarrow> (case fr_GetFile repo i s of
               (Inl ErrFileNotFound, s') \<Rightarrow>
                 (respondErrorJSON r 404 (apiErr ''not_found'' ''file not found''), s')
             | (Inl (FileRepoError _), s') \<Rightarrow> (internalError r ''failed to fetch file metadata'', s')
             | (Inr rec, s') \<Rightarrow>
                 if fr_OwnerUserID rec \<noteq> userID
                 then (respondErrorJSON r 403 (apiErr ''forbidden'' ''you do not have access to this file''), s')
                 else (respondJSON r 200 (toFileUploadResponse rec), s'))))"

section \<open>Storage keys stay below the upload directory\<close>

lemma splitOn_nonempty [simp]: "splitOn c s \<noteq> []"
  by (induction s) (auto split: list.splits)

lemma splitOn_plain: "c \<notin> set s \<Longrightarrow> splitOn c s = [s]"
  by (induction s) auto

lemma splitOn_append: "splitOn c (a @ c # b) = splitOn c a @ splitOn c b"
  by (induction a) (auto split: list.splits)

lemma cleanComps_append:
  "cleanComps rooted st (xs @ ys) = cleanComps rooted (rev (cleanComps rooted st xs)) ys"
  by (induction rooted st xs rule: cleanComps.induct) (auto split: list.splits)

lemma pad_set: "c \<in> set (pad w i) \<Longrightarrow> isDigit c \<or> c = CHR ''-''"
  by (auto simp: pad_def split: if_splits dest: fmtPad_set)

lemma fmtKeyTime_shape: "\<exists>a b. fmtKeyTime t = a @ CHR ''T'' # b
    \<and> (\<forall>c \<in> set a \<union> set b. isDigit c \<or> c = CHR ''-'')"
proof -
  obtain y m d where ymd: "civilOfDay (unixSec t div 86400) = (y, m, d)" by (cases "civilOfDay (unixSec t div 86400)")
  show ?thesis
    by (rule exI [of _ "pad 4 y @ pad 2 m @ pad 2 d"])
      (auto simp: fmtKeyTime_def Let_def ymd dest: pad_set intro!: exI)
qed

lemma fmtKeyTime_set: "c \<in> set (fmtKeyTime t) \<Longrightarrow> isDigit c \<or> c = CHR ''-'' \<or> c = CHR ''T''"
  using fmtKeyTime_shape [of t] by auto

lemma fmtKeyTime_T: "CHR ''T'' \<in> set (fmtKeyTime t)"
  using fmtKeyTime_shape [of t] by auto

lemma hexDigits_set: "''0123456789abcdef'' ! (n mod 16) \<in> set ''0123456789abcdef''"
  by (rule nth_mem) simp

lemma hexEncode_set: "c \<in> set (hexEncode bs) \<Longrightarrow> c \<in> set ''0123456789abcdef''"
proof -
  assume "c \<in> set (hexEncode bs)"
  then obtain n where "c = ''0123456789abcdef'' ! (n mod 16)"
    by (auto simp: hexEncode_def hexByte_def simp del: nth_Cons_numeral)
  then show ?thesis using hexDigits_set by metis
qed

lemma extOf_no_slash: "CHR ''/'' \<notin> set (extOf p)"
  by (auto simp: extOf_def Let_def dest!: set_takeWhileD)

text \<open>The Unicode tables map no letter to a slash.\<close>

definition slashFree :: "(string \<Rightarrow> string) \<Rightarrow> bool" where
  "slashFree f \<longleftrightarrow> (\<forall>s. CHR ''/'' \<notin> set s \<longrightarrow> CHR ''/'' \<notin> set (f s))"

lemma asciiLower_slash: "asciiLower c = CHR ''/'' \<Longrightarrow> c = CHR ''/''"
proof -
  assume *: "asciiLower c = CHR ''/''"
  have "byteOf (asciiLower c) = 47" by (simp add: *)
  then have "\<not> (65 \<le> byteOf c \<and> byteOf c \<le> 90)" by (auto simp: asciiLower_def)
  with * show ?thesis by (simp add: asciiLower_def)
qed

lemma toLower_no_slash:
  assumes "slashFree uni" and "CHR ''/'' \<notin> set s"
  shows "CHR ''/'' \<notin> set (toLower uni s)"
proof (cases "isASCII s")
  case True
  have "CHR ''/'' \<notin> set (map asciiLower s)"
    unfolding set_map using assms(2) by (metis imageE asciiLower_slash)
  with True show ?thesis unfolding toLower_def by (simp only: if_True not_False_eq_True)
next
  case False
  with assms show ?thesis unfolding toLower_def slashFree_def by (simp only: if_False) blast
qed

lemma joinWith_two: "joinWith c (xs @ [a, b]) \<noteq> []"
  by (induction c xs rule: joinWith.induct) auto

text \<open>
  C32: uploads cannot escape the upload directory. Whatever file name the client sends, the path
  that the disk storage creates is the cleaned upload directory followed by exactly two plain
  components, neither of them empty, dot or dot-dot.
\<close>

theorem storage_key_confined:
  assumes "newStorageKey env now (Inr buf) fileName = Inr key" and "buf \<noteq> []"
    and "slashFree (fe_uniLower env)" and "rootDir \<noteq> ''''"
  shows "\<exists>dir base. joinPath rootDir key
       = (if prefix ''/'' rootDir then ''/'' else '''') @ joinWith (CHR ''/'') (cleanParts rootDir @ [dir, base])
     \<and> CHR ''/'' \<notin> set dir \<and> CHR ''/'' \<notin> set base
     \<and> dir \<notin> {'''', ''.'', ''..''} \<and> base \<notin> {'''', ''.'', ''..''}"
proof (intro exI conjI)
  let ?dir = "fmtKeyTime now" and ?base = "hexEncode buf @ toLower (fe_uniLower env) (extOf fileName)"
  have key: "key = ?dir @ CHR ''/'' # ?base"
    using assms(1) by (simp add: newStorageKey_def Let_def)
  show dir: "CHR ''/'' \<notin> set ?dir" by (auto dest: fmtKeyTime_set simp: isDigit_def)
  have "CHR ''/'' \<notin> set (hexEncode buf)" by (auto dest: hexEncode_set)
  then show base: "CHR ''/'' \<notin> set ?base"
    using toLower_no_slash [OF assms(3) extOf_no_slash] by simp
  show d: "?dir \<notin> {'''', ''.'', ''..''}" using fmtKeyTime_T [of now] by auto
  obtain c cs where "hexEncode buf = c # cs" using assms(2) by (cases buf) (auto simp: hexEncode_def hexByte_def)
  moreover from this have "c \<noteq> CHR ''.''" using hexEncode_set [of c buf] by auto
  ultimately show b: "?base \<notin> {'''', ''.'', ''..''}" by auto
  have pre: "prefix ''/'' (rootDir @ CHR ''/'' # key) = prefix ''/'' rootDir"
    using assms(4) by (cases rootDir) auto
  have "cleanParts (rootDir @ CHR ''/'' # key) = cleanParts rootDir @ [?dir, ?base]"
    using d b unfolding cleanParts_def pre unfolding key splitOn_append splitOn_plain [OF dir]
      splitOn_plain [OF base] cleanComps_append by simp
  then show "joinPath rootDir key = (if prefix ''/'' rootDir then ''/'' else '''')
      @ joinWith (CHR ''/'') (cleanParts rootDir @ [?dir, ?base])"
    using assms(4) pre by (simp add: joinPath_def cleanPath_def key Let_def joinWith_two)
qed

section \<open>The repository contract\<close>

locale file_repo =
  fixes repo :: "'s fileRepository"
    and filesOf :: "'s \<Rightarrow> int64 \<Rightarrow> fileRecord option"
    and ok :: "'s \<Rightarrow> bool"
    and room :: "'s \<Rightarrow> bool"
    and fits :: "createFileInput \<Rightarrow> bool"
    and stamp :: "time \<Rightarrow> time"
  assumes create_file_spec: "ok s \<Longrightarrow> room s \<Longrightarrow> fits inp \<Longrightarrow> fr_CreateFile repo inp ts s = (res, s') \<Longrightarrow>
      ok s' \<and> (\<forall>e. res = Inl e \<longrightarrow> filesOf s' = filesOf s) \<and>
      (\<forall>rec. res = Inr rec \<longrightarrow> rec = newFileRecord (fr_ID rec) inp (stamp ts) \<and> 0 < fr_ID rec \<and> in64 (fr_ID rec) \<and>
         filesOf s (fr_ID rec) = None \<and> filesOf s' = (filesOf s)(fr_ID rec \<mapsto> rec))"
    and get_file_spec: "ok s \<Longrightarrow> fr_GetFile repo i s = (gres, s') \<Longrightarrow>
      ok s' \<and> filesOf s' = filesOf s \<and> (gres = Inl ErrFileNotFound \<longrightarrow> filesOf s i = None) \<and>
      (\<forall>rec. gres = Inr rec \<longrightarrow> filesOf s i = Some rec)"
begin

lemma storeUpload_stores:
  assumes "ok s" and "room s" and u: "storeUpload env repo storage now uid part key (s, d) r = (res, (s', d'))"
    and x: "responseData res = Some x"
    and fit: "\<forall>inp seen. cf_SHA256 inp = hexEncode (fe_sha256 env seen) \<longrightarrow> fits inp"
  shows "ok s' \<and> (\<exists>rec ct seen. x = toFileUploadResponse rec \<and>
     bs_Put storage key (fp_body part) ct d = (Inr (fr_StorageKey rec, fr_SizeBytes rec), seen, d') \<and>
     fr_SHA256 rec = hexEncode (fe_sha256 env seen) \<and> fr_OwnerUserID rec = uid \<and>
     0 < fr_ID rec \<and> in64 (fr_ID rec) \<and> filesOf s' (fr_ID rec) = Some rec)"
proof -
  define ct where "ct = (if trimSpace (fp_ContentType part) = '''' then ''application/octet-stream''
      else trimSpace (fp_ContentType part))"
  obtain pres seen b where put: "bs_Put storage key (fp_body part) ct d = (pres, seen, b)"
    by (cases "bs_Put storage key (fp_body part) ct d")
  with u x obtain skey n where pres: "pres = Inr (skey, n)"
    by (cases pres) (auto simp: storeUpload_def resp_defs responseData_def Let_def simp flip: ct_def)
  obtain cres s1 where cr: "fr_CreateFile repo
      \<lparr>cf_OwnerUserID = uid, cf_FileName = fp_FileName part, cf_ContentType = ct, cf_SizeBytes = n,
       cf_SHA256 = hexEncode (fe_sha256 env seen), cf_StorageProvider = bs_Provider storage,
       cf_StorageKey = skey\<rparr> now s = (cres, s1)" (is "fr_CreateFile repo ?inp now s = _")
    by fastforce
  with u x put pres obtain rec where rec: "cres = Inr rec" "x = toFileUploadResponse rec" "s' = s1" "d' = b"
    by (cases cres) (auto simp: storeUpload_def resp_defs responseData_def Let_def simp flip: ct_def)
  have spec: "rec = newFileRecord (fr_ID rec) ?inp (stamp now)" "ok s'" "0 < fr_ID rec" "in64 (fr_ID rec)"
      "filesOf s' (fr_ID rec) = Some rec"
    using create_file_spec [OF assms(1,2) _ cr] fit rec by (simp_all add: fit)
  then have "fr_StorageKey rec = skey" "fr_SizeBytes rec = n" "fr_OwnerUserID rec = uid"
      "fr_SHA256 rec = hexEncode (fe_sha256 env seen)"
    by (metis newFileRecord_sel createFileInput.select_convs)+
  with spec(2-) rec put pres show ?thesis by auto
qed

text \<open>A successful upload stores one new record that describes exactly the bytes stored.\<close>

lemma upload_stores:
  assumes "ok s" and "room s"
    and "upload env repo storage t0 t1 rnd form (s, d) r = (res, (s', d'))"
    and "responseData res = Some x"
    and "\<forall>inp seen. cf_SHA256 inp = hexEncode (fe_sha256 env seen) \<longrightarrow> fits inp"
  obtains uid rec key ct seen and part :: filePart where "ok s'" and "authUserIDFromContext (req_ctx r) = Some uid"
    and "newStorageKey env t0 rnd (fp_FileName part) = Inr key" and "x = toFileUploadResponse rec"
    and "bs_Put storage key (fp_body part) ct d = (Inr (fr_StorageKey rec, fr_SizeBytes rec), seen, d')"
    and "fr_SHA256 rec = hexEncode (fe_sha256 env seen)" and "fr_OwnerUserID rec = uid"
    and "0 < fr_ID rec" and "in64 (fr_ID rec)" and "filesOf s' (fr_ID rec) = Some rec"
proof -
  from assms(3,4) obtain uid part key where p: "authUserIDFromContext (req_ctx r) = Some uid"
      "newStorageKey env t0 rnd (fp_FileName part) = Inr key"
    and st: "storeUpload env repo storage t1 uid part key (s, d) r = (res, (s', d'))"
    by (auto simp: upload_def resp_defs responseData_def
        split: option.splits multipartForm.splits sum.splits if_splits)
  obtain rec ct seen where "ok s'" "x = toFileUploadResponse rec"
    "bs_Put storage key (fp_body part) ct d = (Inr (fr_StorageKey rec, fr_SizeBytes rec), seen, d')"
    "fr_SHA256 rec = hexEncode (fe_sha256 env seen)" "fr_OwnerUserID rec = uid"
    "0 < fr_ID rec" "in64 (fr_ID rec)" "filesOf s' (fr_ID rec) = Some rec"
    using storeUpload_stores [OF assms(1,2) st assms(4,5)] by blast
  from that [OF this(1) p this(2-)] show thesis .
qed

lemma get_owned:
  assumes "ok s" and "filesOf s i = Some rec" and "0 < i" and "in64 i"
    and "authUserIDFromContext (req_ctx r) = Some (fr_OwnerUserID rec)"
    and "lookupStr (req_PathValue r) ''id'' = fmtD i"
    and "\<And>e s'. fr_GetFile repo i s \<noteq> (Inl e, s')"
  shows "fst (getFileMetadata repo s r) = respondJSON r 200 (toFileUploadResponse rec)"
proof -
  obtain s' where "fr_GetFile repo i s = (Inr rec, s')"
    using get_file_spec [OF assms(1), of i] assms(2,7)
    by (cases "fr_GetFile repo i s"; cases "fst (fr_GetFile repo i s)") auto
  with assms show ?thesis by (simp add: getFileMetadata_def parseFileID_def parseInt_fmtD)
qed

text \<open>The metadata of a file is shown to its owner only.\<close>

lemma get_reveals_owned:
  assumes "ok s" and "responseData (fst (getFileMetadata repo s r)) = Some x"
  shows "\<exists>i rec. filesOf s i = Some rec \<and> x = toFileUploadResponse rec \<and>
     authUserIDFromContext (req_ctx r) = Some (fr_OwnerUserID rec)"
  using assms get_file_spec [OF assms(1)]
  by (auto simp: getFileMetadata_def resp_defs responseData_def
      split: option.splits sum.splits prod.splits fileError.splits if_splits) blast

end

definition memFileInv :: "memoryFileRepository \<Rightarrow> bool" where
  [inv_defs]: "memFileInv s \<longleftrightarrow> distinct (mkeys (mf_items s)) \<and> 0 \<le> mf_seq s \<and> in64 (mf_seq s) \<and>
     (\<forall>i rec. map_of (mf_items s) i = Some rec \<longrightarrow> fr_ID rec = i \<and> 1 \<le> i \<and> i \<le> mf_seq s)"

definition memFileRoom :: "memoryFileRepository \<Rightarrow> bool" where
  "memFileRoom s \<longleftrightarrow> mf_seq s < maxInt64"

interpretation memFiles: file_repo memoryFileRepo "\<lambda>s. map_of (mf_items s)" memFileInv memFileRoom
  "\<lambda>inp. True" id
proof (unfold_locales, goal_cases)
  case (1 s inp ts res s')
  have next64: "in64 (mf_seq s + 1)"
    using 1(1,2) by (simp add: memFileInv_def memFileRoom_def in64_succ)
  have fresh: "map_of (mf_items s) (mf_seq s + 1) = None"
    using 1(1) by (cases "map_of (mf_items s) (mf_seq s + 1)") (fastforce simp: memFileInv_def)+
  with 1(1,2,4) next64 show ?case
    by (auto simp: memFile_defs memFileInv_def distinct_mput Let_def newFileRecord_def fun_eq_iff
        split: if_splits) fastforce+
next
  case (2 s i gres s')
  then show ?case by (auto simp: memFile_defs split: option.splits)
qed

lemma memFile_reads: "snd (getFileMetadata memoryFileRepo s r) = s"
  by (auto simp: getFileMetadata_def memFile_defs split: sum.splits option.splits)

text \<open>
  An upload reads back. When an upload to the disk storage is answered with a record, the
  disk holds under the record's key a content of exactly the recorded size and SHA-256 sum, and a
  metadata request of the uploader for the new id returns the same record.
\<close>

theorem upload_then_get:
  assumes "memFileInv s" and "mf_seq s < maxInt64"
    and "upload env memoryFileRepo (diskBlobStorage env rootDir) t0 t1 rnd form (s, d) r = (res, (s', d'))"
    and "responseData res = Some x"
    and "authUserIDFromContext (req_ctx q) = authUserIDFromContext (req_ctx r)"
    and "lookupStr (req_PathValue q) ''id'' = fmtD (fu_ID x)"
  shows "getFileMetadata memoryFileRepo s' q = (respondJSON q 200 x, s')
     \<and> (\<exists>content. map_of d' (joinPath rootDir (fu_StorageKey x)) = Some content
         \<and> fu_SizeBytes x = int (length content) \<and> fu_SHA256 x = hexEncode (fe_sha256 env content))"
proof -
  have room: "memFileRoom s" using assms(2) by (simp add: memFileRoom_def)
  obtain uid rec key ct seen and part :: filePart where u: "memFileInv s'" "authUserIDFromContext (req_ctx r) = Some uid"
    "x = toFileUploadResponse rec" "fr_SHA256 rec = hexEncode (fe_sha256 env seen)"
    "fr_OwnerUserID rec = uid" "0 < fr_ID rec" "in64 (fr_ID rec)"
    and put: "bs_Put (diskBlobStorage env rootDir) key (fp_body part) ct d
        = (Inr (fr_StorageKey rec, fr_SizeBytes rec), seen, d')"
    and l: "map_of (mf_items s') (fr_ID rec) = Some rec"
    by (rule memFiles.upload_stores [OF assms(1) room assms(3,4)]) simp
  have no: "fr_GetFile memoryFileRepo (fr_ID rec) s' \<noteq> (Inl e, t)" for e t
    using l by (simp add: memFile_defs)
  have "fst (getFileMetadata memoryFileRepo s' q) = respondJSON q 200 x"
    unfolding u(3) using memFiles.get_owned [OF u(1) l u(6,7) _ _ no] assms(5,6) u
    by (simp add: toFileUploadResponse_def)
  then have "getFileMetadata memoryFileRepo s' q = (respondJSON q 200 x, s')"
    by (simp add: prod_eq_iff memFile_reads)
  moreover have "map_of d' (joinPath rootDir (fu_StorageKey x)) = Some seen \<and> fu_SizeBytes x = int (length seen)"
    using put u(3) by (auto simp: diskBlobStorage_def diskPut_def Let_def readOutcome_def toFileUploadResponse_def
        split: if_splits option.splits)
  ultimately show ?thesis using u(3,4) by (auto simp: toFileUploadResponse_def)
qed

text \<open>User 1 uploads a two-byte file with a hostile name.\<close>

definition demoFileEnv :: fileEnv where
  "demoFileEnv = \<lparr>fe_sha256 = (\<lambda>s. [length s]), fe_uniLower = (\<lambda>s. s), fe_mkdirAll = (\<lambda>p. None),
     fe_create = (\<lambda>p. None), fe_s3Upload = (\<lambda>b k body ct. (length (br_content body), br_err body))\<rparr>"

definition demoForm :: multipartForm where
  "demoForm = Parts [\<lparr>fp_FormName = ''file'', fp_FileName = ''..TXT'', fp_ContentType = '''',
      fp_body = \<lparr>br_content = ''hi'', br_err = None\<rparr>\<rparr>] None"

definition demoFile :: fileRecord where
  "demoFile = \<lparr>fr_ID = 1, fr_OwnerUserID = 1, fr_FileName = ''..TXT'',
     fr_ContentType = ''application/octet-stream'', fr_SizeBytes = 2, fr_SHA256 = ''02'',
     fr_StorageProvider = ''disk'', fr_StorageKey = ''19700101T000000/0a.txt'', fr_CreatedAt = 0\<rparr>"

definition demoFiles :: memoryFileRepository where
  "demoFiles = \<lparr>mf_seq = 1, mf_items = [(1, demoFile)]\<rparr>"

lemma demoKey: "newStorageKey demoFileEnv 0 (Inr [10]) ''..TXT'' = Inr ''19700101T000000/0a.txt''"
  by code_simp

lemma demoFile_trim: "trimSpace ''..TXT'' = ''..TXT''" "trimSpace ''19700101T000000/0a.txt'' \<noteq> ''''"
  by code_simp+

lemma demoFileEnv_sel: "fe_mkdirAll demoFileEnv p = None" "fe_create demoFileEnv p = None"
    "fe_sha256 demoFileEnv s = [length s]"
  by (simp_all add: demoFileEnv_def)

lemma demo_uploaded:
  "upload demoFileEnv memoryFileRepo (diskBlobStorage demoFileEnv ''/up'') 0 0 (Inr [10]) demoForm
     (newMemoryFileRepository, []) (demoPrincipal 1 ''user'')
   = (respondJSON (demoPrincipal 1 ''user'') 201 (toFileUploadResponse demoFile),
      (demoFiles, [(joinPath ''/up'' ''19700101T000000/0a.txt'', ''hi'')]))"
proof -
  have "hexEncode [Suc (Suc 0)] = ''02''" by code_simp
  then show ?thesis
    by (simp add: upload_def storeUpload_def demoPrincipal_def withAuthPrincipal_def withAuthUserID_def
        authUserIDFromContext_def demoForm_def demoKey demoFile_trim diskBlobStorage_def diskPut_def Let_def
        readOutcome_def memFile_defs newMemoryFileRepository_def newFileRecord_def demoFiles_def demoFile_def
        demoFileEnv_sel)
qed

theorem storage_key_confined_witness:
  "\<exists>dir base. joinPath ''/up'' ''19700101T000000/0a.txt''
       = ''/'' @ joinWith (CHR ''/'') (cleanParts ''/up'' @ [dir, base])
     \<and> CHR ''/'' \<notin> set dir \<and> CHR ''/'' \<notin> set base
     \<and> dir \<notin> {'''', ''.'', ''..''} \<and> base \<notin> {'''', ''.'', ''..''}"
proof -
  have "slashFree (fe_uniLower demoFileEnv)" by (simp add: slashFree_def demoFileEnv_def)
  from storage_key_confined [OF demoKey _ this, of "''/up''"] show ?thesis by simp
qed

theorem upload_then_get_witness:
  "getFileMetadata memoryFileRepo demoFiles (demoPrincipal 1 ''user'')
     = (respondJSON (demoPrincipal 1 ''user'') 200 (toFileUploadResponse demoFile), demoFiles)"
proof -
  have "memFileInv newMemoryFileRepository" "mf_seq newMemoryFileRepository < maxInt64"
    by (simp_all add: memFileInv_def newMemoryFileRepository_def maxInt64_def)
  moreover have "lookupStr (req_PathValue (demoPrincipal 1 ''user'')) ''id'' = fmtD (fu_ID (toFileUploadResponse demoFile))"
  proof -
    have "fmtD 1 = ''1''" by code_simp
    then show ?thesis by (simp add: demoPrincipal_def lookupStr_def toFileUploadResponse_def demoFile_def)
  qed
  ultimately show ?thesis using upload_then_get [OF _ _ demo_uploaded] by simp
qed

end
