(* ===== verification/Ecommerce.thy ===== *)
theory Ecommerce
  imports Files
begin

text \<open>
  The shop of \<open>internal/httpapp/ecommerce.go\<close>: products, orders with idempotency keys, the mock
  payment provider, the in-memory repository and the four handlers.

  A payment provider charges an amount and may change the outside world: \<open>Charge\<close> takes and
  returns a state, so that a property can say that nothing is charged twice. Prices, quantities
  and totals are Go \<open>int64\<close> values and wrap around.
\<close>

section \<open>Data\<close>

record product =
  prod_ID :: int64
  prod_Name :: string
  prod_PriceCents :: int64
  prod_StockQty :: int64
  prod_CreatedAt :: time
  prod_UpdatedAt :: time

record orderItem =
  oi_ProductID :: int64
  oi_Quantity :: int64
  oi_UnitPriceCents :: int64
  oi_LineTotalCents :: int64

record orderRec =
  ord_ID :: int64
  ord_UserID :: int64
  ord_Status :: string
  ord_TotalCents :: int64
  ord_IdempotencyKey :: string
  ord_CreatedAt :: time
  ord_UpdatedAt :: time
  ord_Items :: "orderItem list"
  ord_PaymentStatus :: string
  ord_PaymentRef :: string

record paymentResult =
  pay_Status :: string
  pay_Ref :: string
  pay_Message :: string

type_synonym 'p paymentProvider = "int64 \<Rightarrow> string \<Rightarrow> 'p \<Rightarrow> (string + paymentResult) \<times> 'p"

record createProductInput =
  cp_Name :: string
  cp_PriceCents :: int64
  cp_StockQty :: int64

record createOrderItemInput =
  coi_ProductID :: int64
  coi_Quantity :: int64

record createOrderInput =
  co_Items :: "createOrderItemInput list"
  co_PaymentMethod :: string

datatype ecomError = ErrProductNotFound | ErrOrderNotFound | ErrInsufficientStock | ErrInvalidOrder
  | ErrIdempotencyKeyExists | EcomError string

datatype ecomPayload = ProductOne product | ProductList "product list" | OrderOne orderRec

record ('s, 'p) ecommerceRepository =
  er_CreateProduct :: "createProductInput \<Rightarrow> time \<Rightarrow> 's \<Rightarrow> (ecomError + product) \<times> 's"
  er_ListProducts :: "'s \<Rightarrow> (ecomError + product list) \<times> 's"
  er_CreateOrder :: "int64 \<Rightarrow> string \<Rightarrow> createOrderInput \<Rightarrow> 'p paymentProvider \<Rightarrow> time \<Rightarrow> 's \<times> 'p
     \<Rightarrow> (ecomError + orderRec) \<times> 's \<times> 'p"
  er_GetOrder :: "int64 \<Rightarrow> 's \<Rightarrow> (ecomError + orderRec) \<times> 's"

definition mockCharge :: "'p paymentProvider" where
  "mockCharge amountCents method p =
     ((if amountCents \<le> 0 then Inl ''amount must be positive''
       else if equalFold (trimSpace method) ''pm_fail''
       then Inr \<lparr>pay_Status = ''failed'', pay_Ref = ''mock-failed'', pay_Message = ''payment declined''\<rparr>
       else Inr \<lparr>pay_Status = ''paid'', pay_Ref = ''mock-paid'', pay_Message = ''payment captured''\<rparr>), p)"

definition userIDKey :: "int64 \<Rightarrow> string \<Rightarrow> string" where
  "userIDKey userID key = fmtD userID @ ''|'' @ trimSpace key"

section \<open>The in-memory repository\<close>

record memoryEcommerceRepository =
  me_products :: "(int64, product) gomap"
  me_orders :: "(int64, orderRec) gomap"
  me_idemByUserKey :: "(string, int64) gomap"
  me_nextProductID :: int64
  me_nextOrderID :: int64

definition newMemoryEcommerceRepository :: memoryEcommerceRepository where
  "newMemoryEcommerceRepository =
     \<lparr>me_products = [], me_orders = [], me_idemByUserKey = [], me_nextProductID = 1, me_nextOrderID = 1\<rparr>"

text \<open>The zero values that reading an absent key of a Go map yields.\<close>

definition zeroProduct :: product where
  "zeroProduct = \<lparr>prod_ID = 0, prod_Name = '''', prod_PriceCents = 0, prod_StockQty = 0,
     prod_CreatedAt = 0, prod_UpdatedAt = 0\<rparr>"

definition zeroOrder :: orderRec where
  "zeroOrder = \<lparr>ord_ID = 0, ord_UserID = 0, ord_Status = '''', ord_TotalCents = 0, ord_IdempotencyKey = '''',
     ord_CreatedAt = 0, ord_UpdatedAt = 0, ord_Items = [], ord_PaymentStatus = '''', ord_PaymentRef = ''''\<rparr>"

definition mget :: "'v \<Rightarrow> ('k, 'v) gomap \<Rightarrow> 'k \<Rightarrow> 'v" where
  "mget z m k = (case map_of m k of None \<Rightarrow> z | Some v \<Rightarrow> v)"

definition memEcom_CreateProduct ::
  "createProductInput \<Rightarrow> time \<Rightarrow> memoryEcommerceRepository \<Rightarrow> (ecomError + product) \<times> memoryEcommerceRepository" where
  "memEcom_CreateProduct inp ts s =
     (let p = \<lparr>prod_ID = me_nextProductID s, prod_Name = cp_Name inp, prod_PriceCents = cp_PriceCents inp,
            prod_StockQty = cp_StockQty inp, prod_CreatedAt = ts, prod_UpdatedAt = ts\<rparr>
      in (Inr p, s\<lparr>me_products := mput (prod_ID p) p (me_products s),
            me_nextProductID := wrap64 (me_nextProductID s + 1)\<rparr>))"

definition compareProductByID :: "product \<Rightarrow> product \<Rightarrow> int" where
  "compareProductByID a b = wrap64 (prod_ID a - prod_ID b)"

definition memEcom_ListProducts ::
  "memoryEcommerceRepository \<Rightarrow> (ecomError + product list) \<times> memoryEcommerceRepository" where
  "memEcom_ListProducts s = (Inr (sortFunc compareProductByID (mvals (me_products s))), s)"

text \<open>The loop that checks and prices the lines: running total and items so far, or an error.\<close>

fun priceItems ::
  "(int64, product) gomap \<Rightarrow> createOrderItemInput list \<Rightarrow> int64 \<Rightarrow> orderItem list
     \<Rightarrow> ecomError + int64 \<times> orderItem list" where
  "priceItems ps [] tot items = Inr (tot, items)"
| "priceItems ps (it # its) tot items = (case map_of ps (coi_ProductID it) of
       None \<Rightarrow> Inl ErrProductNotFound
     | Some p \<Rightarrow>
         if coi_Quantity it \<le> 0 then Inl ErrInvalidOrder
         else if prod_StockQty p < coi_Quantity it then Inl ErrInsufficientStock
         else let line = wrap64 (prod_PriceCents p * coi_Quantity it)
              in priceItems ps its (wrap64 (tot + line))
                   (items @ [\<lparr>oi_ProductID = prod_ID p, oi_Quantity = coi_Quantity it,
                      oi_UnitPriceCents = prod_PriceCents p, oi_LineTotalCents = line\<rparr>]))"

fun takeStock ::
  "time \<Rightarrow> createOrderItemInput list \<Rightarrow> (int64, product) gomap \<Rightarrow> (int64, product) gomap" where
  "takeStock ts [] ps = ps"
| "takeStock ts (it # its) ps =
     (let p = mget zeroProduct ps (coi_ProductID it);
          p' = p\<lparr>prod_StockQty := wrap64 (prod_StockQty p - coi_Quantity it), prod_UpdatedAt := ts\<rparr>
      in takeStock ts its (mput (coi_ProductID it) p' ps))"

definition memEcom_CreateOrder ::
  "int64 \<Rightarrow> string \<Rightarrow> createOrderInput \<Rightarrow> 'p paymentProvider \<Rightarrow> time \<Rightarrow> memoryEcommerceRepository \<times> 'p
     \<Rightarrow> (ecomError + orderRec) \<times> memoryEcommerceRepository \<times> 'p" where
  "memEcom_CreateOrder userID idempotencyKey inp charge ts sp =
     (let (s, w) = sp; key = userIDKey userID idempotencyKey
      in (case map_of (me_idemByUserKey s) key of
            Some oid \<Rightarrow> (Inr (mget zeroOrder (me_orders s) oid), s, w)
          | None \<Rightarrow> (case priceItems (me_products s) (co_Items inp) 0 [] of
                Inl e \<Rightarrow> (Inl e, s, w)
              | Inr (tot, items) \<Rightarrow> (case charge tot (co_PaymentMethod inp) w of
                    (Inl e, w') \<Rightarrow> (Inl (EcomError e), s, w')
                  | (Inr pay, w') \<Rightarrow>
                      let status = (if pay_Status pay \<noteq> ''paid'' then ''payment_failed'' else ''paid'');
                          o' = \<lparr>ord_ID = me_nextOrderID s, ord_UserID = userID, ord_Status = status,
                                ord_TotalCents = tot, ord_IdempotencyKey = idempotencyKey,
                                ord_CreatedAt = ts, ord_UpdatedAt = ts, ord_Items = items,
                                ord_PaymentStatus = pay_Status pay, ord_PaymentRef = pay_Ref pay\<rparr>;
                          ps = (if status = ''paid'' then takeStock ts (co_Items inp) (me_products s)
                                else me_products s)
                      in (Inr o', s\<lparr>me_products := ps, me_orders := mput (ord_ID o') o' (me_orders s),
                            me_idemByUserKey := mput key (ord_ID o') (me_idemByUserKey s),
                            me_nextOrderID := wrap64 (me_nextOrderID s + 1)\<rparr>, w')))))"

definition memEcom_GetOrder ::
  "int64 \<Rightarrow> memoryEcommerceRepository \<Rightarrow> (ecomError + orderRec) \<times> memoryEcommerceRepository" where
  "memEcom_GetOrder i s = (case map_of (me_orders s) i of
       None \<Rightarrow> (Inl ErrOrderNotFound, s) | Some o' \<Rightarrow> (Inr o', s))"

definition memoryEcomRepo :: "(memoryEcommerceRepository, 'p) ecommerceRepository" where
  "memoryEcomRepo = \<lparr>er_CreateProduct = memEcom_CreateProduct, er_ListProducts = memEcom_ListProducts,
     er_CreateOrder = memEcom_CreateOrder, er_GetOrder = memEcom_GetOrder\<rparr>"

section \<open>Handlers\<close>

definition roleOf :: "request \<Rightarrow> string" where
  "roleOf r = (case authRoleFromContext (req_ctx r) of None \<Rightarrow> '''' | Some x \<Rightarrow> x)"

definition createProduct ::
  "('s, 'p) ecommerceRepository \<Rightarrow> time \<Rightarrow> createProductInput jsonBody \<Rightarrow> ('s, ecomPayload) handler" where
  "createProduct repo now body s r =
     (if roleOf r \<noteq> ''admin''
      then (respondErrorJSON r 403 (apiErr ''forbidden'' ''admin role required''), s)
      else (case decodeJSONBody body of
          Inl _ \<Rightarrow> (respondErrorJSON r 400 invalidJSON, s)
        | Inr inp0 \<Rightarrow>
            let inp = inp0\<lparr>cp_Name := trimSpace (cp_Name inp0)\<rparr>
            in if cp_Name inp = '''' \<or> cp_PriceCents inp \<le> 0 \<or> cp_StockQty inp < 0
               then (respondErrorJSON r 400 (apiErr ''validation_error'' ''invalid product input''), s)
               else (case er_CreateProduct repo inp now s of
                   (Inl _, s') \<Rightarrow> (internalError r ''failed to create product'', s')
                 | (Inr p, s') \<Rightarrow> (respondJSON r 201 (ProductOne p), s'))))"

definition listProducts :: "('s, 'p) ecommerceRepository \<Rightarrow> ('s, ecomPayload) handler" where
  "listProducts repo s r = (case er_ListProducts repo s of
       (Inl _, s') \<Rightarrow> (internalError r ''failed to list products'', s')
     | (Inr items, s') \<Rightarrow> (respondJSON r 200 (ProductList items), s'))"

definition respondOrderError :: "request \<Rightarrow> ecomError \<Rightarrow> ecomPayload response" where
  "respondOrderError r e = (case e of
       ErrProductNotFound \<Rightarrow> respondErrorJSON r 404 (apiErr ''product_not_found'' ''product not found'')
     | ErrInsufficientStock \<Rightarrow> respondErrorJSON r 409 (apiErr ''insufficient_stock'' ''insufficient stock'')
     | ErrInvalidOrder \<Rightarrow> respondErrorJSON r 400 (apiErr ''validation_error'' ''invalid order input'')
     | ErrIdempotencyKeyExists \<Rightarrow>
         respondErrorJSON r 409 (apiErr ''idempotency_conflict'' ''idempotency key conflict'')
     | _ \<Rightarrow> internalError r ''failed to create order'')"

definition createOrder ::
  "('s, 'p) ecommerceRepository \<Rightarrow> 'p paymentProvider \<Rightarrow> time \<Rightarrow> createOrderInput jsonBody
     \<Rightarrow> ('s \<times> 'p, ecomPayload) handler" where
  "createOrder repo charge now body sp r = (case authUserIDFromContext (req_ctx r) of
       None \<Rightarrow> (authRequired r, sp)
     | Some userID \<Rightarrow>
         let idempotencyKey = trimSpace (lookupStr (req_Header r) ''Idempotency-Key'')
         in if idempotencyKey = ''''
            then (respondErrorJSON r 400 (apiErr ''validation_error'' ''Idempotency-Key header is required''), sp)
            else (case decodeJSONBody body of
                Inl _ \<Rightarrow> (respondErrorJSON r 400 invalidJSON, sp)
              | Inr inp \<Rightarrow>
                  if length (co_Items inp) = 0
                  then (respondErrorJSON r 400 (apiErr ''validation_error'' ''order must include at least one item''), sp)
                  else (case er_CreateOrder repo userID idempotencyKey inp charge now sp of
                      (Inl e, sp') \<Rightarrow> (respondOrderError r e, sp')
                    | (Inr o', sp') \<Rightarrow> (respondJSON r 201 (OrderOne o'), sp'))))"

definition getOrder :: "('s, 'p) ecommerceRepository \<Rightarrow> ('s, ecomPayload) handler" where
  "getOrder repo s r = (case authUserIDFromContext (req_ctx r) of
       None \<Rightarrow> (authRequired r, s)
     | Some userID \<Rightarrow> (case parseFileID (lookupStr (req_PathValue r) ''id'') of
           Inl _ \<Rightarrow> (badRequest r ''invalid order id'', s)
         | Inr i \<Rightarrow> (case er_GetOrder repo i s of
               (Inl e, s') \<Rightarrow>
                 (if e = ErrOrderNotFound then respondErrorJSON r 404 (apiErr ''not_found'' ''order not found'')
                  else internalError r ''failed to fetch order'', s')
             | (Inr o', s') \<Rightarrow>
                 if roleOf r \<noteq> ''admin'' \<and> ord_UserID o' \<noteq> userID
                 then (respondErrorJSON r 403 (apiErr ''forbidden'' ''you do not have access to this order''), s')
                 else (respondJSON r 200 (OrderOne o'), s'))))"

lemmas memEcom_defs [repo_defs] = memoryEcomRepo_def memEcom_CreateProduct_def memEcom_ListProducts_def
  memEcom_CreateOrder_def memEcom_GetOrder_def

section \<open>Idempotency keys\<close>

lemma userIDKey_inj: "userIDKey u k = userIDKey u' k' \<longleftrightarrow> u = u' \<and> trimSpace k = trimSpace k'"
proof
  assume "userIDKey u k = userIDKey u' k'"
  then have "fmtD u @ CHR ''|'' # trimSpace k = fmtD u' @ CHR ''|'' # trimSpace k'"
    by (simp add: userIDKey_def)
  from append_sep_inj [OF fmtD_no_bar fmtD_no_bar this] show "u = u' \<and> trimSpace k = trimSpace k'"
    by (auto dest: fmtD_inj)
qed (simp add: userIDKey_def)

section \<open>The repository contract\<close>

text \<open>One request to any of the four endpoints of the shop.\<close>

inductive ecomStep ::
  "('s, 'p) ecommerceRepository \<Rightarrow> 'p paymentProvider \<Rightarrow> ('s \<Rightarrow> bool) \<Rightarrow> 's \<times> 'p \<Rightarrow> 's \<times> 'p \<Rightarrow> bool"
  for repo :: "('s, 'p) ecommerceRepository" and charge :: "'p paymentProvider" and room :: "'s \<Rightarrow> bool" where
  ecom_product: "room s \<Longrightarrow> ecomStep repo charge room (s, w) (snd (createProduct repo now body s r), w)"
| ecom_list: "ecomStep repo charge room (s, w) (snd (listProducts repo s r), w)"
| ecom_order: "room s \<Longrightarrow> ecomStep repo charge room (s, w) (snd (createOrder repo charge now obody (s, w) r))"
| ecom_get: "ecomStep repo charge room (s, w) (snd (getOrder repo s r), w)"

abbreviation ecomRun ::
  "('s, 'p) ecommerceRepository \<Rightarrow> 'p paymentProvider \<Rightarrow> ('s \<Rightarrow> bool) \<Rightarrow> 's \<times> 'p \<Rightarrow> 's \<times> 'p \<Rightarrow> bool" where
  "ecomRun repo charge room \<equiv> (ecomStep repo charge room)\<^sup>*\<^sup>*"

locale ecom_repo =
  fixes repo :: "('s, 'p) ecommerceRepository"
    and ordersOf :: "'s \<Rightarrow> int64 \<Rightarrow> orderRec option"
    and ok :: "'s \<Rightarrow> bool"
    and room :: "'s \<Rightarrow> bool"
  assumes product_spec: "ok s \<Longrightarrow> room s \<Longrightarrow> er_CreateProduct repo pin ts s = (pres, s') \<Longrightarrow>
      ok s' \<and> ordersOf s' = ordersOf s"
    and products_spec: "ok s \<Longrightarrow> er_ListProducts repo s = (lres, s') \<Longrightarrow> ok s' \<and> ordersOf s' = ordersOf s"
    and get_order_spec: "ok s \<Longrightarrow> er_GetOrder repo i s = (gres, s') \<Longrightarrow>
      ok s' \<and> ordersOf s' = ordersOf s \<and> (gres = Inl ErrOrderNotFound \<longrightarrow> ordersOf s i = None) \<and>
      (\<forall>o'. gres = Inr o' \<longrightarrow> ordersOf s i = Some o')"
    and order_spec: "ok s \<Longrightarrow> room s \<Longrightarrow> trimSpace key = key \<Longrightarrow> er_CreateOrder repo uid key inp charge ts (s, w) = (res, s', w') \<Longrightarrow>
      ok s' \<and> ordersOf s \<subseteq>\<^sub>m ordersOf s' \<and> (\<forall>e. res = Inl e \<longrightarrow> ordersOf s' = ordersOf s) \<and>
      (\<forall>o'. res = Inr o' \<longrightarrow> ordersOf s' (ord_ID o') = Some o' \<and> ord_UserID o' = uid \<and>
         trimSpace (ord_IdempotencyKey o') = key)"
    and replay_spec: "ok s \<Longrightarrow> ordersOf s i = Some o' \<Longrightarrow> trimSpace (ord_IdempotencyKey o') = key \<Longrightarrow>
      trimSpace key = key \<Longrightarrow> er_CreateOrder repo (ord_UserID o') key inp charge ts (s, w) = (res, s', w') \<Longrightarrow>
      w' = w \<and> ordersOf s' = ordersOf s \<and> (\<forall>o2. res = Inr o2 \<longrightarrow> o2 = o')"
begin

lemma createOrder_cases:
  assumes "createOrder repo charge now body (s, w) r = (res, s', w')"
  obtains "s' = s" "w' = w" "responseData res = None"
  | uid inp cres where "authUserIDFromContext (req_ctx r) = Some uid"
    and "trimSpace (lookupStr (req_Header r) ''Idempotency-Key'') \<noteq> ''''"
    and "er_CreateOrder repo uid (trimSpace (lookupStr (req_Header r) ''Idempotency-Key'')) inp charge now (s, w)
       = (cres, s', w')"
    and "res = (case cres of Inl e \<Rightarrow> respondOrderError r e | Inr o' \<Rightarrow> respondJSON r 201 (OrderOne o'))"
  using assms
  by (auto simp: createOrder_def authRequired_def Let_def split: option.splits sum.splits if_splits prod.splits)

lemma respondOrderError_data: "responseData (respondOrderError r e) = None"
  by (simp add: respondOrderError_def internalError_def split: ecomError.splits)

lemma ecomStep_keeps:
  assumes "ecomStep repo charge room (s, w) (s', w')" and "ok s"
  shows "ok s' \<and> ordersOf s \<subseteq>\<^sub>m ordersOf s'"
  using assms(1)
proof (cases rule: ecomStep.cases)
  case (ecom_product now body r)
  then show ?thesis using assms(2) product_spec
    by (auto simp: createProduct_def Let_def split: sum.splits if_splits prod.splits)
next
  case (ecom_list r)
  then show ?thesis using assms(2) products_spec
    by (auto simp: listProducts_def split: sum.splits prod.splits)
next
  case (ecom_order now obody r)
  obtain res where "createOrder repo charge now obody (s, w) r = (res, s', w')"
    using ecom_order(1) by (metis prod.collapse)
  then show ?thesis
  proof (cases rule: createOrder_cases)
    case 1
    then show ?thesis using assms(2) by simp
  next
    case (2 uid inp cres)
    then show ?thesis using order_spec [OF assms(2) ecom_order(2) trimSpace_idem 2(3)] by simp
  qed
next
  case (ecom_get r)
  then show ?thesis using assms(2) get_order_spec
    by (auto simp: getOrder_def split: sum.splits option.splits prod.splits)
qed

lemma ecomRun_keeps:
  assumes "ecomRun repo charge room (s, w) (s', w')" and "ok s"
  shows "ok s' \<and> ordersOf s \<subseteq>\<^sub>m ordersOf s'"
  using assms
proof (induction "(s', w')" arbitrary: s' w' rule: rtranclp_induct)
  case (step y)
  then show ?case using ecomStep_keeps map_le_trans by (cases y) blast
qed simp

lemma order_replayed:
  assumes "ok s" and "room s"
    and "createOrder repo charge now body (s, w) r = (res, s1, w1)" and "responseData res = Some (OrderOne o')"
    and "ecomRun repo charge room (s1, w1) (s2, w2)"
    and "authUserIDFromContext (req_ctx q) = authUserIDFromContext (req_ctx r)"
    and "trimSpace (lookupStr (req_Header q) ''Idempotency-Key'')
      = trimSpace (lookupStr (req_Header r) ''Idempotency-Key'')"
    and "createOrder repo charge now' body' (s2, w2) q = (res', s3, w3)"
  shows "w3 = w2 \<and> ordersOf s3 = ordersOf s2 \<and> (\<forall>d. responseData res' = Some d \<longrightarrow> d = OrderOne o')"
  using assms(3)
proof (cases rule: createOrder_cases)
  case 1
  with assms(4) show ?thesis by simp
next
  case (2 uid inp cres)
  then have "cres = Inr o'" using assms(4) by (cases cres) (auto simp: respondOrderError_data)
  with order_spec [OF assms(1,2) trimSpace_idem 2(3)] have "ok s1" and o1: "ordersOf s1 (ord_ID o') = Some o'" "ord_UserID o' = uid"
    "trimSpace (ord_IdempotencyKey o') = trimSpace (lookupStr (req_Header r) ''Idempotency-Key'')" by auto
  from ecomRun_keeps [OF assms(5) \<open>ok s1\<close>] o1(1) have "ok s2" and o2: "ordersOf s2 (ord_ID o') = Some o'"
    by (auto simp: map_le_def dom_def)
  show ?thesis using assms(8)
  proof (cases rule: createOrder_cases)
    case (2 uid' inp' cres')
    have "uid' = ord_UserID o'" using 2(1) o1(2) \<open>authUserIDFromContext (req_ctx r) = Some uid\<close> assms(6) by simp
    with replay_spec [OF \<open>ok s2\<close> o2 _ trimSpace_idem 2(3) [unfolded \<open>uid' = ord_UserID o'\<close>]] o1(3) assms(7) 2(4)
    show ?thesis by (cases cres') (auto simp: respondOrderError_data)
  qed simp
qed

lemma order_private:
  assumes "ok s" and "responseData (fst (getOrder repo s r)) = Some (OrderOne o')"
  shows "(\<exists>i. ordersOf s i = Some o') \<and>
     (roleOf r = ''admin'' \<or> authUserIDFromContext (req_ctx r) = Some (ord_UserID o'))"
  using assms get_order_spec [OF assms(1)]
  by (auto simp: getOrder_def authRequired_def badRequest_def internalError_def
      split: option.splits sum.splits prod.splits if_splits) blast+

end

section \<open>The in-memory repository meets the contract\<close>

definition memEcomInv :: "memoryEcommerceRepository \<Rightarrow> bool" where
  [inv_defs]: "memEcomInv s \<longleftrightarrow>
     distinct (mkeys (me_products s)) \<and> distinct (mkeys (me_orders s)) \<and>
     1 \<le> me_nextProductID s \<and> in64 (me_nextProductID s) \<and> 1 \<le> me_nextOrderID s \<and> in64 (me_nextOrderID s) \<and>
     (\<forall>i p. map_of (me_products s) i = Some p \<longrightarrow> prod_ID p = i \<and> 1 \<le> i \<and> i < me_nextProductID s) \<and>
     (\<forall>i x. map_of (me_orders s) i = Some x \<longrightarrow> ord_ID x = i \<and> 1 \<le> i \<and> i < me_nextOrderID s \<and>
        map_of (me_idemByUserKey s) (userIDKey (ord_UserID x) (ord_IdempotencyKey x)) = Some i) \<and>
     (\<forall>k i. map_of (me_idemByUserKey s) k = Some i \<longrightarrow>
        (\<exists>x. map_of (me_orders s) i = Some x \<and> k = userIDKey (ord_UserID x) (ord_IdempotencyKey x)))"

definition memEcomRoom :: "memoryEcommerceRepository \<Rightarrow> bool" where
  "memEcomRoom s \<longleftrightarrow> me_nextProductID s < maxInt64 \<and> me_nextOrderID s < maxInt64"

lemma memEcomInv_product: "memEcomInv s \<Longrightarrow> map_of (me_products s) i = Some p \<Longrightarrow>
    prod_ID p = i \<and> 1 \<le> i \<and> i < me_nextProductID s"
  unfolding memEcomInv_def by blast

lemma memEcomInv_order: "memEcomInv s \<Longrightarrow> map_of (me_orders s) i = Some x \<Longrightarrow>
    ord_ID x = i \<and> 1 \<le> i \<and> i < me_nextOrderID s \<and>
    map_of (me_idemByUserKey s) (userIDKey (ord_UserID x) (ord_IdempotencyKey x)) = Some i"
  unfolding memEcomInv_def by blast

lemma memEcomInv_idem: "memEcomInv s \<Longrightarrow> map_of (me_idemByUserKey s) k = Some i \<Longrightarrow>
    \<exists>x. map_of (me_orders s) i = Some x \<and> k = userIDKey (ord_UserID x) (ord_IdempotencyKey x)"
  unfolding memEcomInv_def by blast

lemma memEcomInv_bounds: "memEcomInv s \<Longrightarrow> distinct (mkeys (me_products s)) \<and> distinct (mkeys (me_orders s)) \<and>
     1 \<le> me_nextProductID s \<and> in64 (me_nextProductID s) \<and> 1 \<le> me_nextOrderID s \<and> in64 (me_nextOrderID s)"
  unfolding memEcomInv_def by blast

lemma memEcomInv_new: "memEcomInv newMemoryEcommerceRepository"
  by (simp add: memEcomInv_def newMemoryEcommerceRepository_def)

text \<open>Taking stock changes the stock of the ordered products only, and no id.\<close>

definition ordered :: "int64 \<Rightarrow> createOrderItemInput list \<Rightarrow> int" where
  "ordered i its = sum_list (map coi_Quantity (filter (\<lambda>it. coi_ProductID it = i) its))"

lemma ordered_simps [simp]:
  "ordered i [] = 0"
  "ordered i (it # its) = (if coi_ProductID it = i then coi_Quantity it else 0) + ordered i its"
  by (simp_all add: ordered_def)

lemma takeStock_keys:
  "set (map coi_ProductID its) \<subseteq> set (mkeys ps) \<Longrightarrow> set (mkeys (takeStock ts its ps)) = set (mkeys ps)"
proof (induction its arbitrary: ps)
  case (Cons it its)
  let ?ps = "mput (coi_ProductID it) (mget zeroProduct ps (coi_ProductID it)\<lparr>prod_StockQty :=
      wrap64 (prod_StockQty (mget zeroProduct ps (coi_ProductID it)) - coi_Quantity it), prod_UpdatedAt := ts\<rparr>) ps"
  have k: "set (mkeys ?ps) = set (mkeys ps)"
    unfolding mkeys_mput using Cons.prems by (auto simp: image_iff)
  have "set (mkeys (takeStock ts its ?ps)) = set (mkeys ?ps)"
    by (rule Cons.IH) (use Cons.prems k in auto)
  with k show ?case by (simp add: Let_def)
qed simp

lemma takeStock_distinct: "distinct (mkeys ps) \<Longrightarrow> distinct (mkeys (takeStock ts its ps))"
  by (induction its arbitrary: ps) (simp_all add: Let_def distinct_mput)

lemma takeStock_lookup:
  assumes "set (map coi_ProductID its) \<subseteq> dom (map_of ps)" and "map_of ps i = Some p"
    and "in64 (prod_StockQty p)"
  shows "\<exists>p'. map_of (takeStock ts its ps) i = Some p' \<and>
     prod_StockQty p' = wrap64 (prod_StockQty p - ordered i its) \<and>
     (i \<notin> set (map coi_ProductID its) \<longrightarrow> p' = p) \<and>
     prod_ID p' = prod_ID p \<and> prod_Name p' = prod_Name p \<and> prod_PriceCents p' = prod_PriceCents p \<and>
     prod_CreatedAt p' = prod_CreatedAt p"
  using assms
proof (induction its arbitrary: ps p)
  case (Cons it its)
  let ?q = "mget zeroProduct ps (coi_ProductID it)"
  let ?ps = "mput (coi_ProductID it) (?q\<lparr>prod_StockQty := wrap64 (prod_StockQty ?q - coi_Quantity it),
      prod_UpdatedAt := ts\<rparr>) ps"
  have dom: "set (map coi_ProductID its) \<subseteq> dom (map_of ?ps)"
    using Cons.prems(1) by (auto simp: dom_def)
  show ?case
  proof (cases "coi_ProductID it = i")
    case True
    then have q: "?q = p" using Cons.prems(2) by (simp add: mget_def)
    have l: "map_of ?ps i = Some (p\<lparr>prod_StockQty := wrap64 (prod_StockQty p - coi_Quantity it),
        prod_UpdatedAt := ts\<rparr>)"
      using True q by simp
    from Cons.IH [OF dom l] show ?thesis
      using True by (auto simp: Let_def wrap64_in64 algebra_simps)
  next
    case False
    then have l: "map_of ?ps i = Some p" using Cons.prems(2) by simp
    from Cons.IH [OF dom l Cons.prems(3)] False show ?thesis
      by (auto simp: Let_def)
  qed
qed simp

lemma takeStock_absent:
  assumes "set (map coi_ProductID its) \<subseteq> dom (map_of ps)" and "map_of ps i = None"
  shows "map_of (takeStock ts its ps) i = None"
proof -
  have "set (mkeys (takeStock ts its ps)) = set (mkeys ps)"
    by (rule takeStock_keys) (use assms(1) in \<open>simp add: dom_map_of_conv_image_fst\<close>)
  with assms(2) show ?thesis by (simp add: map_of_eq_None_iff)
qed

lemma priceItems_known:
  "priceItems ps its tot items = Inr (tot', items') \<Longrightarrow> set (map coi_ProductID its) \<subseteq> dom (map_of ps)
     \<and> (\<forall>it \<in> set its. 0 < coi_Quantity it \<and> (\<exists>p. map_of ps (coi_ProductID it) = Some p
          \<and> coi_Quantity it \<le> prod_StockQty p))"
  by (induction ps its tot items rule: priceItems.induct)
    (auto simp: Let_def split: option.splits if_splits)

lemma takeStock_shape:
  assumes "set (map coi_ProductID its) \<subseteq> dom (map_of ps)" and "map_of (takeStock ts its ps) i = Some p'"
  shows "\<exists>p. map_of ps i = Some p \<and> prod_ID p' = prod_ID p"
  using assms
proof (induction its arbitrary: ps)
  case (Cons it its)
  let ?q = "mget zeroProduct ps (coi_ProductID it)"
  let ?ps = "mput (coi_ProductID it) (?q\<lparr>prod_StockQty := wrap64 (prod_StockQty ?q - coi_Quantity it),
      prod_UpdatedAt := ts\<rparr>) ps"
  have "set (map coi_ProductID its) \<subseteq> dom (map_of ?ps)" using Cons.prems(1) by (auto simp: dom_def)
  moreover have "map_of (takeStock ts its ?ps) i = Some p'" using Cons.prems(2) by (simp add: Let_def)
  ultimately obtain p where "map_of ?ps i = Some p" "prod_ID p' = prod_ID p" using Cons.IH by blast
  with Cons.prems(1) show ?case by (auto simp: mget_def split: if_splits)
qed simp

text \<open>The ways an order call can end.\<close>

lemma memEcom_CreateOrder_cases:
  assumes "memEcom_CreateOrder uid key inp charge ts (s, w) = (res, s', w')"
  obtains (replay) i where "map_of (me_idemByUserKey s) (userIDKey uid key) = Some i"
      "res = Inr (mget zeroOrder (me_orders s) i)" "s' = s" "w' = w"
  | (failed) e where "map_of (me_idemByUserKey s) (userIDKey uid key) = None" "res = Inl e" "s' = s"
  | (placed) tot items pay where "map_of (me_idemByUserKey s) (userIDKey uid key) = None"
      "priceItems (me_products s) (co_Items inp) 0 [] = Inr (tot, items)"
      "charge tot (co_PaymentMethod inp) w = (Inr pay, w')"
      "res = Inr \<lparr>ord_ID = me_nextOrderID s, ord_UserID = uid,
         ord_Status = (if pay_Status pay = ''paid'' then ''paid'' else ''payment_failed''),
         ord_TotalCents = tot, ord_IdempotencyKey = key, ord_CreatedAt = ts, ord_UpdatedAt = ts,
         ord_Items = items, ord_PaymentStatus = pay_Status pay, ord_PaymentRef = pay_Ref pay\<rparr>"
      "me_products s' = (if pay_Status pay = ''paid'' then takeStock ts (co_Items inp) (me_products s)
         else me_products s)"
      "me_orders s' = mput (me_nextOrderID s) (projr res) (me_orders s)"
      "me_idemByUserKey s' = mput (userIDKey uid key) (me_nextOrderID s) (me_idemByUserKey s)"
      "me_nextProductID s' = me_nextProductID s" "me_nextOrderID s' = wrap64 (me_nextOrderID s + 1)"
proof (cases "map_of (me_idemByUserKey s) (userIDKey uid key)")
  case (Some i)
  then show ?thesis using assms by (intro replay) (auto simp: memEcom_CreateOrder_def)
next
  case None
  show ?thesis
  proof (cases "priceItems (me_products s) (co_Items inp) 0 []")
    case (Inl e)
    then show ?thesis using assms None by (intro failed [of e]) (auto simp: memEcom_CreateOrder_def)
  next
    case (Inr ti)
    obtain tot items where ti: "ti = (tot, items)" by (cases ti)
    obtain cres w1 where c: "charge tot (co_PaymentMethod inp) w = (cres, w1)" by fastforce
    show ?thesis
    proof (cases cres)
      case (Inl e)
      then show ?thesis
        using assms None \<open>priceItems _ _ _ _ = Inr ti\<close> ti c
        by (intro failed [of "EcomError e"]) (auto simp: memEcom_CreateOrder_def)
    next
      case (Inr pay)
      then show ?thesis
        using assms None \<open>priceItems _ _ _ _ = Inr ti\<close> ti c
        by (intro placed [of tot items pay]) (auto simp: memEcom_CreateOrder_def Let_def)
    qed
  qed
qed

lemma memEcomInv_placed:
  assumes inv: "memEcomInv s" and room: "memEcomRoom s"
    and fresh: "map_of (me_idemByUserKey s) (userIDKey uid key) = None"
    and price: "priceItems (me_products s) (co_Items inp) 0 [] = Inr (tot, items)"
    and x: "ord_ID x = me_nextOrderID s" "ord_UserID x = uid" "ord_IdempotencyKey x = key"
    and s': "me_products s' = takeStock ts (co_Items inp) (me_products s) \<or> me_products s' = me_products s"
      "me_orders s' = mput (me_nextOrderID s) x (me_orders s)"
      "me_idemByUserKey s' = mput (userIDKey uid key) (me_nextOrderID s) (me_idemByUserKey s)"
      "me_nextProductID s' = me_nextProductID s" "me_nextOrderID s' = wrap64 (me_nextOrderID s + 1)"
  shows "memEcomInv s'" and "map_of (me_orders s) (me_nextOrderID s) = None"
proof -
  have next64: "me_nextOrderID s' = me_nextOrderID s + 1" "in64 (me_nextOrderID s + 1)"
    using memEcomInv_bounds [OF inv] room s'(5) by (simp_all add: memEcomRoom_def in64_succ)
  show free: "map_of (me_orders s) (me_nextOrderID s) = None"
    using memEcomInv_order [OF inv] by (cases "map_of (me_orders s) (me_nextOrderID s)") fastforce+
  have known: "set (map coi_ProductID (co_Items inp)) \<subseteq> dom (map_of (me_products s))"
    using priceItems_known [OF price] by blast
  have prods: "prod_ID p = i \<and> 1 \<le> i \<and> i < me_nextProductID s" if "map_of (me_products s') i = Some p" for i p
    using s'(1) that takeStock_shape [OF known, of ts i p] memEcomInv_product [OF inv] by auto
  have dist: "distinct (mkeys (me_products s'))"
    using s'(1) memEcomInv_bounds [OF inv] takeStock_distinct by auto
  have ords: "ord_ID y = i \<and> 1 \<le> i \<and> i < me_nextOrderID s' \<and>
      map_of (me_idemByUserKey s') (userIDKey (ord_UserID y) (ord_IdempotencyKey y)) = Some i"
    if "map_of (me_orders s') i = Some y" for i y
    using that memEcomInv_order [OF inv, of i y] memEcomInv_bounds [OF inv] x next64(1) fresh
    by (auto simp: s' split: if_splits)
  have idem: "\<exists>y. map_of (me_orders s') i = Some y \<and> k = userIDKey (ord_UserID y) (ord_IdempotencyKey y)"
    if "map_of (me_idemByUserKey s') k = Some i" for k i
    using that memEcomInv_idem [OF inv, of k i] x free by (auto simp: s' split: if_splits)
  show "memEcomInv s'"
    unfolding memEcomInv_def
  proof (intro conjI)
    show "distinct (mkeys (me_orders s'))" using memEcomInv_bounds [OF inv] s'(2) distinct_mput by metis
  qed (use memEcomInv_bounds [OF inv] dist prods ords idem next64 s'(4) in simp_all)
qed

lemma memEcom_order_spec:
  assumes "memEcomInv s" and "memEcomRoom s"
    and "memEcom_CreateOrder uid key inp charge ts (s, w) = (res, s', w')"
  shows "memEcomInv s' \<and> map_of (me_orders s) \<subseteq>\<^sub>m map_of (me_orders s') \<and>
      (\<forall>e. res = Inl e \<longrightarrow> map_of (me_orders s') = map_of (me_orders s)) \<and>
      (\<forall>x. res = Inr x \<longrightarrow> map_of (me_orders s') (ord_ID x) = Some x \<and> ord_UserID x = uid \<and>
         trimSpace (ord_IdempotencyKey x) = trimSpace key)"
  using assms(3)
proof (cases rule: memEcom_CreateOrder_cases)
  case (replay i)
  obtain x where x: "map_of (me_orders s) i = Some x" "userIDKey uid key = userIDKey (ord_UserID x) (ord_IdempotencyKey x)"
    using memEcomInv_idem [OF assms(1) replay(1)] by blast
  moreover have "ord_ID x = i" using memEcomInv_order [OF assms(1) x(1)] by blast
  ultimately show ?thesis using replay assms(1) by (auto simp: mget_def userIDKey_inj)
next
  case (placed tot items pay)
  define x where "x = projr res"
  have x: "res = Inr x" "ord_ID x = me_nextOrderID s" "ord_UserID x = uid" "ord_IdempotencyKey x = key"
    using placed(4) by (simp_all add: x_def)
  have inv: "memEcomInv s'" "map_of (me_orders s) (me_nextOrderID s) = None"
    by (rule memEcomInv_placed [OF assms(1,2) placed(1,2) x(2-), of s' ts];
        use placed(5-) in \<open>simp add: x_def\<close>)+
  with placed(6) x show ?thesis by (auto simp: map_le_def)
qed (use assms(1) in simp)

interpretation memEcom: ecom_repo memoryEcomRepo "\<lambda>s. map_of (me_orders s)" memEcomInv memEcomRoom
proof (unfold_locales, goal_cases)
  case (1 s pin ts pres s')
  have n: "in64 (me_nextProductID s + 1)"
    using 1(1,2) memEcomInv_bounds by (auto simp: memEcomRoom_def in64_succ)
  define p where "p = projr pres"
  have upd: "me_products s' = mput (me_nextProductID s) p (me_products s)"
      "prod_ID p = me_nextProductID s" "me_orders s' = me_orders s"
      "me_idemByUserKey s' = me_idemByUserKey s" "me_nextOrderID s' = me_nextOrderID s"
      "me_nextProductID s' = me_nextProductID s + 1"
    using 1(3) n by (auto simp: memEcom_defs Let_def p_def)
  have "prod_ID q = i \<and> 1 \<le> i \<and> i < me_nextProductID s'" if "map_of (me_products s') i = Some q" for i q
    using that memEcomInv_product [OF 1(1), of i q] memEcomInv_bounds [OF 1(1)] upd by (auto split: if_splits)
  moreover have "distinct (mkeys (me_products s'))"
    using memEcomInv_bounds [OF 1(1)] upd(1) distinct_mput by metis
  ultimately show ?case
    unfolding memEcomInv_def upd(3-6) using memEcomInv_bounds [OF 1(1)] n memEcomInv_order [OF 1(1)]
      memEcomInv_idem [OF 1(1)] upd(6) by auto
next
  case (4 s key uid inp charge ts w res s' w')
  then show ?case using memEcom_order_spec [of s uid key inp charge ts w res s' w'] by (simp add: memoryEcomRepo_def)
next
  case (5 s i x key inp charge ts w res s' w')
  have "map_of (me_idemByUserKey s) (userIDKey (ord_UserID x) key) = Some i"
    using memEcomInv_order [OF 5(1,2)] 5(3,4) by (simp add: userIDKey_def)
  with 5 show ?case by (auto simp: memoryEcomRepo_def memEcom_CreateOrder_def mget_def)
qed (auto simp: memoryEcomRepo_def memEcom_ListProducts_def memEcom_GetOrder_def split: option.splits)

section \<open>Properties of the shop on the in-memory repository\<close>

text \<open>
  C26: a retried order is not placed or charged twice. Once an order request of a user has been
  answered with an order, then after any further requests of anybody, a valid order request of the
  same user with the same idempotency key is answered with the same order, changes nothing in the
  repository and charges nothing, whatever the payment provider and the new request body are.
\<close>

theorem order_idempotent:
  assumes "memEcomInv s" and "memEcomRoom s"
    and "createOrder memoryEcomRepo charge now body (s, w) r = (res, s1, w1)"
    and "responseData res = Some (OrderOne x)"
    and "ecomRun memoryEcomRepo charge memEcomRoom (s1, w1) (s2, w2)"
    and "authUserIDFromContext (req_ctx q) = authUserIDFromContext (req_ctx r)"
    and "trimSpace (lookupStr (req_Header q) ''Idempotency-Key'')
      = trimSpace (lookupStr (req_Header r) ''Idempotency-Key'')"
    and "co_Items inp \<noteq> []"
  shows "createOrder memoryEcomRepo charge now' (okBody inp) (s2, w2) q = (respondJSON q 201 (OrderOne x), s2, w2)"
proof -
  obtain uid where uid: "authUserIDFromContext (req_ctx r) = Some uid"
    and k: "trimSpace (lookupStr (req_Header r) ''Idempotency-Key'') \<noteq> ''''"
    using memEcom.createOrder_cases [OF assms(3)] assms(4) by (metis option.distinct(1))
  obtain cres s3 w3 where c: "memEcom_CreateOrder uid (trimSpace (lookupStr (req_Header q) ''Idempotency-Key''))
      inp charge now' (s2, w2) = (cres, s3, w3)" by (metis prod.collapse)
  have run: "createOrder memoryEcomRepo charge now' (okBody inp) (s2, w2) q
      = (case cres of Inl e \<Rightarrow> respondOrderError q e | Inr o' \<Rightarrow> respondJSON q 201 (OrderOne o'), s3, w3)"
    using c uid k assms(6-8) by (simp add: createOrder_def Let_def memoryEcomRepo_def split: sum.splits)
  from memEcom.createOrder_cases [OF assms(3)] assms(4) obtain inp0 cres0 where
    o: "memEcom_CreateOrder uid (trimSpace (lookupStr (req_Header r) ''Idempotency-Key'')) inp0 charge now (s, w)
        = (cres0, s1, w1)" "cres0 = Inr x"
    by (cases rule: memEcom.createOrder_cases [OF assms(3)])
      (auto simp: uid memoryEcomRepo_def memEcom.respondOrderError_data split: sum.splits)
  have s1: "memEcomInv s1" "map_of (me_orders s1) (ord_ID x) = Some x" "ord_UserID x = uid"
      "trimSpace (ord_IdempotencyKey x) = trimSpace (lookupStr (req_Header r) ''Idempotency-Key'')"
    using memEcom_order_spec [OF assms(1,2) o(1)] o(2) by auto
  have s2: "memEcomInv s2" "map_of (me_orders s2) (ord_ID x) = Some x"
    using memEcom.ecomRun_keeps [OF assms(5) s1(1)] s1(2) by (auto simp: map_le_def dom_def)
  have "map_of (me_idemByUserKey s2) (userIDKey uid (trimSpace (lookupStr (req_Header q) ''Idempotency-Key'')))
      = Some (ord_ID x)"
    using memEcomInv_order [OF s2] s1(3,4) assms(7) by (simp add: userIDKey_def)
  with c s2(2) have "cres = Inr x" "s3 = s2" "w3 = w2" by (auto simp: memEcom_CreateOrder_def mget_def)
  with run show ?thesis by simp
qed

lemma priceItems_items:
  "priceItems ps its tot items = Inr (tot', items') \<Longrightarrow> in64 tot \<Longrightarrow>
     \<exists>new. items' = items @ new \<and> tot' = wrap64 (tot + sum_list (map oi_LineTotalCents new))
       \<and> map oi_Quantity new = map coi_Quantity its"
proof (induction ps its tot items rule: priceItems.induct)
  case (2 ps it its tot items)
  then obtain p where p: "map_of ps (coi_ProductID it) = Some p"
    and q: "0 < coi_Quantity it" "coi_Quantity it \<le> prod_StockQty p"
    by (auto split: option.splits if_splits)
  define line where "line = wrap64 (prod_PriceCents p * coi_Quantity it)"
  define oi where "oi = \<lparr>oi_ProductID = prod_ID p, oi_Quantity = coi_Quantity it,
      oi_UnitPriceCents = prod_PriceCents p, oi_LineTotalCents = line\<rparr>"
  have r: "priceItems ps its (wrap64 (tot + line)) (items @ [oi]) = Inr (tot', items')"
    using 2(2) p q by (simp add: line_def oi_def Let_def)
  obtain new where new: "items' = (items @ [oi]) @ new"
      "tot' = wrap64 (wrap64 (tot + line) + sum_list (map oi_LineTotalCents new))"
      "map oi_Quantity new = map coi_Quantity its"
    using 2(1) [OF p _ _ line_def, folded oi_def, OF _ _ r wrap64_in64] q by auto
  then have "items' = items @ oi # new \<and> tot' = wrap64 (tot + sum_list (map oi_LineTotalCents (oi # new)))
      \<and> map oi_Quantity (oi # new) = map coi_Quantity (it # its)"
    by (simp add: oi_def add.assoc)
  then show ?case by blast
qed simp

text \<open>
  C31: stock is accounted exactly. A new order whose payment succeeded takes from the stock of each
  product the sum of the quantities ordered of it and touches no other product; a declined payment
  records the order with status \<open>payment_failed\<close> and leaves every product as it was. Either way
  the total is the wrapped sum of the line totals and the provider was charged exactly once, with
  that total.
\<close>

theorem order_stock_exact:
  assumes "memEcom_CreateOrder uid key inp charge ts (s, w) = (Inr x, s', w')"
    and "map_of (me_idemByUserKey s) (userIDKey uid key) = None"
    and "map_of (me_products s) i = Some p" and "in64 (prod_StockQty p)"
  shows "(\<exists>pay. charge (ord_TotalCents x) (co_PaymentMethod inp) w = (Inr pay, w')
        \<and> ord_Status x = (if pay_Status pay = ''paid'' then ''paid'' else ''payment_failed''))
     \<and> ord_TotalCents x = wrap64 (sum_list (map oi_LineTotalCents (ord_Items x)))
     \<and> (\<exists>p'. map_of (me_products s') i = Some p'
        \<and> prod_StockQty p' = (if ord_Status x = ''paid''
             then wrap64 (prod_StockQty p - ordered i (co_Items inp)) else prod_StockQty p)
        \<and> (ord_Status x \<noteq> ''paid'' \<or> i \<notin> set (map coi_ProductID (co_Items inp)) \<longrightarrow> p' = p)
        \<and> prod_PriceCents p' = prod_PriceCents p)"
  using assms(1)
proof (cases rule: memEcom_CreateOrder_cases)
  case (placed tot items pay)
  have known: "set (map coi_ProductID (co_Items inp)) \<subseteq> dom (map_of (me_products s))"
    using priceItems_known [OF placed(2)] by blast
  from takeStock_lookup [OF known assms(3,4), of ts] obtain p' where
    p': "map_of (takeStock ts (co_Items inp) (me_products s)) i = Some p'"
      "prod_StockQty p' = wrap64 (prod_StockQty p - ordered i (co_Items inp))"
      "i \<notin> set (map coi_ProductID (co_Items inp)) \<longrightarrow> p' = p" "prod_PriceCents p' = prod_PriceCents p"
    by blast
  have "tot = wrap64 (sum_list (map oi_LineTotalCents items))"
    using priceItems_items [OF placed(2)] by auto
  moreover have "\<exists>q. map_of (me_products s') i = Some q
        \<and> prod_StockQty q = (if pay_Status pay = ''paid''
             then wrap64 (prod_StockQty p - ordered i (co_Items inp)) else prod_StockQty p)
        \<and> (pay_Status pay \<noteq> ''paid'' \<or> i \<notin> set (map coi_ProductID (co_Items inp)) \<longrightarrow> q = p)
        \<and> prod_PriceCents q = prod_PriceCents p"
    using p' assms(3) placed(5) by (cases "pay_Status pay = ''paid''") auto
  ultimately show ?thesis using placed(3,4) by auto
qed (use assms(2) in auto)

lemma ordered_distinct:
  "distinct (map coi_ProductID its) \<Longrightarrow> it \<in> set its \<Longrightarrow> ordered (coi_ProductID it) its = coi_Quantity it"
proof (induction its)
  case (Cons a its)
  have none: "i \<notin> set (map coi_ProductID its) \<Longrightarrow> ordered i its = 0" for i
    by (induction its) auto
  from Cons show ?case by (auto simp: none image_iff)
qed simp

lemma ordered_none: "i \<notin> set (map coi_ProductID its) \<Longrightarrow> ordered i its = 0"
  by (induction its) auto

text \<open>
  Orders with one line per product never oversell. If no stock is negative and an order names
  each product at most once, no stock is negative after the call, whatever its outcome.
\<close>

theorem no_oversell:
  assumes "memEcom_CreateOrder uid key inp charge ts (s, w) = (res, s', w')"
    and "distinct (map coi_ProductID (co_Items inp))"
    and "\<forall>i p. map_of (me_products s) i = Some p \<longrightarrow> 0 \<le> prod_StockQty p \<and> in64 (prod_StockQty p)"
  shows "\<forall>i p. map_of (me_products s') i = Some p \<longrightarrow> 0 \<le> prod_StockQty p \<and> in64 (prod_StockQty p)"
  using assms(1)
proof (cases rule: memEcom_CreateOrder_cases)
  case (placed tot items pay)
  note known = priceItems_known [OF placed(2)]
  have "0 \<le> prod_StockQty q \<and> in64 (prod_StockQty q)"
    if q: "map_of (takeStock ts (co_Items inp) (me_products s)) i = Some q" for i q
  proof -
    obtain p where p: "map_of (me_products s) i = Some p"
      using takeStock_shape [OF _ q] known by blast
    have stock: "prod_StockQty q = wrap64 (prod_StockQty p - ordered i (co_Items inp))"
      using takeStock_lookup [of "co_Items inp" "me_products s" i p ts] known p q assms(3) by auto
    have "0 \<le> ordered i (co_Items inp) \<and> ordered i (co_Items inp) \<le> prod_StockQty p"
    proof (cases "i \<in> set (map coi_ProductID (co_Items inp))")
      case True
      then obtain it where "it \<in> set (co_Items inp)" "coi_ProductID it = i" by auto
      with known p ordered_distinct [OF assms(2)] show ?thesis by fastforce
    qed (use assms(3) p ordered_none in auto)
    moreover have "in64 (prod_StockQty p)" using assms(3) p by blast
    ultimately have "in64 (prod_StockQty p - ordered i (co_Items inp))" by (simp add: in64_def)
    with stock \<open>0 \<le> ordered i (co_Items inp) \<and> _\<close> show ?thesis by simp
  qed
  then show ?thesis using placed(5) assms(3) by (cases "pay_Status pay = ''paid''") auto
qed (use assms(3) in auto)

text \<open>
  A refused order changes nothing. Whenever an order request is not answered with an order,
  the repository is as before; and unless the failure is the internal error that reports a failing
  provider, nothing was charged.
\<close>

theorem order_refused_unchanged:
  assumes "createOrder memoryEcomRepo charge now body (s, w) r = (res, s', w')"
    and "responseData res = None"
  shows "s' = s \<and> (errorCode res \<noteq> Some ''internal_error'' \<longrightarrow> w' = w)"
  using assms
  by (auto simp: createOrder_def Let_def memoryEcomRepo_def memEcom_CreateOrder_def authRequired_def
      respondOrderError_def internalError_def split: option.splits sum.splits if_splits prod.splits)

text \<open>
  An order is shown only to the user who placed it or to an admin, and it is the stored one.
\<close>

theorem order_visible_to_owner:
  assumes "memEcomInv s" and "responseData (fst (getOrder memoryEcomRepo s r)) = Some (OrderOne x)"
  shows "map_of (me_orders s) (ord_ID x) = Some x
     \<and> (roleOf r = ''admin'' \<or> authUserIDFromContext (req_ctx r) = Some (ord_UserID x))"
proof -
  obtain i where i: "map_of (me_orders s) i = Some x" using memEcom.order_private [OF assms] by blast
  with memEcomInv_order [OF assms(1) i] memEcom.order_private [OF assms] show ?thesis by auto
qed

section \<open>Two limits of the in-memory repository\<close>

definition demoShop :: "int64 \<Rightarrow> int64 \<Rightarrow> memoryEcommerceRepository" where
  "demoShop price stock = newMemoryEcommerceRepository\<lparr>me_products :=
     [(1, \<lparr>prod_ID = 1, prod_Name = ''tea'', prod_PriceCents = price, prod_StockQty = stock,
       prod_CreatedAt = 0, prod_UpdatedAt = 0\<rparr>)], me_nextProductID := 2\<rparr>"

definition demoLines :: "int64 list \<Rightarrow> createOrderInput" where
  "demoLines qs = \<lparr>co_Items = map (\<lambda>q. \<lparr>coi_ProductID = 1, coi_Quantity = q\<rparr>) qs, co_PaymentMethod = ''pm_card''\<rparr>"

abbreviation mockOrder ::
  "memoryEcommerceRepository \<Rightarrow> createOrderInput \<Rightarrow> (ecomError + orderRec) \<times> memoryEcommerceRepository \<times> unit" where
  "mockOrder s inp \<equiv> memEcom_CreateOrder 1 ''k'' inp mockCharge 0 (s, ())"

lemma pm_card_ok: "equalFold (trimSpace ''pm_card'') ''pm_fail'' = False"
  by code_simp

text \<open>
  An order that names a product twice can oversell it. Each line is checked against the stock
  before the order, so two lines of one piece each are accepted on a stock of one, paid, and leave
  a stock of minus one.
\<close>

theorem duplicate_lines_oversell:
  "map_option prod_StockQty (map_of (me_products (fst (snd (mockOrder (demoShop 5 1) (demoLines [1, 1]))))) 1)
     = Some (- 1)"
  by (simp add: memEcom_CreateOrder_def demoShop_def demoLines_def newMemoryEcommerceRepository_def
      mockCharge_def pm_card_ok Let_def mget_def in64_def)

text \<open>
  The total of an order can wrap around. An order of four pieces at \<open>2^62 + 1\<close> cents each is
  accepted with a total of 4 cents, and 4 cents are charged.
\<close>

theorem order_total_wraps:
  "map_option ord_TotalCents (case fst (mockOrder (demoShop (2 ^ 62 + 1) 10) (demoLines [4])) of
       Inl _ \<Rightarrow> None | Inr x \<Rightarrow> Some x) = Some 4"
  by (simp add: memEcom_CreateOrder_def demoShop_def demoLines_def newMemoryEcommerceRepository_def
      mockCharge_def pm_card_ok Let_def mget_def wrap64_def)

section \<open>Witnesses\<close>

definition demoOrderRequest :: request where
  "demoOrderRequest = (demoPrincipal 1 ''user'')\<lparr>req_Header := [(''Idempotency-Key'', ''k'')]\<rparr>"

definition demoOrder :: orderRec where
  "demoOrder = \<lparr>ord_ID = 1, ord_UserID = 1, ord_Status = ''paid'', ord_TotalCents = 10,
     ord_IdempotencyKey = ''k'', ord_CreatedAt = 0, ord_UpdatedAt = 0,
     ord_Items = [\<lparr>oi_ProductID = 1, oi_Quantity = 2, oi_UnitPriceCents = 5, oi_LineTotalCents = 10\<rparr>],
     ord_PaymentStatus = ''paid'', ord_PaymentRef = ''mock-paid''\<rparr>"

definition demoOrdered :: memoryEcommerceRepository where
  "demoOrdered = (demoShop 5 1)\<lparr>me_orders := [(1, demoOrder)],
     me_idemByUserKey := [(userIDKey 1 ''k'', 1)], me_nextOrderID := 2\<rparr>"

lemma demoShop_inv: "memEcomInv (demoShop 5 n)" "memEcomRoom (demoShop 5 n)"
  by (simp_all add: memEcomInv_def memEcomRoom_def demoShop_def newMemoryEcommerceRepository_def
      in64_def maxInt64_def)

lemma demoOrdered_inv: "memEcomInv demoOrdered"
  by (simp add: memEcomInv_def demoOrdered_def demoShop_def newMemoryEcommerceRepository_def demoOrder_def in64_def)

lemma demo_key: "trimSpace ''k'' = ''k''"
  by code_simp

lemma demo_order_placed: "mockOrder (demoShop 5 3) (demoLines [2]) = (Inr demoOrder, demoOrdered, ())"
  by (simp add: memEcom_CreateOrder_def demoShop_def demoLines_def newMemoryEcommerceRepository_def
      mockCharge_def pm_card_ok Let_def mget_def in64_def demoOrder_def demoOrdered_def)

lemma demo_order_request:
  "createOrder memoryEcomRepo mockCharge 0 (okBody (demoLines [2])) (demoShop 5 3, ()) demoOrderRequest
     = (respondJSON demoOrderRequest 201 (OrderOne demoOrder), demoOrdered, ())"
  using demo_order_placed
  by (simp add: createOrder_def demoOrderRequest_def demoPrincipal_def withAuthPrincipal_def withAuthUserID_def
      authUserIDFromContext_def lookupStr_def demo_key Let_def memoryEcomRepo_def demoLines_def)

theorem order_idempotent_witness:
  "createOrder memoryEcomRepo mockCharge 7 (okBody (demoLines [1, 1])) (demoOrdered, ()) demoOrderRequest
     = (respondJSON demoOrderRequest 201 (OrderOne demoOrder), demoOrdered, ())"
  by (rule order_idempotent [OF demoShop_inv demo_order_request _ rtranclp.rtrancl_refl])
    (simp_all add: demoLines_def)

theorem order_stock_exact_witness:
  "\<exists>p'. map_of (me_products demoOrdered) 1 = Some p' \<and> prod_StockQty p' = 1"
proof -
  let ?p = "\<lparr>prod_ID = 1, prod_Name = ''tea'', prod_PriceCents = 5, prod_StockQty = 3,
       prod_CreatedAt = 0, prod_UpdatedAt = 0\<rparr>"
  have "map_of (me_idemByUserKey (demoShop 5 3)) (userIDKey 1 ''k'') = None"
    "map_of (me_products (demoShop 5 3)) 1 = Some ?p" "in64 (prod_StockQty ?p)"
    by (simp_all add: demoShop_def newMemoryEcommerceRepository_def in64_def)
  from order_stock_exact [OF demo_order_placed this] show ?thesis
    by (auto simp: demoOrder_def demoLines_def in64_def)
qed

theorem no_oversell_witness:
  "\<exists>p. map_of (me_products demoOrdered) 1 = Some p \<and> 0 \<le> prod_StockQty p \<and> in64 (prod_StockQty p)"
proof -
  have "\<forall>i p. map_of (me_products demoOrdered) i = Some p \<longrightarrow> 0 \<le> prod_StockQty p \<and> in64 (prod_StockQty p)"
    by (rule no_oversell [OF demo_order_placed])
      (simp_all add: demoLines_def demoShop_def newMemoryEcommerceRepository_def in64_def)
  then show ?thesis by (simp add: demoOrdered_def demoShop_def)
qed

definition demoCountingCharge :: "nat paymentProvider" where
  "demoCountingCharge amount method n = (fst (mockCharge amount method n), Suc n)"

theorem order_refused_unchanged_witness:
  "snd (createOrder memoryEcomRepo demoCountingCharge 0 (okBody (demoLines [9])) (demoShop 5 3, 4) demoOrderRequest)
     = (demoShop 5 3, 4)"
proof -
  have "createOrder memoryEcomRepo demoCountingCharge 0 (okBody (demoLines [9])) (demoShop 5 3, 4) demoOrderRequest
     = (respondOrderError demoOrderRequest ErrInsufficientStock, demoShop 5 3, 4)"
    by (simp add: createOrder_def demoOrderRequest_def demoPrincipal_def withAuthPrincipal_def withAuthUserID_def
      authUserIDFromContext_def lookupStr_def demo_key Let_def memoryEcomRepo_def demoLines_def
      memEcom_CreateOrder_def demoShop_def newMemoryEcommerceRepository_def)
  from order_refused_unchanged [OF this] this show ?thesis by (simp add: respondOrderError_def)
qed

theorem order_visible_to_owner_witness:
  "map_of (me_orders demoOrdered) 1 = Some demoOrder"
proof -
  have "parseFileID ''1'' = Inr 1" by code_simp
  then have "fst (getOrder (memoryEcomRepo :: (_, unit) ecommerceRepository) demoOrdered (demoPrincipal 1 ''user''))
      = respondJSON (demoPrincipal 1 ''user'') 200 (OrderOne demoOrder)"
    by (simp add: getOrder_def demoPrincipal_def withAuthPrincipal_def withAuthUserID_def
      authUserIDFromContext_def lookupStr_def memEcom_defs demoOrdered_def demoOrder_def)
  then have "responseData (fst (getOrder (memoryEcomRepo :: (_, unit) ecommerceRepository) demoOrdered
      (demoPrincipal 1 ''user''))) = Some (OrderOne demoOrder)" by simp
  from order_visible_to_owner [OF demoOrdered_inv this] show ?thesis by (simp add: demoOrder_def)
qed

end
