(* ===== verification/Shortener.thy ===== *)
theory Shortener
  imports Tasks
begin

text \<open>
  The URL shortener of \<open>internal/httpapp/shortener.go\<close>: validation, code generation, the three
  handlers, the repository interface and the in-memory repository.

  \<open>url.ParseRequestURI\<close> is modelled as far as the validation looks at its result: control bytes,
  scheme, authority and the escapes of the path. The grammar of a host differs between releases of
  the standard library, so the check of an authority is the parameter \<open>se_authorityOK\<close>. The
  seeded generator of \<open>math/rand\<close> is the parameter \<open>se_intn\<close>: the value of the \<open>i\<close>-th draw below
  the given bound. \<open>http.Redirect\<close> rewrites a target without scheme relative to the request path;
  that rewriting is the parameter \<open>se_relative\<close>, and the invariant of stored targets shows that it
  is never used.
\<close>

section \<open>Data\<close>

record shortURL =
  su_ID :: int64
  su_Code :: string
  su_TargetURL :: string
  su_CreatedAt :: time

record shortURLResponse =
  sr_Code :: string
  sr_TargetURL :: string
  sr_ShortPath :: string
  sr_CreatedAt :: string

record createShortURLInput =
  csi_URL :: string
  csi_Code :: string

record createShortURLRepositoryInput =
  csr_Code :: string
  csr_TargetURL :: string

datatype shortURLError = ErrShortURLNotFound | ErrShortURLCodeConflict | ShortURLRepoError string

record 's shortURLRepository =
  sur_Create :: "createShortURLRepositoryInput \<Rightarrow> time \<Rightarrow> 's \<Rightarrow> (shortURLError + shortURL) \<times> 's"
  sur_Get :: "string \<Rightarrow> 's \<Rightarrow> (shortURLError + shortURL) \<times> 's"

record shortEnv =
  se_authorityOK :: "string \<Rightarrow> bool"
  se_intn :: "int64 \<Rightarrow> nat \<Rightarrow> nat \<Rightarrow> nat"
  se_relative :: "string \<Rightarrow> string \<Rightarrow> string"

definition shortURLCodeLength :: nat where
  "shortURLCodeLength = 8"

definition shortURLAlphabet :: string where
  "shortURLAlphabet = ''abcdefghijklmnopqrstuvwxyzABCDEFGHIJKLMNOPQRSTUVWXYZ0123456789''"

section \<open>Request URIs\<close>

definition isAlpha :: "char \<Rightarrow> bool" where
  "isAlpha c \<longleftrightarrow> 65 \<le> byteOf c \<and> byteOf c \<le> 90 \<or> 97 \<le> byteOf c \<and> byteOf c \<le> 122"

definition isHex :: "char \<Rightarrow> bool" where
  "isHex c \<longleftrightarrow> isDigit c \<or> 65 \<le> byteOf c \<and> byteOf c \<le> 70 \<or> 97 \<le> byteOf c \<and> byteOf c \<le> 102"

text \<open>\<open>getScheme\<close>: \<open>None\<close> is the error of a leading colon; \<open>acc\<close> holds the bytes read, reversed.\<close>

fun getSchemeFrom :: "string \<Rightarrow> string \<Rightarrow> (string \<times> string) option" where
  "getSchemeFrom acc [] = Some ('''', rev acc)"
| "getSchemeFrom acc (c # cs) =
     (if isAlpha c then getSchemeFrom (c # acc) cs
      else if isDigit c \<or> c \<in> set ''+-.''
        then (if acc = [] then Some ('''', c # cs) else getSchemeFrom (c # acc) cs)
      else if c = CHR '':'' then (if acc = [] then None else Some (rev acc, cs))
      else Some ('''', rev acc @ c # cs))"

fun escapesOK :: "string \<Rightarrow> bool" where
  "escapesOK [] = True"
| "escapesOK (c # cs) =
     (if c = CHR ''%'' then (case cs of a # b # rest \<Rightarrow> isHex a \<and> isHex b \<and> escapesOK rest | _ \<Rightarrow> False)
      else escapesOK cs)"

definition hostOfAuthority :: "string \<Rightarrow> string" where
  "hostOfAuthority a = rev (takeWhile (\<lambda>c. c \<noteq> CHR ''@'') (rev a))"

definition parseRequestURI :: "shortEnv \<Rightarrow> string \<Rightarrow> (string \<times> string) option" where
  "parseRequestURI env raw =
     (if raw = [] \<or> list_ex (\<lambda>c. byteOf c < 32 \<or> byteOf c = 127) raw then None
      else if raw = ''*'' then Some ('''', '''')
      else (case getSchemeFrom [] raw of
          None \<Rightarrow> None
        | Some (scheme0, rest0) \<Rightarrow>
            let scheme = map asciiLower scheme0;
                rest = takeWhile (\<lambda>c. c \<noteq> CHR ''?'') rest0
            in if \<not> prefix ''/'' rest then (if scheme \<noteq> '''' then Some (scheme, '''') else None)
               else if scheme \<noteq> '''' \<and> prefix ''//'' rest then
                 (let authority = takeWhile (\<lambda>c. c \<noteq> CHR ''/'') (drop 2 rest);
                      path = dropWhile (\<lambda>c. c \<noteq> CHR ''/'') (drop 2 rest)
                  in if se_authorityOK env authority \<and> escapesOK path
                     then Some (scheme, hostOfAuthority authority) else None)
               else if escapesOK rest then Some (scheme, '''') else None))"

section \<open>Validation\<close>

definition codeAllowed :: "string \<Rightarrow> bool" where
  "codeAllowed s \<longleftrightarrow> s \<noteq> [] \<and> list_all (\<lambda>c. isAlpha c \<or> isDigit c \<or> c = CHR ''_'' \<or> c = CHR ''-'') s"

definition validTarget :: "shortEnv \<Rightarrow> string \<Rightarrow> bool" where
  "validTarget env s = (case parseRequestURI env s of
       None \<Rightarrow> False
     | Some (scheme, host) \<Rightarrow> (scheme = ''http'' \<or> scheme = ''https'') \<and> host \<noteq> '''')"

definition validateCreateShortURLInput :: "shortEnv \<Rightarrow> createShortURLInput \<Rightarrow> (string, string) gomap" where
  "validateCreateShortURLInput env inp =
     (let f1 = (if csi_URL inp = '''' then mput ''url'' ''url is required'' []
                else if \<not> validTarget env (csi_URL inp)
                then mput ''url'' ''url must be a valid absolute http or https URL'' [] else [])
      in if csi_Code inp \<noteq> ''''
         then (if length (csi_Code inp) < 4 \<or> 32 < length (csi_Code inp)
               then mput ''code'' ''code length must be between 4 and 32'' f1
               else if \<not> codeAllowed (csi_Code inp)
               then mput ''code'' ''code must contain only letters, digits, hyphen, underscore'' f1
               else f1)
         else f1)"

definition parseShortCodePathValue :: "request \<Rightarrow> 'd response + string" where
  "parseShortCodePathValue r =
     (let code = trimSpace (lookupStr (req_PathValue r) ''code'')
      in if code = '''' then Inl (respondErrorJSON r 400 (apiErr ''invalid_code'' ''code is required''))
         else if \<not> codeAllowed code
         then Inl (respondErrorJSON r 400 (apiErr ''invalid_code''
                ''code must contain only letters, digits, hyphen, underscore''))
         else Inr code)"

definition generateShortCode :: "shortEnv \<Rightarrow> int64 \<Rightarrow> nat \<Rightarrow> string" where
  "generateShortCode env seed len =
     map (\<lambda>i. shortURLAlphabet ! se_intn env seed (length shortURLAlphabet) i) [0..<len]"

definition respondShortURLRepositoryError :: "request \<Rightarrow> shortURLError \<Rightarrow> 'd response" where
  "respondShortURLRepositoryError r e = (case e of
       ErrShortURLNotFound \<Rightarrow> respondErrorJSON r 404 (apiErr ''not_found'' ''short url not found'')
     | ErrShortURLCodeConflict \<Rightarrow> respondErrorJSON r 409 (apiErr ''code_conflict'' ''short code already exists'')
     | ShortURLRepoError _ \<Rightarrow> respondInternalServerError r)"

definition toShortURLResponse :: "shortURL \<Rightarrow> shortURLResponse" where
  "toShortURLResponse s =
     \<lparr>sr_Code = su_Code s, sr_TargetURL = su_TargetURL s, sr_ShortPath = ''/'' @ su_Code s,
      sr_CreatedAt = fmtRFC3339 (su_CreatedAt s)\<rparr>"

section \<open>Handlers\<close>

definition createShortURL ::
  "shortEnv \<Rightarrow> 's shortURLRepository \<Rightarrow> time \<Rightarrow> time \<Rightarrow> createShortURLInput jsonBody
     \<Rightarrow> ('s, shortURLResponse) handler" where
  "createShortURL env repo t0 t1 body s r = (case decodeJSONBody body of
       Inl _ \<Rightarrow> (respondErrorJSON r 400 invalidJSON, s)
     | Inr inp0 \<Rightarrow>
         let inp = \<lparr>csi_URL = trimSpace (csi_URL inp0), csi_Code = trimSpace (csi_Code inp0)\<rparr>;
             fields = validateCreateShortURLInput env inp
         in if 0 < length fields then (respondErrorJSON r 400 (validationError fields), s)
            else let code = (if csi_Code inp = '''' then generateShortCode env t0 shortURLCodeLength
                             else csi_Code inp)
                 in (case sur_Create repo \<lparr>csr_Code = code, csr_TargetURL = csi_URL inp\<rparr> t1 s of
                       (Inl e, s') \<Rightarrow> (respondShortURLRepositoryError r e, s')
                     | (Inr created, s') \<Rightarrow> (respondJSON r 201 (toShortURLResponse created), s')))"

definition getShortURL :: "'s shortURLRepository \<Rightarrow> ('s, shortURLResponse) handler" where
  "getShortURL repo s r = (case parseShortCodePathValue r of
       Inl res \<Rightarrow> (res, s)
     | Inr code \<Rightarrow> (case sur_Get repo code s of
           (Inl e, s') \<Rightarrow> (respondShortURLRepositoryError r e, s')
         | (Inr item, s') \<Rightarrow> (respondJSON r 200 (toShortURLResponse item), s')))"

text \<open>
  \<open>http.Redirect\<close>: a target with a scheme is used as it is, its bytes outside ASCII escaped; the
  fragment is cut before the scheme is looked for. The HTML body is not modelled.
\<close>

definition hexDigit :: "nat \<Rightarrow> char" where
  "hexDigit n = ''0123456789abcdef'' ! n"

definition hexEscapeNonASCII :: "string \<Rightarrow> string" where
  "hexEscapeNonASCII s = concat (map (\<lambda>c. if 128 \<le> byteOf c
     then [CHR ''%'', hexDigit (byteOf c div 16), hexDigit (byteOf c mod 16)] else [c]) s)"

definition redirectTarget :: "shortEnv \<Rightarrow> request \<Rightarrow> string \<Rightarrow> string" where
  "redirectTarget env r target = (case getSchemeFrom [] (takeWhile (\<lambda>c. c \<noteq> CHR ''#'') target) of
       None \<Rightarrow> target
     | Some (scheme, _) \<Rightarrow> if scheme \<noteq> '''' then target else se_relative env (req_Path r) target)"

definition httpRedirect :: "shortEnv \<Rightarrow> request \<Rightarrow> string \<Rightarrow> 'd response" where
  "httpRedirect env r target =
     \<lparr>res_status = 302,
      res_headers = [(''Location'', hexEscapeNonASCII (redirectTarget env r target)),
        (''Content-Type'', ''text/html; charset=utf-8'')],
      res_body = None\<rparr>"

definition redirectByCode :: "shortEnv \<Rightarrow> 's shortURLRepository \<Rightarrow> ('s, shortURLResponse) handler" where
  "redirectByCode env repo s r = (case parseShortCodePathValue r of
       Inl res \<Rightarrow> (res, s)
     | Inr code \<Rightarrow> (case sur_Get repo code s of
           (Inl e, s') \<Rightarrow> (respondShortURLRepositoryError r e, s')
         | (Inr item, s') \<Rightarrow> (httpRedirect env r (su_TargetURL item), s')))"

section \<open>The in-memory repository\<close>

record memoryShortURLRepository =
  ms_nextID :: int64
  ms_byCode :: "(string, shortURL) gomap"

definition newMemoryShortURLRepository :: memoryShortURLRepository where
  "newMemoryShortURLRepository = \<lparr>ms_nextID = 1, ms_byCode = []\<rparr>"

definition memShort_Create ::
  "createShortURLRepositoryInput \<Rightarrow> time \<Rightarrow> memoryShortURLRepository
     \<Rightarrow> (shortURLError + shortURL) \<times> memoryShortURLRepository" where
  "memShort_Create inp ts s = (case map_of (ms_byCode s) (csr_Code inp) of
       Some _ \<Rightarrow> (Inl ErrShortURLCodeConflict, s)
     | None \<Rightarrow>
         let item = \<lparr>su_ID = ms_nextID s, su_Code = csr_Code inp, su_TargetURL = csr_TargetURL inp,
                su_CreatedAt = ts\<rparr>
         in (Inr item, s\<lparr>ms_byCode := mput (su_Code item) item (ms_byCode s),
               ms_nextID := wrap64 (ms_nextID s + 1)\<rparr>))"

definition memShort_Get ::
  "string \<Rightarrow> memoryShortURLRepository \<Rightarrow> (shortURLError + shortURL) \<times> memoryShortURLRepository" where
  "memShort_Get code s = (case map_of (ms_byCode s) code of
       None \<Rightarrow> (Inl ErrShortURLNotFound, s) | Some item \<Rightarrow> (Inr item, s))"

definition memoryShortRepo :: "memoryShortURLRepository shortURLRepository" where
  "memoryShortRepo = \<lparr>sur_Create = memShort_Create, sur_Get = memShort_Get\<rparr>"

lemmas memShort_defs [repo_defs] = memoryShortRepo_def memShort_Create_def memShort_Get_def

section \<open>Codes and targets\<close>

lemma codeAllowed_no_space: "codeAllowed code \<Longrightarrow> trimSpace code = code"
  by (rule trimSpace_plain) (auto simp: codeAllowed_def list_all_iff isAlpha_def isDigit_def)

lemma alphabet_allowed:
  "list_all (\<lambda>c. isAlpha c \<or> isDigit c \<or> c = CHR ''_'' \<or> c = CHR ''-'') shortURLAlphabet"
  by code_simp

lemma alphabet_length: "length shortURLAlphabet = 62"
  by (simp add: shortURLAlphabet_def)

text \<open>What \<open>rand.Intn\<close> documents: every draw lies below the bound.\<close>

definition intnBounded :: "shortEnv \<Rightarrow> bool" where
  "intnBounded env \<longleftrightarrow> (\<forall>seed n i. 0 < n \<longrightarrow> se_intn env seed n i < n)"

lemma generated_allowed:
  assumes "intnBounded env" and "0 < len"
  shows "codeAllowed (generateShortCode env seed len)" and "length (generateShortCode env seed len) = len"
proof -
  have "shortURLAlphabet ! se_intn env seed (length shortURLAlphabet) i \<in> set shortURLAlphabet" for i
    using assms(1) by (auto simp: intnBounded_def alphabet_length intro!: nth_mem)
  with alphabet_allowed assms(2) show "codeAllowed (generateShortCode env seed len)"
    by (simp add: codeAllowed_def generateShortCode_def list_all_iff)
qed (simp add: generateShortCode_def)

lemma getSchemeFrom_prefix:
  assumes "getSchemeFrom acc s = Some (sch, rest)" and "sch \<noteq> ''''" and "CHR ''#'' \<notin> set acc"
  shows "\<exists>rest'. getSchemeFrom acc (takeWhile (\<lambda>c. c \<noteq> CHR ''#'') s) = Some (sch, rest')"
  using assms
proof (induction acc s rule: getSchemeFrom.induct)
  case (2 acc c cs)
  then have "c \<noteq> CHR ''#''" by (auto simp: isAlpha_def isDigit_def split: if_splits)
  with 2 show ?case by (auto split: if_splits)
qed simp

lemma validTarget_scheme:
  assumes "validTarget env s"
  shows "\<exists>sch rest. getSchemeFrom [] s = Some (sch, rest) \<and> sch \<noteq> ''''"
  using assms
  by (auto simp: validTarget_def parseRequestURI_def Let_def split: option.splits if_splits prod.splits)

lemma redirectTarget_valid: "validTarget env s \<Longrightarrow> redirectTarget env' r s = s"
  using validTarget_scheme [of env s] getSchemeFrom_prefix [of "[]" s]
  by (fastforce simp: redirectTarget_def split: option.splits)

section \<open>The repository contract\<close>

text \<open>One request to any of the three short-URL endpoints.\<close>

inductive shortStep :: "shortEnv \<Rightarrow> 's shortURLRepository \<Rightarrow> 's \<Rightarrow> 's \<Rightarrow> bool"
  for env :: shortEnv and repo :: "'s shortURLRepository" where
  short_create: "shortStep env repo s (snd (createShortURL env repo t0 t1 body s r))"
| short_get: "shortStep env repo s (snd (getShortURL repo s r))"
| short_redirect: "shortStep env repo s (snd (redirectByCode env repo s r))"

inductive_cases shortStep_elim: "shortStep env repo s s'"

abbreviation shortRun :: "shortEnv \<Rightarrow> 's shortURLRepository \<Rightarrow> 's \<Rightarrow> 's \<Rightarrow> bool" where
  "shortRun env repo \<equiv> (shortStep env repo)\<^sup>*\<^sup>*"

locale short_url_repo =
  fixes repo :: "'s shortURLRepository"
    and urlsOf :: "'s \<Rightarrow> string \<Rightarrow> shortURL option"
    and ok :: "'s \<Rightarrow> bool"
    and stamp :: "time \<Rightarrow> time"
  assumes create_url_spec: "ok s \<Longrightarrow> codeAllowed (csr_Code inp) \<Longrightarrow> sur_Create repo inp ts s = (res, s') \<Longrightarrow>
      ok s' \<and> (\<forall>e. res = Inl e \<longrightarrow> urlsOf s' = urlsOf s) \<and>
      (res = Inl ErrShortURLCodeConflict \<longrightarrow> urlsOf s (csr_Code inp) \<noteq> None) \<and>
      (\<forall>item. res = Inr item \<longrightarrow> urlsOf s (csr_Code inp) = None \<and> su_Code item = csr_Code inp \<and>
         su_TargetURL item = csr_TargetURL inp \<and> su_CreatedAt item = stamp ts \<and>
         urlsOf s' = (urlsOf s)(csr_Code inp \<mapsto> item))"
    and get_url_spec: "ok s \<Longrightarrow> sur_Get repo code s = (gres, s') \<Longrightarrow>
      ok s' \<and> urlsOf s' = urlsOf s \<and> (gres = Inl ErrShortURLNotFound \<longrightarrow> urlsOf s code = None) \<and>
      (\<forall>item. gres = Inr item \<longrightarrow> urlsOf s code = Some item)"
begin

definition urlsGood :: "shortEnv \<Rightarrow> 's \<Rightarrow> bool" where
  "urlsGood env s \<longleftrightarrow> ok s \<and> (\<forall>code item. urlsOf s code = Some item \<longrightarrow>
     su_Code item = code \<and> codeAllowed code \<and> 4 \<le> length code \<and> length code \<le> 32 \<and>
     validTarget env (su_TargetURL item))"

lemma create_cases:
  assumes "ok s" and "intnBounded env" and "createShortURL env repo t0 t1 body s r = (res, s')"
  shows "ok s' \<and> (urlsOf s' = urlsOf s \<and> responseData res = None \<or>
     (\<exists>item. urlsOf s (su_Code item) = None \<and> urlsOf s' = (urlsOf s)(su_Code item \<mapsto> item) \<and>
        codeAllowed (su_Code item) \<and> 4 \<le> length (su_Code item) \<and> length (su_Code item) \<le> 32 \<and>
        validTarget env (su_TargetURL item) \<and> res = respondJSON r 201 (toShortURLResponse item)))"
proof (cases "decodeJSONBody body")
  case (Inl e)
  with assms show ?thesis by (auto simp: createShortURL_def)
next
  case (Inr inp0)
  define inp where "inp = \<lparr>csi_URL = trimSpace (csi_URL inp0), csi_Code = trimSpace (csi_Code inp0)\<rparr>"
  define code where "code = (if csi_Code inp = '''' then generateShortCode env t0 shortURLCodeLength
      else csi_Code inp)"
  show ?thesis
  proof (cases "validateCreateShortURLInput env inp")
    case Nil
    obtain cres s1 where c: "sur_Create repo \<lparr>csr_Code = code, csr_TargetURL = csi_URL inp\<rparr> t1 s = (cres, s1)"
      by fastforce
    have r: "res = (case cres of Inl e \<Rightarrow> respondShortURLRepositoryError r e
        | Inr item \<Rightarrow> respondJSON r 201 (toShortURLResponse item))" "s' = s1"
      using assms(3) Inr Nil c
      by (auto simp: createShortURL_def Let_def simp flip: inp_def code_def split: sum.splits)
    have v: "codeAllowed code \<and> 4 \<le> length code \<and> length code \<le> 32 \<and> validTarget env (csi_URL inp)"
      using Nil generated_allowed [OF assms(2), of shortURLCodeLength t0]
      by (auto simp: validateCreateShortURLInput_def code_def Let_def shortURLCodeLength_def
          split: if_splits)
    show ?thesis
      using create_url_spec [OF assms(1) _ c] r v
      by (cases cres) (auto simp: respondShortURLRepositoryError_def split: shortURLError.splits)
  next
    case (Cons f fs)
    with assms Inr show ?thesis by (auto simp: createShortURL_def Let_def simp flip: inp_def)
  qed
qed

lemma read_unchanged:
  assumes "ok s"
  shows "ok (snd (getShortURL repo s r)) \<and> urlsOf (snd (getShortURL repo s r)) = urlsOf s"
    and "ok (snd (redirectByCode env repo s r)) \<and> urlsOf (snd (redirectByCode env repo s r)) = urlsOf s"
  using assms get_url_spec
  by (auto simp: getShortURL_def redirectByCode_def split: sum.splits prod.splits)

lemma shortStep_keeps:
  assumes "shortStep env repo s s'" and "intnBounded env" and "urlsGood env s"
  shows "urlsGood env s' \<and> urlsOf s \<subseteq>\<^sub>m urlsOf s'"
  using assms(1)
proof (cases rule: shortStep.cases)
  case (short_create t0 t1 body r)
  obtain res where "createShortURL env repo t0 t1 body s r = (res, s')"
    using short_create by (metis prod.collapse)
  from create_cases [OF _ assms(2) this] assms(3) show ?thesis
    by (auto simp: urlsGood_def map_le_def split: if_splits)
qed (use assms(3) read_unchanged in \<open>auto simp: urlsGood_def\<close>)

lemma shortRun_keeps:
  assumes "shortRun env repo s s'" and "intnBounded env" and "urlsGood env s"
  shows "urlsGood env s' \<and> urlsOf s \<subseteq>\<^sub>m urlsOf s'"
  using assms
proof (induction rule: rtranclp_induct)
  case (step y z)
  then show ?case using shortStep_keeps map_le_trans by blast
qed simp

lemma lookup_url:
  assumes "urlsGood env s" and "urlsOf s code = Some item"
    and "lookupStr (req_PathValue r) ''code'' = code"
    and "\<And>e s'. sur_Get repo code s \<noteq> (Inl e, s')"
  shows "fst (getShortURL repo s r) = respondJSON r 200 (toShortURLResponse item)"
    and "fst (redirectByCode env' repo s r) = httpRedirect env' r (su_TargetURL item)"
proof -
  have "parseShortCodePathValue r = (Inr code :: shortURLResponse response + string)"
    using assms(1-3)
    by (auto simp: parseShortCodePathValue_def urlsGood_def codeAllowed_no_space codeAllowed_def Let_def)
  moreover obtain s' where "sur_Get repo code s = (Inr item, s')"
    using get_url_spec [of s code] assms by (cases "sur_Get repo code s"; cases "fst (sur_Get repo code s)")
      (auto simp: urlsGood_def)
  ultimately show "fst (getShortURL repo s r) = respondJSON r 200 (toShortURLResponse item)"
    and "fst (redirectByCode env' repo s r) = httpRedirect env' r (su_TargetURL item)"
    using assms(3) by (simp_all add: getShortURL_def redirectByCode_def)
qed

end

definition memShortInv :: "memoryShortURLRepository \<Rightarrow> bool" where
  [inv_defs]: "memShortInv s \<longleftrightarrow> distinct (mkeys (ms_byCode s))"

interpretation memShort: short_url_repo memoryShortRepo "\<lambda>s. map_of (ms_byCode s)" memShortInv id
  by unfold_locales
    (auto simp: memShort_defs memShortInv_def Let_def distinct_mput fun_eq_iff split: option.splits)

lemma memShort_good_new: "memShort.urlsGood env newMemoryShortURLRepository"
  by (simp add: memShort.urlsGood_def memShortInv_def newMemoryShortURLRepository_def)

section \<open>Properties of the shortener on the in-memory repository\<close>

lemma memShort_reads:
  "snd (getShortURL memoryShortRepo s r) = s" "snd (redirectByCode env memoryShortRepo s r) = s"
  by (auto simp: getShortURL_def redirectByCode_def memShort_defs split: sum.splits option.splits)

text \<open>
  C33: a short code keeps its target. When a create request is answered with a short URL, then
  after any further requests to the service the code still reads back as the same record, and
  following it redirects with status 302 to exactly the stored target (bytes outside ASCII
  escaped), whatever the server would do with a relative target. Codes drawn by the generator are
  covered: every one of them is accepted by the path parser.
\<close>

theorem short_url_stable:
  assumes "intnBounded env" and "shortRun env memoryShortRepo newMemoryShortURLRepository s"
    and "createShortURL env memoryShortRepo t0 t1 body s r = (res, s')"
    and "responseData res = Some x" and "shortRun env memoryShortRepo s' s''"
    and "lookupStr (req_PathValue q) ''code'' = sr_Code x"
  shows "getShortURL memoryShortRepo s'' q = (respondJSON q 200 x, s'')
     \<and> res_status (fst (redirectByCode env memoryShortRepo s'' q)) = 302
     \<and> map_of (res_headers (fst (redirectByCode env memoryShortRepo s'' q))) ''Location''
         = Some (hexEscapeNonASCII (sr_TargetURL x))"
proof -
  have good: "memShort.urlsGood env s"
    using memShort.shortRun_keeps [OF assms(2,1) memShort_good_new] by simp
  then have "memShortInv s" by (simp add: memShort.urlsGood_def)
  from memShort.create_cases [OF this assms(1,3)] assms(4) obtain item
    where "map_of (ms_byCode s') = (map_of (ms_byCode s))(su_Code item \<mapsto> item)"
      and "x = toShortURLResponse item"
    by auto
  then have item: "map_of (ms_byCode s') (su_Code item) = Some item" "x = toShortURLResponse item"
    by simp_all
  have "shortStep env memoryShortRepo s s'"
    using short_create [of env memoryShortRepo s t0 t1 body r] assms(3) by simp
  with assms(5) have run: "shortRun env memoryShortRepo s s''" by simp
  have good'': "memShort.urlsGood env s''"
    using memShort.shortRun_keeps [OF run assms(1) good] by simp
  have "memShort.urlsGood env s'"
    using memShort.shortStep_keeps [OF \<open>shortStep env memoryShortRepo s s'\<close> assms(1) good] by simp
  from memShort.shortRun_keeps [OF assms(5,1) this] item(1)
  have i'': "map_of (ms_byCode s'') (su_Code item) = Some item"
    by (auto simp: map_le_def dom_def)
  have "sur_Get memoryShortRepo (su_Code item) s'' \<noteq> (Inl e, u)" for e u
    using i'' by (simp add: memShort_defs)
  note l = memShort.lookup_url(1) [OF good'' i'' _ this, of q]
    memShort.lookup_url(2) [OF good'' i'' _ this, of q env]
  have "redirectTarget env q (su_TargetURL item) = su_TargetURL item"
    by (rule redirectTarget_valid [of env]) (use good'' i'' in \<open>simp add: memShort.urlsGood_def\<close>)
  with l show ?thesis
    using assms(6) item(2) memShort_reads(1) [of s'' q]
    by (cases "getShortURL memoryShortRepo s'' q") (simp add: toShortURLResponse_def httpRedirect_def)
qed

text \<open>
  A code that is taken is refused. A valid create request that names an existing code is
  answered with 409 and error code \<open>code_conflict\<close> and changes nothing.
\<close>

theorem short_url_conflict:
  assumes "map_of (ms_byCode s) (trimSpace c) = Some item" and "trimSpace c \<noteq> ''''"
    and "validateCreateShortURLInput env \<lparr>csi_URL = trimSpace u, csi_Code = trimSpace c\<rparr> = []"
  shows "createShortURL env memoryShortRepo t0 t1 (okBody \<lparr>csi_URL = u, csi_Code = c\<rparr>) s r
     = (respondErrorJSON r 409 (apiErr ''code_conflict'' ''short code already exists''), s)"
  using assms by (simp add: createShortURL_def Let_def memShort_defs respondShortURLRepositoryError_def)

text \<open>Shortening one address under a chosen code, with a constant generator.\<close>

definition demoShortEnv :: shortEnv where
  "demoShortEnv = \<lparr>se_authorityOK = (\<lambda>a. True), se_intn = (\<lambda>seed n i. 0), se_relative = (\<lambda>p t. p)\<rparr>"

definition demoShortInput :: createShortURLInput where
  "demoShortInput = \<lparr>csi_URL = ''https://go.dev/doc'', csi_Code = ''godoc''\<rparr>"

definition demoShortURL :: shortURL where
  "demoShortURL = \<lparr>su_ID = 1, su_Code = ''godoc'', su_TargetURL = ''https://go.dev/doc'', su_CreatedAt = 0\<rparr>"

definition demoShorts :: memoryShortURLRepository where
  "demoShorts = \<lparr>ms_nextID = 2, ms_byCode = [(''godoc'', demoShortURL)]\<rparr>"

definition demoCodeRequest :: request where
  "demoCodeRequest = demoRequest\<lparr>req_PathValue := [(''code'', ''godoc'')]\<rparr>"

lemma demoShort_trim: "trimSpace ''https://go.dev/doc'' = ''https://go.dev/doc''" "trimSpace ''godoc'' = ''godoc''"
  by code_simp+

lemma demoShort_valid:
  "validateCreateShortURLInput demoShortEnv \<lparr>csi_URL = ''https://go.dev/doc'', csi_Code = ''godoc''\<rparr> = []"
  by code_simp

lemma demoShort_created:
  "createShortURL demoShortEnv memoryShortRepo 0 0 (okBody demoShortInput) newMemoryShortURLRepository demoRequest
     = (respondJSON demoRequest 201 (toShortURLResponse demoShortURL), demoShorts)"
  by (simp add: createShortURL_def demoShortInput_def demoShort_trim demoShort_valid Let_def memShort_defs
      newMemoryShortURLRepository_def demoShorts_def demoShortURL_def in64_def)

lemma demoShortEnv_bounded: "intnBounded demoShortEnv"
  by (simp add: intnBounded_def demoShortEnv_def)

theorem short_url_stable_witness:
  "getShortURL memoryShortRepo demoShorts demoCodeRequest
     = (respondJSON demoCodeRequest 200 (toShortURLResponse demoShortURL), demoShorts)
   \<and> res_status (fst (redirectByCode demoShortEnv memoryShortRepo demoShorts demoCodeRequest)) = 302
   \<and> map_of (res_headers (fst (redirectByCode demoShortEnv memoryShortRepo demoShorts demoCodeRequest))) ''Location''
       = Some (hexEscapeNonASCII ''https://go.dev/doc'')"
  using short_url_stable [OF demoShortEnv_bounded rtranclp.rtrancl_refl demoShort_created _
      rtranclp.rtrancl_refl, of "toShortURLResponse demoShortURL" demoCodeRequest]
  by (simp add: demoCodeRequest_def lookupStr_def toShortURLResponse_def demoShortURL_def)

theorem short_url_conflict_witness:
  "createShortURL demoShortEnv memoryShortRepo 0 0
      (okBody \<lparr>csi_URL = ''https://go.dev/doc'', csi_Code = ''godoc''\<rparr>) demoShorts demoRequest
     = (respondErrorJSON demoRequest 409 (apiErr ''code_conflict'' ''short code already exists''), demoShorts)"
  by (rule short_url_conflict [of _ _ demoShortURL])
    (simp_all add: demoShort_trim demoShort_valid demoShorts_def)

end
