(* ===== verification/EventPipe.thy ===== *)
theory EventPipe
  imports GoTime
begin

text \<open>
  The event pipeline of \<open>internal/eventpipe/pipeline.go\<close>: the outbox publisher, the stream consumer
  and the projection handler, each over the interfaces the code gives them. The Postgres and
  Redis sides of the interfaces are modelled in \<open>PgEvents\<close> and \<open>RedisBroker\<close>.

  An interface is a record of its methods over a state; a Go \<open>error\<close> result is \<open>string option\<close>.
  The publisher reads the clock once per event, the consumer up to twice (for the projection and
  for the dead letter), so the loops take the readings as a function of the position in the batch. \<open>json.Unmarshal\<close> into \<open>OrderCreatedEvent\<close> is the parameter \<open>unmarshal\<close>. Log output
  is not modelled.
\<close>

section \<open>Publisher\<close>

record outboxEvent =
  oe_ID :: int64
  oe_EventType :: string
  oe_AggregateType :: string
  oe_AggregateID :: int64
  oe_Payload :: string
  oe_TraceID :: string
  oe_CorrelationID :: string
  oe_Attempts :: int

record 'r outboxRepository =
  or_FetchPending :: "int \<Rightarrow> time \<Rightarrow> 'r \<Rightarrow> (string + outboxEvent list) \<times> 'r"
  or_MarkPublished :: "int64 \<Rightarrow> time \<Rightarrow> 'r \<Rightarrow> string option \<times> 'r"
  or_MarkRetry :: "int64 \<Rightarrow> int \<Rightarrow> time \<Rightarrow> string \<Rightarrow> 'r \<Rightarrow> string option \<times> 'r"
  or_MarkDead :: "int64 \<Rightarrow> int \<Rightarrow> string \<Rightarrow> 'r \<Rightarrow> string option \<times> 'r"

record brokerMessage =
  bm_Key :: string
  bm_Payload :: string
  bm_TraceID :: string
  bm_CorrelationID :: string

type_synonym 'b brokerPublisher = "string \<Rightarrow> brokerMessage \<Rightarrow> 'b \<Rightarrow> string option \<times> 'b"

record publisherConfig =
  pc_Topic :: string
  pc_BatchSize :: int
  pc_MaxAttempts :: int
  pc_BaseBackoff :: duration
  pc_PollInterval :: duration
  pc_ServiceName :: string
  pc_DisableTicker :: bool

definition newPublisher :: "publisherConfig \<Rightarrow> publisherConfig" where
  "newPublisher cfg =
     (let c1 = (if pc_Topic cfg = '''' then cfg\<lparr>pc_Topic := ''orders.events''\<rparr> else cfg);
          c2 = (if pc_BatchSize c1 \<le> 0 then c1\<lparr>pc_BatchSize := 100\<rparr> else c1);
          c3 = (if pc_MaxAttempts c2 \<le> 0 then c2\<lparr>pc_MaxAttempts := 8\<rparr> else c2);
          c4 = (if pc_BaseBackoff c3 \<le> 0 then c3\<lparr>pc_BaseBackoff := 500 * millisecond\<rparr> else c3);
          c5 = (if pc_PollInterval c4 \<le> 0 then c4\<lparr>pc_PollInterval := second\<rparr> else c4)
      in if pc_ServiceName c5 = '''' then c5\<lparr>pc_ServiceName := ''outbox-publisher''\<rparr> else c5)"

definition minInt :: "int \<Rightarrow> int \<Rightarrow> int" where
  "minInt a b = (if a < b then a else b)"

text \<open>\<open>BaseBackoff * time.Duration(1 << min(nextAttempts - 1, 8))\<close>, an int64 product.\<close>

definition backoffOf :: "publisherConfig \<Rightarrow> int \<Rightarrow> duration" where
  "backoffOf cfg nextAttempts = wrap64 (pc_BaseBackoff cfg * 2 ^ nat (minInt (nextAttempts - 1) 8))"

definition messageOf :: "outboxEvent \<Rightarrow> brokerMessage" where
  "messageOf ev = \<lparr>bm_Key = oe_AggregateType ev @ '':'' @ fmtD (oe_AggregateID ev),
     bm_Payload = oe_Payload ev, bm_TraceID = oe_TraceID ev, bm_CorrelationID = oe_CorrelationID ev\<rparr>"

text \<open>One round of the publishing loop: the error that ends the loop, if any.\<close>

definition publishOne ::
  "publisherConfig \<Rightarrow> 'r outboxRepository \<Rightarrow> 'b brokerPublisher \<Rightarrow> time \<Rightarrow> outboxEvent \<Rightarrow> 'r \<times> 'b
     \<Rightarrow> string option \<times> 'r \<times> 'b" where
  "publishOne cfg repo publish now ev rb =
     (let (r, b) = rb in
      (case publish (pc_Topic cfg) (messageOf ev) b of
         (Some err, b') \<Rightarrow>
           let nextAttempts = oe_Attempts ev + 1
           in if pc_MaxAttempts cfg \<le> nextAttempts
              then (case or_MarkDead repo (oe_ID ev) nextAttempts err r of (e, r') \<Rightarrow> (e, r', b'))
              else (case or_MarkRetry repo (oe_ID ev) nextAttempts (now + backoffOf cfg nextAttempts) err r of
                 (e, r') \<Rightarrow> (e, r', b'))
       | (None, b') \<Rightarrow> (case or_MarkPublished repo (oe_ID ev) now r of (e, r') \<Rightarrow> (e, r', b'))))"

fun publishLoop ::
  "publisherConfig \<Rightarrow> 'r outboxRepository \<Rightarrow> 'b brokerPublisher \<Rightarrow> (nat \<Rightarrow> time) \<Rightarrow> nat \<Rightarrow> outboxEvent list
     \<Rightarrow> 'r \<times> 'b \<Rightarrow> (nat \<times> string option) \<times> 'r \<times> 'b" where
  "publishLoop cfg repo publish nowOf processed [] rb = ((processed, None), rb)"
| "publishLoop cfg repo publish nowOf processed (ev # evs) rb =
     (case publishOne cfg repo publish (nowOf processed) ev rb of
        (Some e, rb') \<Rightarrow> ((processed, Some e), rb')
      | (None, rb') \<Rightarrow> publishLoop cfg repo publish nowOf (processed + 1) evs rb')"

definition publisherRunOnce ::
  "publisherConfig \<Rightarrow> 'r outboxRepository \<Rightarrow> 'b brokerPublisher \<Rightarrow> time \<Rightarrow> (nat \<Rightarrow> time) \<Rightarrow> 'r \<times> 'b
     \<Rightarrow> (nat \<times> string option) \<times> 'r \<times> 'b" where
  "publisherRunOnce cfg repo publish now nowOf rb =
     (case or_FetchPending repo (pc_BatchSize cfg) now (fst rb) of
        (Inl e, r') \<Rightarrow> ((0, Some e), (r', snd rb))
      | (Inr evs, r') \<Rightarrow> publishLoop cfg repo publish nowOf 0 evs (r', snd rb))"

text \<open>
  \<open>Run\<close> with a ticker: one round per element of \<open>rounds\<close>, which holds the clock readings of the
  round and whether the context is cancelled while waiting for the next tick.
\<close>

fun publisherRun ::
  "publisherConfig \<Rightarrow> 'r outboxRepository \<Rightarrow> 'b brokerPublisher \<Rightarrow> (time \<times> (nat \<Rightarrow> time) \<times> bool) list \<Rightarrow> 'r \<times> 'b
     \<Rightarrow> string option option \<times> 'r \<times> 'b" where
  "publisherRun cfg repo publish [] rb = (None, rb)"
| "publisherRun cfg repo publish ((now, nowOf, cancelled) # rounds) rb =
     (case publisherRunOnce cfg repo publish now nowOf rb of
        ((_, err), rb') \<Rightarrow>
          if pc_DisableTicker cfg then (Some err, rb')
          else if err \<noteq> None then (Some err, rb')
          else if cancelled then (Some (Some ''context canceled''), rb')
          else publisherRun cfg repo publish rounds rb')"

section \<open>Consumer\<close>

record brokerConsumedMessage =
  cm_ID :: string
  cm_Payload :: string
  cm_TraceID :: string
  cm_CorrelationID :: string

record 'b brokerConsumer =
  bc_Read :: "string \<Rightarrow> string \<Rightarrow> string \<Rightarrow> int \<Rightarrow> duration \<Rightarrow> 'b \<Rightarrow> (string + brokerConsumedMessage list) \<times> 'b"
  bc_Ack :: "string \<Rightarrow> string \<Rightarrow> string list \<Rightarrow> 'b \<Rightarrow> string option \<times> 'b"

record dlqEntry =
  dlq_Stream :: string
  dlq_MessageID :: string
  dlq_Payload :: string
  dlq_ErrText :: string
  dlq_Attempts :: int
  dlq_TraceID :: string
  dlq_CorrelationID :: string
  dlq_CreatedAt :: time

type_synonym 'd dlqRepository = "dlqEntry \<Rightarrow> 'd \<Rightarrow> string option \<times> 'd"
type_synonym 'd eventHandler = "time \<Rightarrow> string \<Rightarrow> 'd \<Rightarrow> string option \<times> 'd"

record consumerConfig =
  cc_Stream :: string
  cc_Group :: string
  cc_ConsumerName :: string
  cc_ReadCount :: int
  cc_BlockTimeout :: duration
  cc_MaxAttempts :: int
  cc_ServiceName :: string

definition newConsumer :: "consumerConfig \<Rightarrow> consumerConfig" where
  "newConsumer cfg =
     (let c1 = (if cc_Stream cfg = '''' then cfg\<lparr>cc_Stream := ''orders.events''\<rparr> else cfg);
          c2 = (if cc_Group c1 = '''' then c1\<lparr>cc_Group := ''orders-consumers''\<rparr> else c1);
          c3 = (if cc_ConsumerName c2 = '''' then c2\<lparr>cc_ConsumerName := ''consumer-1''\<rparr> else c2);
          c4 = (if cc_ReadCount c3 \<le> 0 then c3\<lparr>cc_ReadCount := 50\<rparr> else c3);
          c5 = (if cc_BlockTimeout c4 \<le> 0 then c4\<lparr>cc_BlockTimeout := 2 * second\<rparr> else c4);
          c6 = (if cc_MaxAttempts c5 \<le> 0 then c5\<lparr>cc_MaxAttempts := 5\<rparr> else c5)
      in if cc_ServiceName c6 = '''' then c6\<lparr>cc_ServiceName := ''event-consumer''\<rparr> else c6)"

text \<open>The consumer's own state is the map of attempts by message id.\<close>

type_synonym attemptsMap = "(string, int) gomap"

definition attemptsOf :: "attemptsMap \<Rightarrow> string \<Rightarrow> int" where
  "attemptsOf m i = (case map_of m i of None \<Rightarrow> 0 | Some n \<Rightarrow> n)"

definition consumeOne ::
  "consumerConfig \<Rightarrow> 'b brokerConsumer \<Rightarrow> 'd dlqRepository \<Rightarrow> 'd eventHandler \<Rightarrow> time \<times> time \<Rightarrow> brokerConsumedMessage
     \<Rightarrow> attemptsMap \<times> 'b \<times> 'd \<Rightarrow> string option \<times> attemptsMap \<times> 'b \<times> 'd" where
  "consumeOne cfg broker dlq handle now m st =
     (let (att, b, d) = st;
          n = attemptsOf att (cm_ID m) + 1;
          att1 = mput (cm_ID m) n att
      in (case handle (fst now) (cm_Payload m) d of
            (None, d1) \<Rightarrow> (case bc_Ack broker (cc_Stream cfg) (cc_Group cfg) [cm_ID m] b of
                (Some e, b1) \<Rightarrow> (Some e, att1, b1, d1)
              | (None, b1) \<Rightarrow> (None, mdel (cm_ID m) att1, b1, d1))
          | (Some err, d1) \<Rightarrow>
              if cc_MaxAttempts cfg \<le> n then
                (case dlq \<lparr>dlq_Stream = cc_Stream cfg, dlq_MessageID = cm_ID m, dlq_Payload = cm_Payload m,
                        dlq_ErrText = err, dlq_Attempts = n, dlq_TraceID = cm_TraceID m,
                        dlq_CorrelationID = cm_CorrelationID m, dlq_CreatedAt = snd now\<rparr> d1 of
                   (Some e, d2) \<Rightarrow> (Some e, att1, b, d2)
                 | (None, d2) \<Rightarrow> (case bc_Ack broker (cc_Stream cfg) (cc_Group cfg) [cm_ID m] b of
                       (Some e, b1) \<Rightarrow> (Some e, att1, b1, d2)
                     | (None, b1) \<Rightarrow> (None, mdel (cm_ID m) att1, b1, d2)))
              else (None, att1, b, d1)))"

fun consumeLoop ::
  "consumerConfig \<Rightarrow> 'b brokerConsumer \<Rightarrow> 'd dlqRepository \<Rightarrow> 'd eventHandler \<Rightarrow> (nat \<Rightarrow> time \<times> time) \<Rightarrow> nat
     \<Rightarrow> brokerConsumedMessage list \<Rightarrow> attemptsMap \<times> 'b \<times> 'd \<Rightarrow> (nat \<times> string option) \<times> attemptsMap \<times> 'b \<times> 'd" where
  "consumeLoop cfg broker dlq handle nowOf cnt [] st = ((cnt, None), st)"
| "consumeLoop cfg broker dlq handle nowOf cnt (m # ms) st =
     (case consumeOne cfg broker dlq handle (nowOf cnt) m st of
        (Some e, st') \<Rightarrow> ((cnt, Some e), st')
      | (None, st') \<Rightarrow> consumeLoop cfg broker dlq handle nowOf (cnt + 1) ms st')"

definition consumerRunOnce ::
  "consumerConfig \<Rightarrow> 'b brokerConsumer \<Rightarrow> 'd dlqRepository \<Rightarrow> 'd eventHandler \<Rightarrow> (nat \<Rightarrow> time \<times> time)
     \<Rightarrow> attemptsMap \<times> 'b \<times> 'd \<Rightarrow> (nat \<times> string option) \<times> attemptsMap \<times> 'b \<times> 'd" where
  "consumerRunOnce cfg broker dlq handle nowOf st =
     (let (att, b, d) = st in
      (case bc_Read broker (cc_Stream cfg) (cc_Group cfg) (cc_ConsumerName cfg) (cc_ReadCount cfg)
              (cc_BlockTimeout cfg) b of
         (Inl e, b') \<Rightarrow> ((0, Some e), att, b', d)
       | (Inr ms, b') \<Rightarrow> consumeLoop cfg broker dlq handle nowOf 0 ms (att, b', d)))"

section \<open>Projection handler\<close>

record orderCreatedEvent =
  oc_OrderID :: int64
  oc_UserID :: int64
  oc_Status :: string
  oc_TotalCents :: int64
  oc_PaymentStatus :: string
  oc_CorrelationID :: string
  oc_OccurredAt :: string

type_synonym 'd projectionRepository = "orderCreatedEvent \<Rightarrow> time \<Rightarrow> 'd \<Rightarrow> string option \<times> 'd"

definition projectionHandle ::
  "(string \<Rightarrow> string + orderCreatedEvent) \<Rightarrow> 'd projectionRepository \<Rightarrow> 'd eventHandler" where
  "projectionHandle unmarshal upsert now payload d = (case unmarshal payload of
       Inl e \<Rightarrow> (Some e, d)
     | Inr e \<Rightarrow> if oc_OrderID e \<le> 0 then (Some ''invalid order_id'', d) else upsert e now d)"

section \<open>Backoff\<close>

lemma minInt_min: "minInt a b = min a b"
  by (simp add: minInt_def min_def)

text \<open>
  C40: the retry delay grows by doubling and is bounded. For a base delay that is positive and at
  most \<open>2^54\<close> nanoseconds (about 208 days), the delay before attempt \<open>n + 1\<close> is the base times
  \<open>2^(n - 1)\<close>, capped at 256 times the base: it never wraps around, never decreases with the number
  of attempts, and is at least the base.
\<close>

theorem backoff_bounded:
  assumes "0 < pc_BaseBackoff cfg" and "pc_BaseBackoff cfg \<le> 2 ^ 54" and "1 \<le> n" and "n \<le> m"
  shows "backoffOf cfg n = pc_BaseBackoff cfg * 2 ^ nat (min (n - 1) 8)
     \<and> pc_BaseBackoff cfg \<le> backoffOf cfg n \<and> backoffOf cfg n \<le> backoffOf cfg m
     \<and> backoffOf cfg m \<le> 256 * pc_BaseBackoff cfg"
proof -
  have exact: "backoffOf cfg k = pc_BaseBackoff cfg * 2 ^ nat (min (k - 1) 8)"
    and upper: "pc_BaseBackoff cfg * 2 ^ nat (min (k - 1) 8) \<le> 256 * pc_BaseBackoff cfg" for k
  proof -
    have "(2 :: int) ^ nat (min (k - 1) 8) \<le> 2 ^ 8" by (rule power_increasing) auto
    then show "pc_BaseBackoff cfg * 2 ^ nat (min (k - 1) 8) \<le> 256 * pc_BaseBackoff cfg"
      using assms(1) mult_left_mono [of "2 ^ nat (min (k - 1) 8)" 256 "pc_BaseBackoff cfg"] by simp
    moreover have "0 \<le> pc_BaseBackoff cfg * 2 ^ nat (min (k - 1) 8)" using assms(1) by simp
    ultimately have "in64 (pc_BaseBackoff cfg * 2 ^ nat (min (k - 1) 8))"
      using assms(2) by (simp add: in64_def)
    then show "backoffOf cfg k = pc_BaseBackoff cfg * 2 ^ nat (min (k - 1) 8)"
      by (simp add: backoffOf_def minInt_min)
  qed
  have "(2 :: int) ^ nat (min (n - 1) 8) \<le> 2 ^ nat (min (m - 1) 8)"
    by (rule power_increasing) (use assms(3,4) in auto)
  then have "backoffOf cfg n \<le> backoffOf cfg m"
    unfolding exact using assms(1) by (simp add: mult_left_mono)
  moreover have "pc_BaseBackoff cfg \<le> backoffOf cfg n"
    unfolding exact using assms(1) mult_left_mono [of 1 "2 ^ nat (min (n - 1) 8)" "pc_BaseBackoff cfg"] by simp
  ultimately show ?thesis using exact upper [of m] by simp
qed

section \<open>The outbox contract\<close>

record outboxRow =
  ob_event :: outboxEvent
  ob_status :: string
  ob_nextAttemptAt :: time
  ob_lastError :: string
  ob_publishedAt :: "time option"

definition rowPublished :: "time \<Rightarrow> outboxRow \<Rightarrow> outboxRow" where
  "rowPublished ts row = row\<lparr>ob_status := ''published'', ob_publishedAt := Some ts,
     ob_event := (ob_event row)\<lparr>oe_Attempts := oe_Attempts (ob_event row) + 1\<rparr>, ob_lastError := ''''\<rparr>"

definition rowRetry :: "int \<Rightarrow> time \<Rightarrow> string \<Rightarrow> outboxRow \<Rightarrow> outboxRow" where
  "rowRetry n ts err row = row\<lparr>ob_status := ''pending'', ob_event := (ob_event row)\<lparr>oe_Attempts := n\<rparr>,
     ob_nextAttemptAt := ts, ob_lastError := err\<rparr>"

definition rowDead :: "int \<Rightarrow> string \<Rightarrow> outboxRow \<Rightarrow> outboxRow" where
  "rowDead n err row = row\<lparr>ob_status := ''dead'', ob_event := (ob_event row)\<lparr>oe_Attempts := n\<rparr>,
     ob_lastError := err\<rparr>"

definition updRow :: "(int64 \<Rightarrow> outboxRow option) \<Rightarrow> int64 \<Rightarrow> (outboxRow \<Rightarrow> outboxRow) \<Rightarrow> int64 \<Rightarrow> outboxRow option" where
  "updRow m i f = m(i := map_option f (m i))"

text \<open>What is documented of a broker: an accepted message is in its log, which only grows.\<close>

definition logsAccepted :: "'b brokerPublisher \<Rightarrow> ('b \<Rightarrow> brokerMessage list) \<Rightarrow> bool" where
  "logsAccepted publish logOf \<longleftrightarrow> (\<forall>topic m b e b'. publish topic m b = (e, b') \<longrightarrow>
     prefix (logOf b) (logOf b') \<and> (e = None \<longrightarrow> m \<in> set (logOf b')))"

definition rowGood :: "publisherConfig \<Rightarrow> brokerMessage set \<Rightarrow> int64 \<Rightarrow> outboxRow \<Rightarrow> bool" where
  "rowGood cfg sent i row \<longleftrightarrow> oe_ID (ob_event row) = i \<and>
     (ob_status row = ''pending'' \<and> oe_Attempts (ob_event row) < pc_MaxAttempts cfg
      \<or> ob_status row = ''published'' \<and> messageOf (ob_event row) \<in> sent
      \<or> ob_status row = ''dead'' \<and> pc_MaxAttempts cfg \<le> oe_Attempts (ob_event row))"

definition sameRows :: "(int64 \<Rightarrow> outboxRow option) \<Rightarrow> (int64 \<Rightarrow> outboxRow option) \<Rightarrow> bool" where
  "sameRows m m' \<longleftrightarrow> (\<forall>i. (m i = None \<longleftrightarrow> m' i = None) \<and>
     (\<forall>row row'. m i = Some row \<longrightarrow> m' i = Some row' \<longrightarrow> messageOf (ob_event row') = messageOf (ob_event row)))"

lemma messageOf_attempts [simp]: "messageOf (ev\<lparr>oe_Attempts := n\<rparr>) = messageOf ev"
  by (simp add: messageOf_def)

lemma sameRows_refl [simp]: "sameRows m m"
  by (simp add: sameRows_def)

lemma sameRows_trans: "sameRows m m' \<Longrightarrow> sameRows m' m'' \<Longrightarrow> sameRows m m''"
  unfolding sameRows_def by (metis not_Some_eq)

lemma sameRows_upd: "(\<And>row. messageOf (ob_event (f row)) = messageOf (ob_event row)) \<Longrightarrow> sameRows m (updRow m i f)"
  by (auto simp: sameRows_def updRow_def)

locale outbox_repo =
  fixes repo :: "'r outboxRepository"
    and rowsOf :: "'r \<Rightarrow> int64 \<Rightarrow> outboxRow option"
    and ok :: "'r \<Rightarrow> bool"
    and stamp :: "time \<Rightarrow> time"
  assumes fetch_spec: "ok r \<Longrightarrow> or_FetchPending repo bound now r = (res, r') \<Longrightarrow>
      ok r' \<and> rowsOf r' = rowsOf r \<and> (\<forall>evs. res = Inr evs \<longrightarrow>
        sorted_wrt (\<lambda>a b. oe_ID a < oe_ID b) evs \<and> (0 \<le> bound \<longrightarrow> int (length evs) \<le> bound) \<and>
        (\<forall>ev \<in> set evs. \<exists>row. rowsOf r (oe_ID ev) = Some row \<and> ob_event row = ev \<and> ob_status row = ''pending''))"
    and published_spec: "ok r \<Longrightarrow> or_MarkPublished repo i ts r = (e, r') \<Longrightarrow>
      ok r' \<and> rowsOf r' = (if e = None then updRow (rowsOf r) i (rowPublished (stamp ts)) else rowsOf r)"
    and retry_spec: "ok r \<Longrightarrow> or_MarkRetry repo i n ts err r = (e, r') \<Longrightarrow>
      ok r' \<and> rowsOf r' = (if e = None then updRow (rowsOf r) i (rowRetry n (stamp ts) err) else rowsOf r)"
    and dead_spec: "ok r \<Longrightarrow> or_MarkDead repo i n err r = (e, r') \<Longrightarrow>
      ok r' \<and> rowsOf r' = (if e = None then updRow (rowsOf r) i (rowDead n err) else rowsOf r)"
begin

definition outboxGood :: "publisherConfig \<Rightarrow> brokerMessage set \<Rightarrow> 'r \<Rightarrow> bool" where
  "outboxGood cfg sent r \<longleftrightarrow> ok r \<and> (\<forall>i row. rowsOf r i = Some row \<longrightarrow> rowGood cfg sent i row)"

lemma outboxGood_mono: "outboxGood cfg sent r \<Longrightarrow> sent \<subseteq> sent' \<Longrightarrow> outboxGood cfg sent' r"
  unfolding outboxGood_def rowGood_def by blast

lemma outboxGood_upd:
  assumes "outboxGood cfg sent r" and "ok r'" and "rowsOf r' = updRow (rowsOf r) i f"
    and "\<And>row. rowsOf r i = Some row \<Longrightarrow> rowGood cfg sent i (f row)"
  shows "outboxGood cfg sent r'"
  using assms unfolding outboxGood_def updRow_def by (auto split: if_splits)

lemma publishOne_keeps:
  assumes good: "outboxGood cfg (set (logOf b)) r" and log: "logsAccepted publish logOf"
    and row: "rowsOf r (oe_ID ev) = Some row" "ob_event row = ev"
    and run: "publishOne cfg repo publish now ev (r, b) = (e, r', b')"
  shows "outboxGood cfg (set (logOf b')) r' \<and> set (logOf b) \<subseteq> set (logOf b') \<and> sameRows (rowsOf r) (rowsOf r') \<and>
     (\<forall>i. i \<noteq> oe_ID ev \<longrightarrow> rowsOf r' i = rowsOf r i)"
proof -
  obtain pe where p: "publish (pc_Topic cfg) (messageOf ev) b = (pe, b')"
    using run by (auto simp: publishOne_def Let_def split: prod.splits option.splits if_splits)
  have sub: "set (logOf b) \<subseteq> set (logOf b')" and sent: "pe = None \<Longrightarrow> messageOf ev \<in> set (logOf b')"
    using log p unfolding logsAccepted_def by (metis set_mono_prefix)+
  have good': "outboxGood cfg (set (logOf b')) r" using outboxGood_mono [OF good sub] .
  then have ok: "ok r" and id: "oe_ID ev = oe_ID (ob_event row)" using row by (simp_all add: outboxGood_def)
  show ?thesis
  proof (cases pe)
    case None
    then have m: "or_MarkPublished repo (oe_ID ev) now r = (e, r')"
      using run p by (auto simp: publishOne_def split: prod.splits)
    note spec = published_spec [OF ok m]
    show ?thesis
    proof (cases e)
      case None
      have "outboxGood cfg (set (logOf b')) r'"
        by (rule outboxGood_upd [OF good', of _ "oe_ID ev" "rowPublished (stamp now)"])
          (use spec None sent \<open>pe = None\<close> row in \<open>auto simp: rowGood_def rowPublished_def\<close>)
      with spec None sub show ?thesis
        by (auto simp: updRow_def [of _ "oe_ID ev" "rowPublished (stamp now)", symmetric] rowPublished_def
            intro!: sameRows_upd) (simp add: updRow_def)
    qed (use spec good' sub in \<open>simp add: outboxGood_def\<close>)
  next
    case (Some err)
    let ?n = "oe_Attempts ev + 1"
    consider (dead) "pc_MaxAttempts cfg \<le> ?n" "or_MarkDead repo (oe_ID ev) ?n err r = (e, r')"
      | (retry) "\<not> pc_MaxAttempts cfg \<le> ?n"
          "or_MarkRetry repo (oe_ID ev) ?n (now + backoffOf cfg ?n) err r = (e, r')"
      using run p Some by (auto simp: publishOne_def Let_def split: prod.splits if_splits)
    then show ?thesis
    proof cases
      case dead
      note spec = dead_spec [OF ok dead(2)]
      show ?thesis
      proof (cases e)
        case None
        have "outboxGood cfg (set (logOf b')) r'"
          by (rule outboxGood_upd [OF good', of _ "oe_ID ev" "rowDead ?n err"])
            (use spec None dead(1) row in \<open>auto simp: rowGood_def rowDead_def\<close>)
        with spec None sub show ?thesis
          by (auto simp: rowDead_def intro!: sameRows_upd) (simp add: updRow_def)
      qed (use spec good' sub in \<open>simp add: outboxGood_def\<close>)
    next
      case retry
      note spec = retry_spec [OF ok retry(2)]
      show ?thesis
      proof (cases e)
        case None
        have "outboxGood cfg (set (logOf b')) r'"
          by (rule outboxGood_upd [OF good', of _ "oe_ID ev" "rowRetry ?n (stamp (now + backoffOf cfg ?n)) err"])
            (use spec None retry(1) row in \<open>auto simp: rowGood_def rowRetry_def\<close>)
        with spec None sub show ?thesis
          by (auto simp: rowRetry_def intro!: sameRows_upd) (simp add: updRow_def)
      qed (use spec good' sub in \<open>simp add: outboxGood_def\<close>)
    qed
  qed
qed

lemma publishLoop_keeps:
  assumes "outboxGood cfg (set (logOf b)) r" and "logsAccepted publish logOf"
    and "sorted_wrt (\<lambda>a b. oe_ID a < oe_ID b) evs"
    and "\<And>ev. ev \<in> set evs \<Longrightarrow> \<exists>row. rowsOf r (oe_ID ev) = Some row \<and> ob_event row = ev"
    and "publishLoop cfg repo publish nowOf n evs (r, b) = (out, r', b')"
  shows "outboxGood cfg (set (logOf b')) r' \<and> set (logOf b) \<subseteq> set (logOf b') \<and> sameRows (rowsOf r) (rowsOf r')"
  using assms
proof (induction evs arbitrary: n r b)
  case Nil
  then show ?case by auto
next
  case (Cons ev evs)
  obtain e r1 b1 where one: "publishOne cfg repo publish (nowOf n) ev (r, b) = (e, r1, b1)" by (metis prod.exhaust)
  obtain row where row: "rowsOf r (oe_ID ev) = Some row" "ob_event row = ev" using Cons.prems(4) by auto
  note k = publishOne_keeps [OF Cons.prems(1,2) row one]
  show ?case
  proof (cases e)
    case (Some x)
    then show ?thesis using k one Cons.prems(5) by auto
  next
    case None
    have "\<exists>row. rowsOf r1 (oe_ID x) = Some row \<and> ob_event row = x" if "x \<in> set evs" for x
      using that k Cons.prems(3) Cons.prems(4) [of x] by auto
    moreover have "publishLoop cfg repo publish nowOf (n + 1) evs (r1, b1) = (out, r', b')"
      using one None Cons.prems(5) by simp
    ultimately have "outboxGood cfg (set (logOf b')) r' \<and> set (logOf b1) \<subseteq> set (logOf b') \<and> sameRows (rowsOf r1) (rowsOf r')"
      by (intro Cons.IH) (use k Cons.prems(2,3) in simp_all)
    with k sameRows_trans show ?thesis by blast
  qed
qed

lemma runOnce_keeps:
  assumes "outboxGood cfg (set (logOf b)) r" and "logsAccepted publish logOf"
    and "publisherRunOnce cfg repo publish now nowOf (r, b) = (out, r', b')"
  shows "outboxGood cfg (set (logOf b')) r' \<and> set (logOf b) \<subseteq> set (logOf b') \<and> sameRows (rowsOf r) (rowsOf r')"
proof -
  obtain res r1 where f: "or_FetchPending repo (pc_BatchSize cfg) now r = (res, r1)" by fastforce
  have "ok r" using assms(1) by (simp add: outboxGood_def)
  note spec = fetch_spec [OF this f]
  then have good1: "outboxGood cfg (set (logOf b)) r1" using assms(1) by (simp add: outboxGood_def)
  show ?thesis
  proof (cases res)
    case (Inl e)
    then show ?thesis using f assms(3) good1 spec by (auto simp: publisherRunOnce_def)
  next
    case (Inr evs)
    have "outboxGood cfg (set (logOf b')) r' \<and> set (logOf b) \<subseteq> set (logOf b') \<and> sameRows (rowsOf r1) (rowsOf r')"
      by (rule publishLoop_keeps [OF good1 assms(2), of evs])
        (use spec Inr f assms(3) in \<open>auto simp: publisherRunOnce_def\<close>)
    with spec show ?thesis by simp
  qed
qed

lemma run_keeps:
  assumes "outboxGood cfg (set (logOf b)) r" and "logsAccepted publish logOf"
    and "publisherRun cfg repo publish rounds (r, b) = (out, r', b')"
  shows "outboxGood cfg (set (logOf b')) r' \<and> sameRows (rowsOf r) (rowsOf r')"
  using assms
proof (induction rounds arbitrary: r b)
  case (Cons x rounds)
  obtain now nowOf c where x: "x = (now, nowOf, c)" by (cases x)
  obtain cnt err r1 b1 where o: "publisherRunOnce cfg repo publish now nowOf (r, b) = ((cnt, err), r1, b1)"
    by (metis prod.exhaust)
  note k = runOnce_keeps [OF Cons.prems(1,2) o]
  show ?case
  proof (cases "pc_DisableTicker cfg \<or> err \<noteq> None \<or> c")
    case True
    then show ?thesis using Cons.prems(3) x o k by (auto split: if_splits)
  next
    case False
    then have "publisherRun cfg repo publish rounds (r1, b1) = (out, r', b')" using Cons.prems(3) x o by simp
    from Cons.IH [OF _ Cons.prems(2) this] k sameRows_trans show ?thesis by blast
  qed
qed simp

end

section \<open>What the consumer does with a batch\<close>

text \<open>Acknowledgements of a broker whose reads and acknowledgements succeed, as a log.\<close>

definition okAck :: "'b brokerConsumer \<Rightarrow> ('b \<Rightarrow> string list) \<Rightarrow> bool" where
  "okAck broker ackedOf \<longleftrightarrow> (\<forall>stream grp i b. \<exists>b'. bc_Ack broker stream grp [i] b = (None, b') \<and>
     ackedOf b' = ackedOf b @ [i])"

definition okDLQ :: "'d dlqRepository \<Rightarrow> ('d \<Rightarrow> dlqEntry list) \<Rightarrow> bool" where
  "okDLQ dlq dlqOf \<longleftrightarrow> (\<forall>e d. \<exists>d'. dlq e d = (None, d') \<and> dlqOf d' = dlqOf d @ [e])"

definition handlerPure :: "'d eventHandler \<Rightarrow> ('d \<Rightarrow> dlqEntry list) \<Rightarrow> (string \<Rightarrow> string option) \<Rightarrow> bool" where
  "handlerPure handle dlqOf verdict \<longleftrightarrow> (\<forall>now p d. fst (handle now p d) = verdict p \<and>
     dlqOf (snd (handle now p d)) = dlqOf d)"

definition consumed :: "consumerConfig \<Rightarrow> (string \<Rightarrow> string option) \<Rightarrow> attemptsMap \<Rightarrow> brokerConsumedMessage \<Rightarrow> bool" where
  "consumed cfg verdict att m \<longleftrightarrow> verdict (cm_Payload m) = None
     \<or> cc_MaxAttempts cfg \<le> attemptsOf att (cm_ID m) + 1"

definition deadLettered :: "consumerConfig \<Rightarrow> (string \<Rightarrow> string option) \<Rightarrow> attemptsMap \<Rightarrow> brokerConsumedMessage \<Rightarrow> bool" where
  "deadLettered cfg verdict att m \<longleftrightarrow> verdict (cm_Payload m) \<noteq> None
     \<and> cc_MaxAttempts cfg \<le> attemptsOf att (cm_ID m) + 1"

lemma attemptsOf_simps [simp]:
  "attemptsOf (mput i n att) j = (if j = i then n else attemptsOf att j)"
  "attemptsOf (mdel i att) j = (if j = i then 0 else attemptsOf att j)"
  by (simp_all add: attemptsOf_def)

lemma consumeOne_spec:
  assumes "okAck broker ackedOf" and "okDLQ dlq dlqOf" and "handlerPure handle dlqOf verdict"
  shows "\<exists>att' b' d'. consumeOne cfg broker dlq handle now m (att, b, d) = (None, att', b', d') \<and>
     ackedOf b' = ackedOf b @ (if consumed cfg verdict att m then [cm_ID m] else []) \<and>
     map dlq_MessageID (dlqOf d') = map dlq_MessageID (dlqOf d) @ (if deadLettered cfg verdict att m then [cm_ID m] else []) \<and>
     (\<forall>i. attemptsOf att' i = (if i = cm_ID m then (if consumed cfg verdict att m then 0 else attemptsOf att i + 1)
        else attemptsOf att i))"
proof -
  obtain v d1 where h: "handle (fst now) (cm_Payload m) d = (v, d1)" by fastforce
  with assms(3) have v: "v = verdict (cm_Payload m)" "dlqOf d1 = dlqOf d"
    unfolding handlerPure_def by (metis fst_conv, metis snd_conv)
  obtain b1 where a: "bc_Ack broker (cc_Stream cfg) (cc_Group cfg) [cm_ID m] b = (None, b1)" "ackedOf b1 = ackedOf b @ [cm_ID m]"
    using assms(1) unfolding okAck_def by blast
  show ?thesis
  proof (cases v)
    case None
    then show ?thesis using h v a by (auto simp: consumeOne_def consumed_def deadLettered_def Let_def)
  next
    case (Some err)
    let ?n = "attemptsOf att (cm_ID m) + 1"
    let ?e = "\<lparr>dlq_Stream = cc_Stream cfg, dlq_MessageID = cm_ID m, dlq_Payload = cm_Payload m,
        dlq_ErrText = err, dlq_Attempts = ?n, dlq_TraceID = cm_TraceID m,
        dlq_CorrelationID = cm_CorrelationID m, dlq_CreatedAt = snd now\<rparr>"
    obtain d2 where q: "dlq ?e d1 = (None, d2)" "dlqOf d2 = dlqOf d1 @ [?e]"
      using assms(2) unfolding okDLQ_def by blast
    show ?thesis
      using h v a q Some
      by (cases "cc_MaxAttempts cfg \<le> ?n") (auto simp: consumeOne_def consumed_def deadLettered_def Let_def)
  qed
qed


section \<open>Messages that are delivered only once\<close>

text \<open>
  A broker that hands out each message of the configured stream once to the configured group, as a
  stream read for new messages does: \<open>seenOf\<close> are the ids delivered so far, and a read returns none
  of them. A read that fails may have lost messages. \<open>RedisBroker\<close> derives this of the Redis client.
\<close>

definition deliversOnce :: "consumerConfig \<Rightarrow> 'b brokerConsumer \<Rightarrow> ('b \<Rightarrow> string set) \<Rightarrow> bool" where
  "deliversOnce cfg broker seenOf \<longleftrightarrow>
     (\<forall>b res b'. bc_Read broker (cc_Stream cfg) (cc_Group cfg) (cc_ConsumerName cfg) (cc_ReadCount cfg)
          (cc_BlockTimeout cfg) b = (res, b') \<longrightarrow>
        (case res of Inl _ \<Rightarrow> seenOf b \<subseteq> seenOf b'
         | Inr ms \<Rightarrow> distinct (map cm_ID ms) \<and> set (map cm_ID ms) \<inter> seenOf b = {} \<and>
             seenOf b' = seenOf b \<union> set (map cm_ID ms))) \<and>
     (\<forall>is b e b'. bc_Ack broker (cc_Stream cfg) (cc_Group cfg) is b = (e, b') \<longrightarrow> seenOf b' = seenOf b)"

fun consumerRuns ::
  "consumerConfig \<Rightarrow> 'b brokerConsumer \<Rightarrow> 'd dlqRepository \<Rightarrow> 'd eventHandler \<Rightarrow> (nat \<Rightarrow> time \<times> time) list
     \<Rightarrow> attemptsMap \<times> 'b \<times> 'd \<Rightarrow> attemptsMap \<times> 'b \<times> 'd" where
  "consumerRuns cfg broker dlq handle [] st = st"
| "consumerRuns cfg broker dlq handle (nowOf # rounds) st =
     consumerRuns cfg broker dlq handle rounds (snd (consumerRunOnce cfg broker dlq handle nowOf st))"

definition freshAttempts :: "attemptsMap \<Rightarrow> string set \<Rightarrow> bool" where
  "freshAttempts att seen \<longleftrightarrow> (\<forall>i. i \<notin> seen \<longrightarrow> attemptsOf att i = 0)"

lemma consumeOne_never_dead:
  assumes "deliversOnce cfg broker seenOf" and "handlerPure handle dlqOf verdict" and "2 \<le> cc_MaxAttempts cfg"
    and "attemptsOf att (cm_ID m) = 0"
    and "consumeOne cfg broker dlq handle now m (att, b, d) = (e, att', b', d')"
  shows "dlqOf d' = dlqOf d \<and> seenOf b' = seenOf b \<and> (\<forall>i. i \<noteq> cm_ID m \<longrightarrow> attemptsOf att' i = attemptsOf att i)"
proof -
  obtain v d1 where h: "handle (fst now) (cm_Payload m) d = (v, d1)" by fastforce
  with assms(2) have d1: "dlqOf d1 = dlqOf d" unfolding handlerPure_def by (metis snd_conv)
  obtain ae b1 where a: "bc_Ack broker (cc_Stream cfg) (cc_Group cfg) [cm_ID m] b = (ae, b1)" by fastforce
  then have "seenOf b1 = seenOf b" using assms(1) unfolding deliversOnce_def by blast
  with h a d1 assms(3-5) show ?thesis
    by (cases v; cases ae) (auto simp: consumeOne_def Let_def)
qed

lemma consumeLoop_never_dead:
  assumes "deliversOnce cfg broker seenOf" and "handlerPure handle dlqOf verdict" and "2 \<le> cc_MaxAttempts cfg"
    and "distinct (map cm_ID ms)" and "\<forall>m \<in> set ms. attemptsOf att (cm_ID m) = 0"
    and "consumeLoop cfg broker dlq handle nowOf n ms (att, b, d) = (out, att', b', d')"
  shows "dlqOf d' = dlqOf d \<and> seenOf b' = seenOf b \<and>
     (\<forall>i. i \<notin> set (map cm_ID ms) \<longrightarrow> attemptsOf att' i = attemptsOf att i)"
  using assms(4-)
proof (induction ms arbitrary: n att b d)
  case (Cons m ms)
  obtain e att1 b1 d1 where one: "consumeOne cfg broker dlq handle (nowOf n) m (att, b, d) = (e, att1, b1, d1)"
    by (metis prod.exhaust)
  note k = consumeOne_never_dead [OF assms(1-3) _ one]
  have z: "attemptsOf att (cm_ID m) = 0" using Cons.prems(2) by simp
  show ?case
  proof (cases e)
    case (Some x)
    then show ?thesis using Cons.prems(3) one k [OF z] by auto
  next
    case None
    have "\<forall>x \<in> set ms. cm_ID x \<noteq> cm_ID m" using Cons.prems(1) by (auto simp: image_iff)
    then have "\<forall>x \<in> set ms. attemptsOf att1 (cm_ID x) = 0" using k [OF z] Cons.prems(2) by simp
    moreover have "consumeLoop cfg broker dlq handle nowOf (n + 1) ms (att1, b1, d1) = (out, att', b', d')"
      using Cons.prems(3) one None by simp
    ultimately have "dlqOf d' = dlqOf d1 \<and> seenOf b' = seenOf b1 \<and>
        (\<forall>i. i \<notin> set (map cm_ID ms) \<longrightarrow> attemptsOf att' i = attemptsOf att1 i)"
      by (intro Cons.IH) (use Cons.prems(1) in simp_all)
    with k [OF z] show ?thesis by auto
  qed
qed auto

lemma runOnce_never_dead:
  assumes "deliversOnce cfg broker seenOf" and "handlerPure handle dlqOf verdict" and "2 \<le> cc_MaxAttempts cfg"
    and "freshAttempts att (seenOf b)"
    and "consumerRunOnce cfg broker dlq handle nowOf (att, b, d) = (out, att', b', d')"
  shows "dlqOf d' = dlqOf d \<and> freshAttempts att' (seenOf b')"
proof -
  obtain res b1 where r: "bc_Read broker (cc_Stream cfg) (cc_Group cfg) (cc_ConsumerName cfg) (cc_ReadCount cfg)
      (cc_BlockTimeout cfg) b = (res, b1)" by fastforce
  note once = assms(1) [unfolded deliversOnce_def, THEN conjunct1, rule_format, OF r]
  show ?thesis
  proof (cases res)
    case (Inl e)
    then show ?thesis using r once assms(4,5) by (auto simp: consumerRunOnce_def freshAttempts_def)
  next
    case (Inr ms)
    then have ms: "distinct (map cm_ID ms)" "set (map cm_ID ms) \<inter> seenOf b = {}"
      "seenOf b1 = seenOf b \<union> set (map cm_ID ms)" using once by simp_all
    have zero: "\<forall>m \<in> set ms. attemptsOf att (cm_ID m) = 0"
      using ms(2) assms(4) by (auto simp: freshAttempts_def)
    have run: "consumeLoop cfg broker dlq handle nowOf 0 ms (att, b1, d) = (out, att', b', d')"
      using r Inr assms(5) by (simp add: consumerRunOnce_def)
    from consumeLoop_never_dead [OF assms(1-3) ms(1) zero run] ms(3) assms(4)
    show ?thesis by (auto simp: freshAttempts_def)
  qed
qed


section \<open>Witnesses\<close>

definition demoPub :: publisherConfig where
  "demoPub = newPublisher \<lparr>pc_Topic = '''', pc_BatchSize = 0, pc_MaxAttempts = 0, pc_BaseBackoff = 0,
     pc_PollInterval = 0, pc_ServiceName = '''', pc_DisableTicker = False\<rparr>"

definition demoCons :: consumerConfig where
  "demoCons = newConsumer \<lparr>cc_Stream = '''', cc_Group = '''', cc_ConsumerName = '''', cc_ReadCount = 0,
     cc_BlockTimeout = 0, cc_MaxAttempts = 0, cc_ServiceName = ''''\<rparr>"

text \<open>A broker with a list of messages to hand out, the ids handed out and the ids acknowledged.\<close>

type_synonym demoQueue = "brokerConsumedMessage list \<times> string list \<times> string list"

definition demoBroker :: "demoQueue brokerConsumer" where
  "demoBroker = \<lparr>bc_Read = (\<lambda>stream grp name n block (todo, seen, acked).
       case todo of
         [] \<Rightarrow> (Inr [], ([], seen, acked))
       | m # rest \<Rightarrow> if cm_ID m \<in> set seen then (Inr [], (rest, seen, acked))
                     else (Inr [m], (rest, cm_ID m # seen, acked))),
     bc_Ack = (\<lambda>stream grp is (todo, seen, acked). (None, (todo, seen, acked @ is)))\<rparr>"

definition demoDLQ :: "dlqEntry list dlqRepository" where
  "demoDLQ e d = (None, d @ [e])"

definition demoVerdict :: "string \<Rightarrow> string option" where
  "demoVerdict p = (if p = ''bad'' then Some ''boom'' else None)"

definition demoHandler :: "dlqEntry list eventHandler" where
  "demoHandler now p d = (demoVerdict p, d)"

definition demoMsg :: "string \<Rightarrow> string \<Rightarrow> brokerConsumedMessage" where
  "demoMsg i p = \<lparr>cm_ID = i, cm_Payload = p, cm_TraceID = '''', cm_CorrelationID = ''''\<rparr>"

lemma demo_broker_laws:
  "okAck demoBroker (\<lambda>(todo, seen, acked). acked)" "okDLQ demoDLQ (\<lambda>d. d)"
  "handlerPure demoHandler (\<lambda>d. d) demoVerdict" "deliversOnce demoCons demoBroker (\<lambda>(todo, seen, acked). set seen)"
  by (auto simp: okAck_def okDLQ_def handlerPure_def deliversOnce_def demoBroker_def demoDLQ_def demoHandler_def
      split: list.splits if_splits)

theorem backoff_bounded_witness:
  "backoffOf demoPub 3 = 2 * second \<and> backoffOf demoPub 3 \<le> backoffOf demoPub 100
     \<and> backoffOf demoPub 100 \<le> 128 * second"
  using backoff_bounded [of demoPub 3 100]
  by (simp add: demoPub_def newPublisher_def Let_def millisecond_def second_def)



end
