(* ===== verification/PgDb.thy ===== *)
theory PgDb
  imports Ecommerce Shortener EventPipe
begin

text \<open>
  The PostgreSQL database behind the repositories of \<open>tasks_postgres.go\<close> and
  \<open>eventpipe/postgres.go\<close>: the tables the migrations create, with their constraints, and the ways
  a statement can end. A table is the list of its rows by primary key. The \<open>BIGSERIAL\<close> sequences
  are kept apart from the tables because a rollback does not take their values back.

  Everything that can make the service refuse a statement for a reason the tables do not show (a
  lost connection, a cancelled context, a value the encoding rejects, a full disk) is the list
  \<open>pg_faults\<close>: each statement, row iteration, \<open>BEGIN\<close> and \<open>COMMIT\<close> takes the next entry and fails
  with its message when there is one. A refused statement has no effect on the tables. The
  statements of one transaction are not interleaved with those of another one.

  Instants are stored in microseconds: \<open>pgTime\<close> is the instant that is read back.
\<close>

section \<open>Errors\<close>

datatype pgError = ErrNoRows | PgUnique string | PgOther string

primrec pgText :: "pgError \<Rightarrow> string" where
  "pgText ErrNoRows = ''sql: no rows in result set''"
| "pgText (PgUnique c) = ''ERROR: duplicate key value violates unique constraint '' @ c @ '' (SQLSTATE 23505)''"
| "pgText (PgOther m) = m"

definition pgTime :: "time \<Rightarrow> time" where
  "pgTime t = t div 1000 * 1000"

section \<open>Tables\<close>

record orderRow =
  orow_ID :: int64
  orow_UserID :: int64
  orow_Status :: string
  orow_TotalCents :: int64
  orow_IdempotencyKey :: string
  orow_CreatedAt :: time
  orow_UpdatedAt :: time

record itemRow =
  irow_OrderID :: int64
  irow_Item :: orderItem

record paymentRow =
  prow_OrderID :: int64
  prow_Provider :: string
  prow_Status :: string
  prow_TxnID :: string
  prow_AmountCents :: int64
  prow_CreatedAt :: time

record idemRow =
  krow_UserID :: int64
  krow_Key :: string
  krow_ResponseOrderID :: "int64 option"
  krow_CreatedAt :: time

record projectionRow =
  jrow_LastEventType :: string
  jrow_PaymentStatus :: string
  jrow_TotalCents :: int64
  jrow_UpdatedAt :: time

record pgTables =
  t_tasks :: "(int64, task) gomap"
  t_short_urls :: "(int64, shortURL) gomap"
  t_uploaded_files :: "(int64, fileRecord) gomap"
  t_products :: "(int64, product) gomap"
  t_orders :: "(int64, orderRow) gomap"
  t_order_items :: "(int64, itemRow) gomap"
  t_payments :: "(int64, paymentRow) gomap"
  t_idem :: "(int64, idemRow) gomap"
  t_outbox :: "(int64, outboxRow) gomap"
  t_dlq :: "(int64, dlqEntry) gomap"
  t_projection :: "(int64, projectionRow) gomap"

definition emptyTables :: pgTables where
  "emptyTables = \<lparr>t_tasks = [], t_short_urls = [], t_uploaded_files = [], t_products = [], t_orders = [],
     t_order_items = [], t_payments = [], t_idem = [], t_outbox = [], t_dlq = [], t_projection = []\<rparr>"

type_synonym pgSeqs = "(string, int64) gomap"

record pgDB =
  pg_tables :: pgTables
  pg_seqs :: pgSeqs
  pg_faults :: "string option list"

definition freshDB :: "string option list \<Rightarrow> pgDB" where
  "freshDB fs = \<lparr>pg_tables = emptyTables, pg_seqs = [], pg_faults = fs\<rparr>"

section \<open>Statements\<close>

text \<open>
  A statement computes from the tables and sequences either an error or a result with the new
  tables; the sequences advance in both cases.
\<close>

type_synonym 'a stmt = "pgTables \<Rightarrow> pgSeqs \<Rightarrow> (pgError + 'a \<times> pgTables) \<times> pgSeqs"

definition takeFault :: "pgDB \<Rightarrow> string option \<times> pgDB" where
  "takeFault s = (case pg_faults s of [] \<Rightarrow> (None, s) | f # fs \<Rightarrow> (f, s\<lparr>pg_faults := fs\<rparr>))"

definition runStmt :: "'a stmt \<Rightarrow> pgDB \<Rightarrow> (pgError + 'a) \<times> pgDB" where
  "runStmt f s = (case takeFault s of
       (Some e, s1) \<Rightarrow> (Inl (PgOther e), s1)
     | (None, s1) \<Rightarrow> (case f (pg_tables s1) (pg_seqs s1) of
           (Inl e, q) \<Rightarrow> (Inl e, s1\<lparr>pg_seqs := q\<rparr>)
         | (Inr (x, t), q) \<Rightarrow> (Inr x, s1\<lparr>pg_tables := t, pg_seqs := q\<rparr>)))"

definition selectStmt :: "(pgTables \<Rightarrow> pgError + 'a) \<Rightarrow> 'a stmt" where
  "selectStmt f t q = (case f t of Inl e \<Rightarrow> (Inl e, q) | Inr x \<Rightarrow> (Inr (x, t), q))"

definition execStmt :: "(pgTables \<Rightarrow> pgError + 'a \<times> pgTables) \<Rightarrow> 'a stmt" where
  "execStmt f t q = (f t, q)"

definition seqVal :: "pgSeqs \<Rightarrow> string \<Rightarrow> int64" where
  "seqVal q tbl = (case map_of q tbl of None \<Rightarrow> 0 | Some n \<Rightarrow> n)"

text \<open>
  \<open>INSERT\<close>: the default of the \<open>id\<close> column draws from the table's sequence before the constraints
  are checked.
\<close>

definition insertStmt ::
  "string \<Rightarrow> (pgTables \<Rightarrow> (int64, 'r) gomap) \<Rightarrow> ((int64, 'r) gomap \<Rightarrow> pgTables \<Rightarrow> pgTables)
     \<Rightarrow> (pgTables \<Rightarrow> 'r \<Rightarrow> pgError option) \<Rightarrow> (int64 \<Rightarrow> 'r) \<Rightarrow> 'r stmt" where
  "insertStmt tbl rows put check mk t q =
     (let i = seqVal q tbl + 1
      in if maxInt64 < i then (Inl (PgOther (''nextval: reached maximum value of sequence '' @ tbl)), q)
         else let row = mk i; q' = mput tbl i q
              in if map_of (rows t) i \<noteq> None then (Inl (PgUnique (tbl @ ''_pkey'')), q')
                 else (case check t row of
                     Some e \<Rightarrow> (Inl e, q')
                   | None \<Rightarrow> (Inr (row, put (mput i row (rows t)) t), q')))"

definition checkViolation :: "string \<Rightarrow> pgError" where
  "checkViolation c = PgOther (''ERROR: new row violates check constraint '' @ c)"

definition fkViolation :: "string \<Rightarrow> pgError" where
  "fkViolation c = PgOther (''ERROR: insert or update violates foreign key constraint '' @ c)"

text \<open>\<open>SELECT ... WHERE id = $1\<close> and \<open>SELECT ... ORDER BY id ASC\<close>.\<close>

definition rowByID :: "(int64, 'r) gomap \<Rightarrow> int64 \<Rightarrow> pgError + 'r" where
  "rowByID rows i = (case map_of rows i of None \<Rightarrow> Inl ErrNoRows | Some r \<Rightarrow> Inr r)"

definition orderByID :: "(int64, 'r) gomap \<Rightarrow> (int64 \<times> 'r) list" where
  "orderByID rows = sort_key fst rows"

text \<open>The length in characters of UTF-8 text, and the character types of fixed maximal length.\<close>

definition pgCharLen :: "string \<Rightarrow> nat" where
  "pgCharLen s = length (filter (\<lambda>c. \<not> (128 \<le> byteOf c \<and> byteOf c < 192)) s)"

definition trimBlanks :: "string \<Rightarrow> string" where
  "trimBlanks s = rev (dropWhile (\<lambda>c. c = CHR '' '') (rev s))"

definition castVarchar :: "nat \<Rightarrow> string \<Rightarrow> string option" where
  "castVarchar n s = (if pgCharLen s \<le> n then Some s
     else let b = trimBlanks s
          in if pgCharLen b \<le> n then Some (b @ replicate (n - pgCharLen b) CHR '' '') else None)"

definition castChar :: "nat \<Rightarrow> string \<Rightarrow> string option" where
  "castChar n s = (let b = trimBlanks s
     in if pgCharLen b \<le> n then Some (b @ replicate (n - pgCharLen b) CHR '' '') else None)"

definition valueTooLong :: "string \<Rightarrow> pgError" where
  "valueTooLong ty = PgOther (''ERROR: value too long for type '' @ ty)"

section \<open>Transactions\<close>

text \<open>
  \<open>BeginTx\<close>, the body, and \<open>Commit\<close>; the deferred \<open>Rollback\<close> restores the tables of the begin when
  the body fails or the commit is refused. The body may also act on the outside world \<open>w\<close>, which
  no rollback restores.
\<close>

definition withTx ::
  "(string \<Rightarrow> 'e) \<Rightarrow> (pgDB \<times> 'w \<Rightarrow> ('e + 'a) \<times> pgDB \<times> 'w) \<Rightarrow> pgDB \<times> 'w \<Rightarrow> ('e + 'a) \<times> pgDB \<times> 'w" where
  "withTx wrap body sw = (case takeFault (fst sw) of
       (Some e, s1) \<Rightarrow> (Inl (wrap (''begin tx: '' @ e)), s1, snd sw)
     | (None, s1) \<Rightarrow> (case body (s1, snd sw) of
           (Inl e, s2, w) \<Rightarrow> (Inl e, s2\<lparr>pg_tables := pg_tables s1\<rparr>, w)
         | (Inr x, s2, w) \<Rightarrow> (case takeFault s2 of
               (Some e, s3) \<Rightarrow> (Inl (wrap (''commit tx: '' @ e)), s3\<lparr>pg_tables := pg_tables s1\<rparr>, w)
             | (None, s3) \<Rightarrow> (Inr x, s3, w))))"

section \<open>Facts about statements\<close>

lemma takeFault_keeps [simp]:
  "pg_tables (snd (takeFault s)) = pg_tables s" "pg_seqs (snd (takeFault s)) = pg_seqs s"
  by (simp_all add: takeFault_def split: list.split)

lemma takeFault_keeps_eq:
  "takeFault s = (f, s') \<Longrightarrow> pg_tables s' = pg_tables s \<and> pg_seqs s' = pg_seqs s"
  by (metis snd_conv takeFault_keeps)

lemma takeFault_none: "pg_faults s = [] \<Longrightarrow> takeFault s = (None, s)"
  by (simp add: takeFault_def)

lemma runStmt_Inl:
  assumes "runStmt f s = (Inl e, s')"
  obtains "pg_tables s' = pg_tables s" "pg_seqs s' = pg_seqs s" "\<exists>m. e = PgOther m"
  | "pg_tables s' = pg_tables s" "f (pg_tables s) (pg_seqs s) = (Inl e, pg_seqs s')"
  using assms takeFault_keeps_eq [of s]
  by (auto simp: runStmt_def split: prod.splits option.splits sum.splits)

lemma runStmt_tables: "runStmt f s = (Inl e, s') \<Longrightarrow> pg_tables s' = pg_tables s"
  by (erule runStmt_Inl)

lemma runStmt_Inr:
  "runStmt f s = (Inr x, s') \<Longrightarrow> f (pg_tables s) (pg_seqs s) = (Inr (x, pg_tables s'), pg_seqs s')"
  using takeFault_keeps_eq [of s]
  by (auto simp: runStmt_def split: prod.splits option.splits sum.splits)

lemma runStmt_nofault:
  "pg_faults s = [] \<Longrightarrow> runStmt f s = (case f (pg_tables s) (pg_seqs s) of
       (Inl e, q) \<Rightarrow> (Inl e, s\<lparr>pg_seqs := q\<rparr>) | (Inr (x, t), q) \<Rightarrow> (Inr x, s\<lparr>pg_tables := t, pg_seqs := q\<rparr>))"
  by (simp add: runStmt_def takeFault_none)

lemma select_keeps:
  "runStmt (selectStmt f) s = (res, s') \<Longrightarrow> pg_tables s' = pg_tables s \<and> pg_seqs s' = pg_seqs s"
  using takeFault_keeps_eq [of s]
  by (auto simp: runStmt_def selectStmt_def split: prod.splits option.splits sum.splits)

lemma select_Inr: "runStmt (selectStmt f) s = (Inr x, s') \<Longrightarrow> f (pg_tables s) = Inr x"
  by (drule runStmt_Inr) (auto simp: selectStmt_def split: sum.splits)

lemma select_NoRows: "runStmt (selectStmt f) s = (Inl ErrNoRows, s') \<Longrightarrow> f (pg_tables s) = Inl ErrNoRows"
  by (erule runStmt_Inl) (auto simp: selectStmt_def split: sum.splits)

lemma select_full:
  assumes "runStmt (selectStmt f) s = (res, s')"
  shows "pg_tables s' = pg_tables s \<and> pg_seqs s' = pg_seqs s \<and> (\<forall>x. res = Inr x \<longrightarrow> f (pg_tables s) = Inr x)
     \<and> (res = Inl ErrNoRows \<longrightarrow> f (pg_tables s) = Inl ErrNoRows)"
  using select_keeps [OF assms] select_Inr [of f s _ s'] select_NoRows [of f s s'] assms by auto

lemma exec_keeps_seqs: "runStmt (execStmt f) s = (res, s') \<Longrightarrow> pg_seqs s' = pg_seqs s"
  using takeFault_keeps_eq [of s]
  by (auto simp: runStmt_def execStmt_def split: prod.splits option.splits sum.splits)

lemma exec_Inr: "runStmt (execStmt f) s = (Inr x, s') \<Longrightarrow> f (pg_tables s) = Inr (x, pg_tables s')"
  by (drule runStmt_Inr) (simp add: execStmt_def)

lemma exec_ok:
  assumes "runStmt (execStmt f) s = (Inr x, s')"
  shows "\<not> isl (f (pg_tables s)) \<and> fst (projr (f (pg_tables s))) = x \<and>
     pg_tables s' = snd (projr (f (pg_tables s))) \<and> pg_seqs s' = pg_seqs s"
  using exec_Inr [OF assms] exec_keeps_seqs [OF assms] by simp

lemma exec_err:
  assumes "runStmt (execStmt f) s = (Inl e, s')"
  shows "pg_tables s' = pg_tables s \<and> pg_seqs s' = pg_seqs s \<and> (e = ErrNoRows \<longrightarrow> f (pg_tables s) = Inl ErrNoRows)"
  using runStmt_tables [OF assms] exec_keeps_seqs [OF assms] runStmt_Inl [OF assms] by (auto simp: execStmt_def)

text \<open>A table whose ids were all drawn from its sequence.\<close>

definition tableOK :: "(int64, 'r) gomap \<Rightarrow> int64 \<Rightarrow> bool" where
  [inv_defs]: "tableOK rows n \<longleftrightarrow> distinct (mkeys rows) \<and> 0 \<le> n \<and> n \<le> maxInt64 \<and>
     (\<forall>i r. map_of rows i = Some r \<longrightarrow> 1 \<le> i \<and> i \<le> n)"

lemma tableOK_fresh: "tableOK rows n \<Longrightarrow> n < i \<Longrightarrow> map_of rows i = None"
  by (cases "map_of rows i") (fastforce simp: tableOK_def)+

lemma tableOK_insert: "tableOK rows n \<Longrightarrow> n + 1 \<le> maxInt64 \<Longrightarrow> tableOK (mput (n + 1) r rows) (n + 1)"
  by (auto simp: tableOK_def distinct_mput)

lemma tableOK_mono: "tableOK rows n \<Longrightarrow> n \<le> m \<Longrightarrow> m \<le> maxInt64 \<Longrightarrow> tableOK rows m"
  by (fastforce simp: tableOK_def)

lemma tableOK_update: "tableOK rows n \<Longrightarrow> map_of rows i \<noteq> None \<Longrightarrow> tableOK (mput i r rows) n"
  by (auto simp: tableOK_def distinct_mput)

lemma tableOK_delete: "tableOK rows n \<Longrightarrow> tableOK (mdel i rows) n"
  by (auto simp: tableOK_def distinct_mdel)

lemma map_of_same_keys: "mkeys m' = mkeys m \<Longrightarrow> map_of m' i = None \<longleftrightarrow> map_of m i = None"
  by (metis list.set_map map_of_eq_None_iff)

lemma tableOK_keys: "tableOK m n \<Longrightarrow> mkeys m' = mkeys m \<Longrightarrow> tableOK m' n"
  using map_of_same_keys [of m' m] unfolding tableOK_def by (metis option.distinct(1) option.exhaust)

lemma tableOK_Nil [simp]: "0 \<le> n \<Longrightarrow> n \<le> maxInt64 \<Longrightarrow> tableOK [] n"
  by (simp add: tableOK_def)

lemma seqVal_mput [simp]: "seqVal (mput tbl n q) tbl' = (if tbl' = tbl then n else seqVal q tbl')"
  by (simp add: seqVal_def)

lemma insert_Inr:
  assumes "runStmt (insertStmt tbl rows put check mk) s = (Inr row, s')"
  shows "row = mk (seqVal (pg_seqs s) tbl + 1)" "seqVal (pg_seqs s) tbl + 1 \<le> maxInt64"
    "check (pg_tables s) row = None" "map_of (rows (pg_tables s)) (seqVal (pg_seqs s) tbl + 1) = None"
    "pg_seqs s' = mput tbl (seqVal (pg_seqs s) tbl + 1) (pg_seqs s)"
    "pg_tables s' = put (mput (seqVal (pg_seqs s) tbl + 1) row (rows (pg_tables s))) (pg_tables s)"
  using runStmt_Inr [OF assms] by (auto simp: insertStmt_def Let_def split: if_splits option.splits)

lemma insert_Inl:
  assumes "runStmt (insertStmt tbl rows put check mk) s = (Inl e, s')"
  shows "pg_tables s' = pg_tables s"
    and "pg_seqs s' = pg_seqs s \<or> seqVal (pg_seqs s) tbl + 1 \<le> maxInt64 \<and>
       pg_seqs s' = mput tbl (seqVal (pg_seqs s) tbl + 1) (pg_seqs s)"
    and "e = PgUnique c \<Longrightarrow> map_of (rows (pg_tables s)) (seqVal (pg_seqs s) tbl + 1) \<noteq> None
       \<or> check (pg_tables s) (mk (seqVal (pg_seqs s) tbl + 1)) = Some (PgUnique c)"
  using assms
  by (auto elim!: runStmt_Inl simp: insertStmt_def Let_def split: if_splits option.splits)

lemma insert_err:
  assumes "runStmt (insertStmt tbl rows put check mk) s = (Inl e, s')"
  shows "pg_tables s' = pg_tables s \<and> (pg_seqs s' = pg_seqs s \<or> seqVal (pg_seqs s) tbl + 1 \<le> maxInt64 \<and>
       pg_seqs s' = mput tbl (seqVal (pg_seqs s) tbl + 1) (pg_seqs s))"
  using insert_Inl(1,2) [OF assms] by blast

lemma insert_err_ok:
  assumes "runStmt (insertStmt tbl rows put check mk) s = (Inl e, s')" and "tableOK rows' (seqVal (pg_seqs s) tbl')"
  shows "tableOK rows' (seqVal (pg_seqs s') tbl')"
  using insert_err [OF assms(1)] assms(2) tableOK_mono [OF assms(2), of "seqVal (pg_seqs s) tbl' + 1"] by auto

lemma insert_nofault:
  assumes "pg_faults s = []" and "seqVal (pg_seqs s) tbl + 1 \<le> maxInt64"
    and "map_of (rows (pg_tables s)) (seqVal (pg_seqs s) tbl + 1) = None"
    and "check (pg_tables s) (mk (seqVal (pg_seqs s) tbl + 1)) = None"
  shows "runStmt (insertStmt tbl rows put check mk) s = (Inr (mk (seqVal (pg_seqs s) tbl + 1)),
     s\<lparr>pg_tables := put (mput (seqVal (pg_seqs s) tbl + 1) (mk (seqVal (pg_seqs s) tbl + 1)) (rows (pg_tables s)))
         (pg_tables s), pg_seqs := mput tbl (seqVal (pg_seqs s) tbl + 1) (pg_seqs s)\<rparr>)"
  using assms by (simp add: runStmt_nofault insertStmt_def Let_def)

text \<open>Sorting by the primary key.\<close>

lemma orderByID_sorted:
  assumes "distinct (mkeys rows)"
  shows "sorted_wrt (\<lambda>a b. fst a < fst b) (orderByID rows)"
proof -
  have "sorted_wrt (<) (map fst (orderByID rows))"
    using assms by (simp add: orderByID_def strict_sorted_iff mset_eq_imp_distinct_iff
        [of "map fst (sort_key fst rows)" "map fst rows"])
  then show ?thesis by (simp add: sorted_wrt_map)
qed

lemma strictly_sorted_unique:
  assumes "sorted_wrt (\<lambda>a b. key a < (key b :: 'k :: linorder)) xs"
    and "sorted_wrt (\<lambda>a b. key a < key b) ys" and "set xs = set ys"
  shows "xs = ys"
proof -
  have "sorted_wrt (<) (map key xs)" "sorted_wrt (<) (map key ys)" using assms by (simp_all add: sorted_wrt_map)
  then have s: "sorted (map key xs) \<and> distinct (map key xs)" "sorted (map key ys) \<and> distinct (map key ys)"
    by (simp_all add: strict_sorted_iff)
  then have "map key xs = map key ys" by (intro sorted_distinct_set_unique) (simp_all add: assms(3))
  moreover have "inj_on key (set xs \<union> set ys)" using s(1) assms(3) by (simp add: distinct_map)
  ultimately show ?thesis by (simp add: inj_on_map_eq_map)
qed

lemma orderByID_set [simp]: "set (orderByID rows) = set rows"
  by (simp add: orderByID_def)

lemma orderByID_vals: "distinct (mkeys rows) \<Longrightarrow> set (mvals (orderByID rows)) = ran (map_of rows)"
  by (auto simp: ran_distinct image_iff)

lemma rowByID_simps [simp]:
  "rowByID rows i = Inr r \<longleftrightarrow> map_of rows i = Some r"
  "rowByID rows i = Inl e \<longleftrightarrow> map_of rows i = None \<and> e = ErrNoRows"
  by (auto simp: rowByID_def split: option.splits)

text \<open>Transactions: an error leaves the tables, a success is the body's.\<close>

lemma withTx_Inl: "withTx wrap body (s, w) = (Inl e, s', w') \<Longrightarrow> pg_tables s' = pg_tables s"
  using takeFault_keeps_eq [of s]
  by (auto simp: withTx_def split: prod.splits option.splits sum.splits)

lemma withTx_Inr:
  assumes "withTx wrap body (s, w) = (Inr x, s', w')"
  obtains s1 s2 where "pg_tables s1 = pg_tables s" "pg_seqs s1 = pg_seqs s" "body (s1, w) = (Inr x, s2, w')"
    "pg_tables s' = pg_tables s2" "pg_seqs s' = pg_seqs s2"
  using assms takeFault_keeps_eq
  by (fastforce simp: withTx_def split: prod.splits option.splits sum.splits)

end
