(* ===== verification/PgTasks.thy ===== *)
theory PgTasks
  imports PgDb
begin

text \<open>
  The PostgreSQL repository of \<open>internal/httpapp/tasks_postgres.go\<close> for tasks, short URLs and file
  metadata, its constructor and the migration runner. The interfaces of the three components are
  interpreted on it, so the properties proved from the contracts hold for it as well; on top of
  that the tasks API over PostgreSQL is shown to answer exactly as over the in-memory repository.
\<close>

section \<open>Migrations and construction\<close>

text \<open>
  The embedded directory is a list of entries with a directory flag, \<open>readFile\<close> the embedded file
  system and \<open>exec\<close> the connection pool: what executing an SQL text answers and does. The deferred
  unlock runs on every path after the lock was taken, and its result is ignored. A constructor
  that fails after the pool was opened returns the pool as it was closed.
\<close>

record migrationFS =
  mig_readDir :: "string + (string \<times> bool) list"
  mig_readFile :: "string \<Rightarrow> string + string"

type_synonym 'd sqlExec = "string \<Rightarrow> 'd \<Rightarrow> string option \<times> 'd"

definition lockSQL :: string where
  "lockSQL = ''SELECT pg_advisory_lock(884412773)''"

definition unlockSQL :: string where
  "unlockSQL = ''SELECT pg_advisory_unlock(884412773)''"

fun applyMigrations :: "migrationFS \<Rightarrow> 'd sqlExec \<Rightarrow> string list \<Rightarrow> 'd \<Rightarrow> string option \<times> 'd" where
  "applyMigrations fs exec [] d = (None, d)"
| "applyMigrations fs exec (n # ns) d = (case mig_readFile fs (''migrations/'' @ n) of
       Inl e \<Rightarrow> (Some (''read migration '' @ n @ '': '' @ e), d)
     | Inr sql \<Rightarrow>
         if trimSpace sql = '''' then applyMigrations fs exec ns d
         else (case exec sql d of
             (Some e, d1) \<Rightarrow> (Some (''apply migration '' @ n @ '': '' @ e), d1)
           | (None, d1) \<Rightarrow> applyMigrations fs exec ns d1))"

definition runMigrations :: "migrationFS \<Rightarrow> 'd sqlExec \<Rightarrow> 'd \<Rightarrow> string option \<times> 'd" where
  "runMigrations fs exec d = (case exec lockSQL d of
       (Some e, d1) \<Rightarrow> (Some (''acquire migrations advisory lock: '' @ e), d1)
     | (None, d1) \<Rightarrow>
         let (res, d2) = (case mig_readDir fs of
               Inl e \<Rightarrow> (Some (''read migrations dir: '' @ e), d1)
             | Inr entries \<Rightarrow>
                 applyMigrations fs exec (sort (map fst (filter (\<lambda>en. \<not> snd en) entries))) d1)
         in (res, snd (exec unlockSQL d2)))"

definition NewPostgresTaskRepository ::
  "migrationFS \<Rightarrow> (string + 'd) \<Rightarrow> ('d \<Rightarrow> string option) \<Rightarrow> 'd sqlExec \<Rightarrow> ('d \<Rightarrow> 'd)
     \<Rightarrow> string \<times> 'd option + 'd" where
  "NewPostgresTaskRepository fs opened ping exec closeDB = (case opened of
       Inl e \<Rightarrow> Inl (''open postgres connection: '' @ e, None)
     | Inr d \<Rightarrow> (case ping d of
           Some e \<Rightarrow> Inl (''ping postgres: '' @ e, Some (closeDB d))
         | None \<Rightarrow> (case runMigrations fs exec d of
               (Some e, d1) \<Rightarrow> Inl (e, Some (closeDB d1))
             | (None, d1) \<Rightarrow> Inr d1)))"

section \<open>Tasks\<close>

definition putTasks :: "(int64, task) gomap \<Rightarrow> pgTables \<Rightarrow> pgTables" where
  "putTasks rows t = t\<lparr>t_tasks := rows\<rparr>"

text \<open>A query with an iteration over its rows: the iteration can fail after the query succeeded.\<close>

definition queryRows :: "string \<Rightarrow> string \<Rightarrow> (pgTables \<Rightarrow> 'r list) \<Rightarrow> pgDB \<Rightarrow> (string + 'r list) \<times> pgDB" where
  "queryRows what iter f s = (case runStmt (selectStmt (\<lambda>t. Inr (f t))) s of
       (Inl e, s1) \<Rightarrow> (Inl (what @ pgText e), s1)
     | (Inr rows, s1) \<Rightarrow> (case takeFault s1 of
           (Some e, s2) \<Rightarrow> (Inl (iter @ e), s2)
         | (None, s2) \<Rightarrow> (Inr rows, s2)))"

definition pgTask_List :: "pgDB \<Rightarrow> (taskError + task list) \<times> pgDB" where
  "pgTask_List s = (case queryRows ''query tasks: '' ''iterate task rows: '' (\<lambda>t. mvals (orderByID (t_tasks t))) s of
       (Inl e, s1) \<Rightarrow> (Inl (TaskRepoError e), s1)
     | (Inr ts, s1) \<Rightarrow> (Inr ts, s1))"

definition pgTask_Create :: "taskInput \<Rightarrow> time \<Rightarrow> pgDB \<Rightarrow> (taskError + task) \<times> pgDB" where
  "pgTask_Create inp ts s =
     (case runStmt (insertStmt ''tasks'' t_tasks putTasks (\<lambda>t row. None) (\<lambda>i. newTask i inp (pgTime ts))) s of
        (Inl e, s1) \<Rightarrow> (Inl (TaskRepoError (''insert task: '' @ pgText e)), s1)
      | (Inr t, s1) \<Rightarrow> (Inr t, s1))"

definition pgTask_Get :: "int64 \<Rightarrow> pgDB \<Rightarrow> (taskError + task) \<times> pgDB" where
  "pgTask_Get i s = (case runStmt (selectStmt (\<lambda>t. rowByID (t_tasks t) i)) s of
       (Inl e, s1) \<Rightarrow> (Inl (if e = ErrNoRows then ErrTaskNotFound
                              else TaskRepoError (''select task: '' @ pgText e)), s1)
     | (Inr t, s1) \<Rightarrow> (Inr t, s1))"

definition pgTask_Update :: "int64 \<Rightarrow> taskInput \<Rightarrow> time \<Rightarrow> pgDB \<Rightarrow> (taskError + task) \<times> pgDB" where
  "pgTask_Update i inp ts s =
     (case runStmt (execStmt (\<lambda>t. case map_of (t_tasks t) i of
            None \<Rightarrow> Inl ErrNoRows
          | Some x \<Rightarrow> let x' = applyTaskInput inp (pgTime ts) x in Inr (x', putTasks (mput i x' (t_tasks t)) t))) s of
        (Inl e, s1) \<Rightarrow> (Inl (if e = ErrNoRows then ErrTaskNotFound
                               else TaskRepoError (''update task: '' @ pgText e)), s1)
      | (Inr t, s1) \<Rightarrow> (Inr t, s1))"

definition pgTask_Delete :: "int64 \<Rightarrow> pgDB \<Rightarrow> (taskError + unit) \<times> pgDB" where
  "pgTask_Delete i s =
     (case runStmt (execStmt (\<lambda>t. Inr (if map_of (t_tasks t) i = None then 0 else 1 :: int,
            putTasks (mdel i (t_tasks t)) t))) s of
        (Inl e, s1) \<Rightarrow> (Inl (TaskRepoError (''delete task: '' @ pgText e)), s1)
      | (Inr affected, s1) \<Rightarrow> if affected = 0 then (Inl ErrTaskNotFound, s1) else (Inr (), s1))"

definition postgresTaskRepo :: "pgDB taskRepository" where
  "postgresTaskRepo = \<lparr>repo_List = pgTask_List, repo_Create = pgTask_Create, repo_Get = pgTask_Get,
     repo_Update = pgTask_Update, repo_Delete = pgTask_Delete\<rparr>"

section \<open>Short URLs\<close>

definition putShortURLs :: "(int64, shortURL) gomap \<Rightarrow> pgTables \<Rightarrow> pgTables" where
  "putShortURLs rows t = t\<lparr>t_short_urls := rows\<rparr>"

definition shortRow :: "createShortURLRepositoryInput \<Rightarrow> time \<Rightarrow> int64 \<Rightarrow> shortURL" where
  "shortRow inp ts i = \<lparr>su_ID = i, su_Code = (case castVarchar 32 (csr_Code inp) of None \<Rightarrow> csr_Code inp | Some c \<Rightarrow> c),
     su_TargetURL = csr_TargetURL inp, su_CreatedAt = pgTime ts\<rparr>"

definition shortCheck :: "createShortURLRepositoryInput \<Rightarrow> pgTables \<Rightarrow> shortURL \<Rightarrow> pgError option" where
  "shortCheck inp t row =
     (if castVarchar 32 (csr_Code inp) = None then Some (valueTooLong ''character varying(32)'')
      else if su_Code row \<in> su_Code ` set (mvals (t_short_urls t)) then Some (PgUnique ''short_urls_code_key'')
      else None)"

definition pgShort_Create ::
  "createShortURLRepositoryInput \<Rightarrow> time \<Rightarrow> pgDB \<Rightarrow> (shortURLError + shortURL) \<times> pgDB" where
  "pgShort_Create inp ts s =
     (case runStmt (insertStmt ''short_urls'' t_short_urls putShortURLs (shortCheck inp) (shortRow inp ts)) s of
        (Inl (PgUnique c), s1) \<Rightarrow> (Inl ErrShortURLCodeConflict, s1)
      | (Inl e, s1) \<Rightarrow> (Inl (ShortURLRepoError (''insert short url: '' @ pgText e)), s1)
      | (Inr u, s1) \<Rightarrow> (Inr u, s1))"

definition shortByCode :: "string \<Rightarrow> pgTables \<Rightarrow> shortURL option" where
  "shortByCode code t = find (\<lambda>u. su_Code u = code) (mvals (t_short_urls t))"

definition pgShort_Get :: "string \<Rightarrow> pgDB \<Rightarrow> (shortURLError + shortURL) \<times> pgDB" where
  "pgShort_Get code s =
     (case runStmt (selectStmt (\<lambda>t. case shortByCode code t of None \<Rightarrow> Inl ErrNoRows | Some u \<Rightarrow> Inr u)) s of
        (Inl e, s1) \<Rightarrow> (Inl (if e = ErrNoRows then ErrShortURLNotFound
                               else ShortURLRepoError (''select short url: '' @ pgText e)), s1)
      | (Inr u, s1) \<Rightarrow> (Inr u, s1))"

definition postgresShortRepo :: "pgDB shortURLRepository" where
  "postgresShortRepo = \<lparr>sur_Create = pgShort_Create, sur_Get = pgShort_Get\<rparr>"

section \<open>File metadata\<close>

definition putFiles :: "(int64, fileRecord) gomap \<Rightarrow> pgTables \<Rightarrow> pgTables" where
  "putFiles rows t = t\<lparr>t_uploaded_files := rows\<rparr>"

definition fileRow :: "createFileInput \<Rightarrow> time \<Rightarrow> int64 \<Rightarrow> fileRecord" where
  "fileRow inp ts i = (newFileRecord i inp (pgTime ts))\<lparr>fr_SHA256 :=
     (case castChar 64 (cf_SHA256 inp) of None \<Rightarrow> cf_SHA256 inp | Some c \<Rightarrow> c)\<rparr>"

definition fileCheck :: "createFileInput \<Rightarrow> pgTables \<Rightarrow> fileRecord \<Rightarrow> pgError option" where
  "fileCheck inp t row =
     (if castChar 64 (cf_SHA256 inp) = None then Some (valueTooLong ''character(64)'')
      else if fr_SizeBytes row < 0 then Some (checkViolation ''uploaded_files_size_bytes_check'')
      else if fr_StorageKey row \<in> fr_StorageKey ` set (mvals (t_uploaded_files t))
      then Some (PgUnique ''uploaded_files_storage_key_key'')
      else None)"

definition pgFile_Create :: "createFileInput \<Rightarrow> time \<Rightarrow> pgDB \<Rightarrow> (fileError + fileRecord) \<times> pgDB" where
  "pgFile_Create inp ts s =
     (case runStmt (insertStmt ''uploaded_files'' t_uploaded_files putFiles (fileCheck inp) (fileRow inp ts)) s of
        (Inl e, s1) \<Rightarrow> (Inl (FileRepoError (''insert uploaded file: '' @ pgText e)), s1)
      | (Inr f, s1) \<Rightarrow> (Inr f, s1))"

definition pgFile_Get :: "int64 \<Rightarrow> pgDB \<Rightarrow> (fileError + fileRecord) \<times> pgDB" where
  "pgFile_Get i s = (case runStmt (selectStmt (\<lambda>t. rowByID (t_uploaded_files t) i)) s of
       (Inl e, s1) \<Rightarrow> (Inl (if e = ErrNoRows then ErrFileNotFound
                              else FileRepoError (''select uploaded file: '' @ pgText e)), s1)
     | (Inr f, s1) \<Rightarrow> (Inr f, s1))"

definition postgresFileRepo :: "pgDB fileRepository" where
  "postgresFileRepo = \<lparr>fr_CreateFile = pgFile_Create, fr_GetFile = pgFile_Get\<rparr>"

lemmas pgTask_defs [repo_defs] = postgresTaskRepo_def pgTask_List_def pgTask_Create_def pgTask_Get_def
  pgTask_Update_def pgTask_Delete_def putTasks_def
lemmas pgShort_defs [repo_defs] = postgresShortRepo_def pgShort_Create_def pgShort_Get_def putShortURLs_def
lemmas pgFile_defs [repo_defs] = postgresFileRepo_def pgFile_Create_def pgFile_Get_def putFiles_def

lemma queryRows_keeps: "queryRows what iter f s = (res, s') \<Longrightarrow> pg_tables s' = pg_tables s \<and> pg_seqs s' = pg_seqs s"
  using select_keeps takeFault_keeps_eq
  by (fastforce simp: queryRows_def split: prod.splits sum.splits option.splits)

lemma queryRows_Inr: "queryRows what iter f s = (Inr rows, s') \<Longrightarrow> rows = f (pg_tables s)"
  by (auto simp: queryRows_def dest!: select_Inr split: prod.splits sum.splits option.splits)

lemma queryRows_full:
  assumes "queryRows what iter f s = (res, s')"
  shows "pg_tables s' = pg_tables s \<and> pg_seqs s' = pg_seqs s \<and> (\<forall>rows. res = Inr rows \<longrightarrow> rows = f (pg_tables s))"
  using queryRows_keeps [OF assms] queryRows_Inr [of what iter f s _ s'] assms by auto

lemma queryRows_nofault: "pg_faults s = [] \<Longrightarrow> queryRows what iter f s = (Inr (f (pg_tables s)), s)"
  by (simp add: queryRows_def runStmt_nofault selectStmt_def takeFault_none)

section \<open>The contracts\<close>

definition pgTaskInv :: "pgDB \<Rightarrow> bool" where
  [inv_defs]: "pgTaskInv s \<longleftrightarrow> tableOK (t_tasks (pg_tables s)) (seqVal (pg_seqs s) ''tasks'') \<and>
     (\<forall>i t. map_of (t_tasks (pg_tables s)) i = Some t \<longrightarrow> task_ID t = i)"

lemma pgTask_list_sorted:
  assumes "pgTaskInv s"
  shows "sorted_wrt (\<lambda>a b. task_ID a < task_ID b) (mvals (orderByID (t_tasks (pg_tables s))))"
proof -
  let ?rows = "t_tasks (pg_tables s)"
  have d: "distinct (mkeys ?rows)" using assms by (simp add: pgTaskInv_def tableOK_def)
  have "task_ID (snd x) = fst x" if "x \<in> set ?rows" for x
    using assms that d by (cases x) (auto simp: pgTaskInv_def)
  then show ?thesis
    using sorted_wrt_mono_rel [OF _ orderByID_sorted [OF d], of "\<lambda>a b. task_ID (snd a) < task_ID (snd b)"]
    by (simp add: sorted_wrt_map)
qed

interpretation pgTasks: task_repo postgresTaskRepo "\<lambda>s. map_of (t_tasks (pg_tables s))" pgTaskInv "\<lambda>s. True" pgTime
proof (unfold_locales, goal_cases)
  case (1 s res s')
  then obtain r where q: "queryRows ''query tasks: '' ''iterate task rows: '' (\<lambda>t. mvals (orderByID (t_tasks t))) s = (r, s')"
    and r: "\<And>ts. res = Inr ts \<Longrightarrow> ts = mvals (orderByID (t_tasks (pg_tables s)))"
    by (auto simp: pgTask_defs dest: queryRows_Inr split: prod.splits sum.splits)
  have "set (mvals (orderByID (t_tasks (pg_tables s)))) = ran (map_of (t_tasks (pg_tables s)))"
    using 1(1) by (intro orderByID_vals) (simp add: pgTaskInv_def tableOK_def)
  with queryRows_keeps [OF q] r 1(1) pgTask_list_sorted [OF 1(1)] show ?case
    unfolding pgTaskInv_def by metis
next
  case (2 s i gres s')
  then show ?case
    by (auto simp: pgTask_defs pgTaskInv_def dest!: select_full
        split: prod.splits sum.splits if_splits)
next
  case (3 s inp ts cres s')
  let ?n = "seqVal (pg_seqs s) ''tasks''"
  have ok: "tableOK (t_tasks (pg_tables s)) ?n" using 3(1) by (simp add: pgTaskInv_def)
  show ?case
  proof (cases cres)
    case (Inl e)
    with 3(2) obtain e' where r: "runStmt (insertStmt ''tasks'' t_tasks putTasks (\<lambda>t row. None)
        (\<lambda>i. newTask i inp (pgTime ts))) s = (Inl e', s')"
      by (auto simp: postgresTaskRepo_def pgTask_Create_def split: prod.splits sum.splits)
    have "pgTaskInv s'" "pg_tables s' = pg_tables s"
      using insert_err [OF r] insert_err_ok [OF r ok] 3(1) by (auto simp: pgTaskInv_def)
    with Inl show ?thesis by auto
  next
    case (Inr t)
    with 3(2) obtain i: "runStmt (insertStmt ''tasks'' t_tasks putTasks (\<lambda>t row. None)
        (\<lambda>i. newTask i inp (pgTime ts))) s = (Inr t, s')"
      by (auto simp: pgTask_defs split: prod.splits sum.splits)
    from insert_Inr [OF i] have t: "task_ID t = ?n + 1" "t = newTask (?n + 1) inp (pgTime ts)" "?n + 1 \<le> maxInt64"
        "t_tasks (pg_tables s') = mput (?n + 1) t (t_tasks (pg_tables s))" "seqVal (pg_seqs s') ''tasks'' = ?n + 1"
        "map_of (t_tasks (pg_tables s)) (?n + 1) = None"
      by (auto simp: putTasks_def)
    then have "pgTaskInv s'" using 3(1) tableOK_insert [OF ok] by (auto simp: pgTaskInv_def)
    with Inr t show ?thesis by (auto simp: fun_eq_iff)
  qed
next
  case (4 s i inp ts ures s')
  show ?case
  proof (cases ures)
    case (Inl e)
    with 4 show ?thesis
      by (auto simp: pgTask_defs pgTaskInv_def dest!: exec_err split: prod.splits sum.splits)
  next
    case (Inr t)
    with 4(2) obtain x where x: "map_of (t_tasks (pg_tables s)) i = Some x" "t = applyTaskInput inp (pgTime ts) x"
      "t_tasks (pg_tables s') = mput i t (t_tasks (pg_tables s))" "pg_seqs s' = pg_seqs s"
      by (auto simp: pgTask_defs Let_def dest!: exec_ok split: prod.splits sum.splits option.splits)
    then have "pgTaskInv s'" using 4(1) tableOK_update [of "t_tasks (pg_tables s)"]
      by (auto simp: pgTaskInv_def applyTaskInput_def)
    with Inr x show ?thesis by (auto simp: fun_eq_iff)
  qed
next
  case (5 s i dres s')
  show ?case
  proof (cases "\<exists>e. fst (runStmt (execStmt (\<lambda>t. Inr (if map_of (t_tasks t) i = None then 0 else 1 :: int,
            putTasks (mdel i (t_tasks t)) t))) s) = Inl e")
    case True
    with 5 show ?thesis
      by (auto simp: pgTask_defs pgTaskInv_def dest!: exec_err split: prod.splits sum.splits)
  next
    case False
    with 5(2) have d: "t_tasks (pg_tables s') = mdel i (t_tasks (pg_tables s))" "pg_seqs s' = pg_seqs s"
      "dres = (if map_of (t_tasks (pg_tables s)) i = None then Inl ErrTaskNotFound else Inr ())"
      by (auto simp: pgTask_defs dest!: exec_ok split: prod.splits sum.splits if_splits)
    then have "pgTaskInv s'" using 5(1) tableOK_delete [of "t_tasks (pg_tables s)"]
      by (auto simp: pgTaskInv_def)
    with d show ?thesis by (auto simp: fun_eq_iff)
  qed
qed

lemma plain_len: "isASCII s \<Longrightarrow> pgCharLen s = length s"
  unfolding pgCharLen_def by (subst filter_True) (auto simp: isASCII_def)

definition pgShortInv :: "pgDB \<Rightarrow> bool" where
  [inv_defs]: "pgShortInv s \<longleftrightarrow> tableOK (t_short_urls (pg_tables s)) (seqVal (pg_seqs s) ''short_urls'') \<and>
     distinct (map su_Code (mvals (t_short_urls (pg_tables s))))"

lemma find_distinct_append:
  "f y \<notin> f ` set xs \<Longrightarrow> find (\<lambda>x. f x = c) (xs @ [y]) = (if c = f y then Some y else find (\<lambda>x. f x = c) xs)"
  by (induction xs) (auto simp: image_iff)

lemma castVarchar_allowed:
  assumes "codeAllowed code" and "castVarchar 32 code \<noteq> None"
  shows "castVarchar 32 code = Some code"
proof -
  have "CHR '' '' \<notin> set code" using assms(1) by (auto simp: codeAllowed_def list_all_iff isAlpha_def isDigit_def)
  then have "trimBlanks code = code"
    by (cases code rule: rev_cases) (auto simp: trimBlanks_def)
  with assms(2) show ?thesis by (auto simp: castVarchar_def split: if_splits)
qed

interpretation pgShort: short_url_repo postgresShortRepo "\<lambda>s code. shortByCode code (pg_tables s)" pgShortInv pgTime
proof (unfold_locales, goal_cases)
  case (1 s inp ts res s')
  let ?n = "seqVal (pg_seqs s) ''short_urls''" and ?rows = "t_short_urls (pg_tables s)"
  have ok: "tableOK ?rows ?n" using 1(1) by (simp add: pgShortInv_def)
  then have fresh: "map_of ?rows (?n + 1) = None" by (simp add: tableOK_fresh)
  obtain r where r: "runStmt (insertStmt ''short_urls'' t_short_urls putShortURLs (shortCheck inp) (shortRow inp ts)) s = (r, s')"
    using 1(3) by (auto simp: pgShort_defs split: prod.splits sum.splits pgError.splits)
  show ?case
  proof (cases r)
    case (Inl e)
    note ins = insert_Inl [OF r [unfolded Inl]]
    have inv: "pgShortInv s'" using 1(1) ins(1,2) tableOK_mono [OF ok] by (auto simp: pgShortInv_def)
    have "shortByCode (csr_Code inp) (pg_tables s) \<noteq> None" if "e = PgUnique c" for c
      using ins(3) [OF that] fresh castVarchar_allowed [OF 1(2)]
      by (auto simp: shortCheck_def shortRow_def shortByCode_def find_None_iff valueTooLong_def
          split: if_splits intro!: bexI [of _ "(_, _)"])
    with inv 1(3) r Inl ins(1) show ?thesis
      by (auto simp: pgShort_defs split: prod.splits sum.splits pgError.splits)
  next
    case (Inr u)
    note ins = insert_Inr [OF r [unfolded Inr]]
    have u: "su_Code u = csr_Code inp" "su_TargetURL u = csr_TargetURL inp" "su_CreatedAt u = pgTime ts"
      "su_Code u \<notin> su_Code ` set (mvals ?rows)"
      using ins(1,3) castVarchar_allowed [OF 1(2)] by (auto simp: shortCheck_def shortRow_def split: if_splits)
    have rows: "t_short_urls (pg_tables s') = ?rows @ [(?n + 1, u)]"
      using ins(6) fresh by (simp add: putShortURLs_def mkeys_mput_fresh)
    then have "pgShortInv s'"
      using 1(1) u(4) ins(2,5,6) tableOK_insert [OF ok]
      by (auto simp: pgShortInv_def putShortURLs_def mkeys_mput_fresh [OF fresh])
    moreover have "shortByCode c (pg_tables s') = (if c = su_Code u then Some u else shortByCode c (pg_tables s))" for c
      using find_distinct_append [OF u(4)] rows by (simp add: shortByCode_def)
    moreover have "shortByCode (su_Code u) (pg_tables s) = None"
      unfolding shortByCode_def find_None_iff using u(4) by (metis imageI)
    moreover have "res = Inr u" using 1(3) r Inr by (auto simp: pgShort_defs split: prod.splits sum.splits)
    ultimately show ?thesis using u by (auto simp: fun_eq_iff)
  qed
next
  case (2 s code gres s')
  then show ?case
    by (auto simp: pgShort_defs pgShortInv_def dest!: select_full
        split: prod.splits sum.splits if_splits option.splits)
qed

definition pgFileInv :: "pgDB \<Rightarrow> bool" where
  [inv_defs]: "pgFileInv s \<longleftrightarrow> tableOK (t_uploaded_files (pg_tables s)) (seqVal (pg_seqs s) ''uploaded_files'') \<and>
     (\<forall>i r. map_of (t_uploaded_files (pg_tables s)) i = Some r \<longrightarrow> fr_ID r = i)"

text \<open>A digest of 64 hexadecimal digits fills the \<open>CHAR(64)\<close> column exactly.\<close>

definition shaFits :: "createFileInput \<Rightarrow> bool" where
  "shaFits inp \<longleftrightarrow> castChar 64 (cf_SHA256 inp) = Some (cf_SHA256 inp)"

interpretation pgFiles: file_repo postgresFileRepo "\<lambda>s. map_of (t_uploaded_files (pg_tables s))" pgFileInv
  "\<lambda>s. True" shaFits pgTime
proof (unfold_locales, goal_cases)
  case (1 s inp ts res s')
  let ?n = "seqVal (pg_seqs s) ''uploaded_files''" and ?rows = "t_uploaded_files (pg_tables s)"
  have ok: "tableOK ?rows ?n" using 1(1) by (simp add: pgFileInv_def)
  obtain r where r: "runStmt (insertStmt ''uploaded_files'' t_uploaded_files putFiles (fileCheck inp) (fileRow inp ts)) s = (r, s')"
    and res: "\<And>x. res = Inr x \<longleftrightarrow> r = Inr x"
    using 1(4) by (auto simp: pgFile_defs split: prod.splits sum.splits)
  show ?case
  proof (cases r)
    case (Inl e)
    have "pgFileInv s'" "pg_tables s' = pg_tables s"
      using insert_err [OF r [unfolded Inl]] insert_err_ok [OF r [unfolded Inl] ok] 1(1)
      by (auto simp: pgFileInv_def)
    with res Inl show ?thesis by auto
  next
    case (Inr f)
    note ins = insert_Inr [OF r [unfolded Inr]]
    have f: "f = newFileRecord (?n + 1) inp (pgTime ts)"
      using ins(1) 1(3) by (simp add: fileRow_def shaFits_def newFileRecord_def)
    have rows: "t_uploaded_files (pg_tables s') = mput (?n + 1) f ?rows" "seqVal (pg_seqs s') ''uploaded_files'' = ?n + 1"
      using ins(5,6) by (simp_all add: putFiles_def)
    have "pgFileInv s'"
      unfolding pgFileInv_def rows using 1(1) tableOK_insert [OF ok ins(2)] f
      by (auto simp: pgFileInv_def newFileRecord_def)
    moreover have "0 < ?n + 1" "in64 (?n + 1)" using ok ins(2) by (auto simp: tableOK_def in64_def maxInt64_def)
    ultimately show ?thesis using res Inr rows(1) ins(4) f by (auto simp: newFileRecord_def fun_eq_iff)
  qed
next
  case (2 s i gres s')
  then show ?case
    by (auto simp: pgFile_defs pgFileInv_def dest!: select_full
        split: prod.splits sum.splits if_splits)
qed

section \<open>The two task repositories answer alike\<close>

text \<open>A script of requests to the tasks API, and the responses it gets from a repository.\<close>

datatype taskCall = CallList request | CallCreate time "taskInput jsonBody" request | CallGet request
  | CallUpdate time "taskInput jsonBody" request | CallDelete request

primrec serveCall :: "'s taskRepository \<Rightarrow> taskCall \<Rightarrow> 's \<Rightarrow> taskPayload response \<times> 's" where
  "serveCall repo (CallList r) s = listTasks repo s r"
| "serveCall repo (CallCreate now body r) s = createTask repo now body s r"
| "serveCall repo (CallGet r) s = getTask repo s r"
| "serveCall repo (CallUpdate now body r) s = updateTask repo now body s r"
| "serveCall repo (CallDelete r) s = deleteTask repo s r"

primrec serveCalls :: "'s taskRepository \<Rightarrow> taskCall list \<Rightarrow> 's \<Rightarrow> taskPayload response list" where
  "serveCalls repo [] s = []"
| "serveCalls repo (c # cs) s = (let (res, s') = serveCall repo c s in res # serveCalls repo cs s')"

definition storedTask :: "task \<Rightarrow> task" where
  "storedTask t = t\<lparr>task_CreatedAt := pgTime (task_CreatedAt t), task_UpdatedAt := pgTime (task_UpdatedAt t)\<rparr>"

definition taskSim :: "memoryTaskRepository \<Rightarrow> pgDB \<Rightarrow> bool" where
  "taskSim m p \<longleftrightarrow> memTaskInv m \<and> pgTaskInv p \<and> pg_faults p = [] \<and>
     mt_nextID m = seqVal (pg_seqs p) ''tasks'' + 1 \<and>
     (\<forall>i. map_of (t_tasks (pg_tables p)) i = map_option storedTask (map_of (mt_tasks m) i))"

lemma fmtRFC3339_pgTime [simp]: "fmtRFC3339 (pgTime t) = fmtRFC3339 t"
proof -
  have "(t div 1000 * 1000) div (1000 * 1000000) = t div (1000 * 1000000)"
    by (subst (1 2) zdiv_zmult2_eq) simp_all
  then have "unixSec (pgTime t) = unixSec t" by (simp add: unixSec_def pgTime_def second_def)
  then show ?thesis by (simp add: fmtRFC3339_def)
qed

lemma storedTask_simps [simp]:
  "toTaskResponse (storedTask t) = toTaskResponse t" "canAccess uid role (storedTask t) = canAccess uid role t"
  "task_ID (storedTask t) = task_ID t" "storedTask (newTask i inp ts) = newTask i inp (pgTime ts)"
  "storedTask (applyTaskInput inp ts t) = applyTaskInput inp (pgTime ts) (storedTask t)"
  by (simp_all add: storedTask_def toTaskResponse_def canAccess_def newTask_def applyTaskInput_def)

text \<open>Without faults each operation of the database repository is a plain function of the table.\<close>

lemma pgTask_nofault:
  assumes "pg_faults p = []"
  shows "pgTask_List p = (Inr (mvals (orderByID (t_tasks (pg_tables p)))), p)"
    and "pgTask_Get i p = ((case map_of (t_tasks (pg_tables p)) i of None \<Rightarrow> Inl ErrTaskNotFound | Some t \<Rightarrow> Inr t), p)"
    and "pgTask_Update i inp ts p = (case map_of (t_tasks (pg_tables p)) i of
        None \<Rightarrow> (Inl ErrTaskNotFound, p)
      | Some x \<Rightarrow> let x' = applyTaskInput inp (pgTime ts) x
          in (Inr x', p\<lparr>pg_tables := putTasks (mput i x' (t_tasks (pg_tables p))) (pg_tables p)\<rparr>))"
    and "pgTask_Delete i p = (if map_of (t_tasks (pg_tables p)) i = None then Inl ErrTaskNotFound else Inr (),
        p\<lparr>pg_tables := putTasks (mdel i (t_tasks (pg_tables p))) (pg_tables p)\<rparr>)"
  using assms
  by (simp_all add: pgTask_List_def pgTask_Get_def pgTask_Update_def pgTask_Delete_def queryRows_nofault runStmt_nofault
      selectStmt_def execStmt_def rowByID_def Let_def split: option.split)

lemma taskSim_list:
  assumes "taskSim m p"
  shows "mvals (orderByID (t_tasks (pg_tables p))) = map storedTask (sortFunc compareTaskByID (mvals (mt_tasks m)))"
proof (rule strictly_sorted_unique [where key = task_ID])
  have inv: "memTaskInv m" "pgTaskInv p"
    and same: "map_of (t_tasks (pg_tables p)) = map_option storedTask \<circ> map_of (mt_tasks m)"
    using assms by (simp_all add: taskSim_def fun_eq_iff)
  show "sorted_wrt (\<lambda>a b. task_ID a < task_ID b) (mvals (orderByID (t_tasks (pg_tables p))))"
    using inv by (simp add: pgTask_list_sorted)
  show "sorted_wrt (\<lambda>a b. task_ID a < task_ID b) (map storedTask (sortFunc compareTaskByID (mvals (mt_tasks m))))"
    using memTask_vals [OF inv(1)] by (simp add: sorted_wrt_map sorted_by_ID)
  have "set (mvals (orderByID (t_tasks (pg_tables p)))) = ran (map_of (t_tasks (pg_tables p)))"
    using inv(2) by (intro orderByID_vals) (simp add: pgTaskInv_def tableOK_def)
  also have "\<dots> = storedTask ` ran (map_of (mt_tasks m))"
    unfolding same by (auto simp: ran_def)
  finally show "set (mvals (orderByID (t_tasks (pg_tables p))))
      = set (map storedTask (sortFunc compareTaskByID (mvals (mt_tasks m))))"
    using memTask_vals [OF inv(1)] by simp
qed

lemma taskSim_inv:
  assumes "taskSim m p" and "memTaskInv m'" and "pgTaskInv p'" and "pg_faults p' = []"
    and "mt_nextID m' = mt_nextID m" and "pg_seqs p' = pg_seqs p"
    and "\<And>i. map_of (t_tasks (pg_tables p')) i = map_option storedTask (map_of (mt_tasks m') i)"
  shows "taskSim m' p'"
  using assms by (simp add: taskSim_def)

lemma taskSim_get: "taskSim m p \<Longrightarrow> map_of (t_tasks (pg_tables p)) i = map_option storedTask (map_of (mt_tasks m) i)"
  by (simp add: taskSim_def)

lemma taskSim_nofault: "taskSim m p \<Longrightarrow> pg_faults p = []"
  by (simp add: taskSim_def)

lemma taskSim_update:
  assumes "taskSim m p" and "map_of (mt_tasks m) i = Some t"
  shows "\<exists>p'. pgTask_Update i inp ts p = (Inr (storedTask (applyTaskInput inp ts t)), p') \<and>
     taskSim (snd (memTask_Update i inp ts m)) p'"
proof (intro exI conjI)
  let ?t = "applyTaskInput inp (pgTime ts) (storedTask t)"
  let ?p = "p\<lparr>pg_tables := putTasks (mput i ?t (t_tasks (pg_tables p))) (pg_tables p)\<rparr>"
  show eq: "pgTask_Update i inp ts p = (Inr (storedTask (applyTaskInput inp ts t)), ?p)"
    using assms taskSim_get [OF assms(1), of i] by (simp add: pgTask_nofault taskSim_def Let_def)
  have "pgTaskInv ?p" using pgTasks.update_spec [of p i inp ts _ ?p] assms(1) eq
    by (auto simp: taskSim_def postgresTaskRepo_def)
  moreover have "memTaskInv (snd (memTask_Update i inp ts m))"
    using memTasks.update_spec [of m i inp ts] assms(1)
    by (cases "memTask_Update i inp ts m") (auto simp: taskSim_def memoryTaskRepo_def)
  ultimately show "taskSim (snd (memTask_Update i inp ts m)) ?p"
    using assms taskSim_get [OF assms(1)]
    by (intro taskSim_inv [OF assms(1)]) (auto simp: memTask_Update_def putTasks_def taskSim_def Let_def)
qed

lemma taskSim_delete:
  assumes "taskSim m p" and "map_of (mt_tasks m) i = Some t"
  shows "\<exists>p'. pgTask_Delete i p = (Inr (), p') \<and> taskSim (snd (memTask_Delete i m)) p'"
proof (intro exI conjI)
  let ?p = "p\<lparr>pg_tables := putTasks (mdel i (t_tasks (pg_tables p))) (pg_tables p)\<rparr>"
  show eq: "pgTask_Delete i p = (Inr (), ?p)"
    using assms taskSim_get [OF assms(1), of i] by (simp add: pgTask_nofault taskSim_def)
  have "pgTaskInv ?p" using pgTasks.delete_spec [of p i _ ?p] assms(1) eq
    by (auto simp: taskSim_def postgresTaskRepo_def)
  moreover have "memTaskInv (snd (memTask_Delete i m))"
    using memTasks.delete_spec [of m i] assms(1)
    by (cases "memTask_Delete i m") (auto simp: taskSim_def memoryTaskRepo_def)
  ultimately show "taskSim (snd (memTask_Delete i m)) ?p"
    using assms taskSim_get [OF assms(1)]
    by (intro taskSim_inv [OF assms(1)]) (auto simp: memTask_Delete_def putTasks_def taskSim_def)
qed

lemma taskSim_create:
  assumes "taskSim m p" and "mt_nextID m < maxInt64"
  shows "\<exists>p'. pgTask_Create inp ts p = (Inr (storedTask (newTask (mt_nextID m) inp ts)), p') \<and>
     taskSim (snd (memTask_Create inp ts m)) p'"
proof -
  let ?n = "seqVal (pg_seqs p) ''tasks'' + 1"
  have p: "pgTaskInv p" "pg_faults p = []" "mt_nextID m = ?n" "memTaskInv m" using assms(1) by (simp_all add: taskSim_def)
  have "map_of (t_tasks (pg_tables p)) ?n = None" using p(1) by (intro tableOK_fresh) (auto simp: pgTaskInv_def)
  then obtain p' where p': "pgTask_Create inp ts p = (Inr (newTask ?n inp (pgTime ts)), p')"
      "pg_seqs p' = mput ''tasks'' ?n (pg_seqs p)" "pg_faults p' = []"
      "t_tasks (pg_tables p') = mput ?n (newTask ?n inp (pgTime ts)) (t_tasks (pg_tables p))"
    using insert_nofault [OF p(2), of "''tasks''" t_tasks "\<lambda>t row. None" "\<lambda>i. newTask i inp (pgTime ts)" putTasks] assms(2) p(2,3)
    by (simp add: pgTask_Create_def putTasks_def)
  have "pgTaskInv p'" using pgTasks.create_spec [of p inp ts _ p'] p(1) p'(1) by (simp add: postgresTaskRepo_def)
  moreover have "memTaskInv (snd (memTask_Create inp ts m))"
    using memTasks.create_spec [of m inp ts] p(4) assms(2)
    by (cases "memTask_Create inp ts m") (auto simp: memTaskRoom_def memoryTaskRepo_def)
  moreover have "in64 (mt_nextID m + 1)" using p(4) assms(2) by (simp add: memTaskInv_def in64_succ)
  ultimately have "taskSim (snd (memTask_Create inp ts m)) p'"
    using p p' taskSim_get [OF assms(1)] by (auto simp: taskSim_def memTask_Create_def Let_def)
  with p'(1) p(3) show ?thesis by simp
qed

lemma memTask_Get_eq:
  "memTask_Get i m = ((case map_of (mt_tasks m) i of None \<Rightarrow> Inl ErrTaskNotFound | Some t \<Rightarrow> Inr t), m)"
  by (simp add: memTask_Get_def split: option.split)

text \<open>One request: the same response, and the states stay related. At most one id is drawn.\<close>

lemma serveCall_sim:
  assumes sim: "taskSim m p" and "mt_nextID m < maxInt64"
  shows "fst (serveCall memoryTaskRepo c m) = fst (serveCall postgresTaskRepo c p) \<and>
     taskSim (snd (serveCall memoryTaskRepo c m)) (snd (serveCall postgresTaskRepo c p)) \<and>
     mt_nextID (snd (serveCall memoryTaskRepo c m)) \<le> mt_nextID m + 1"
proof (cases c)
  case (CallList r)
  have "memTask_List m = (Inr (sortFunc compareTaskByID (mvals (mt_tasks m))), m)" by (simp add: memTask_List_def)
  moreover have "pgTask_List p = (Inr (map storedTask (sortFunc compareTaskByID (mvals (mt_tasks m)))), p)"
    using sim taskSim_list [OF sim] by (simp add: pgTask_nofault taskSim_def)
  ultimately show ?thesis using CallList sim
    by (simp add: listTasks_def memoryTaskRepo_def postgresTaskRepo_def filter_map comp_def split: option.split)
next
  case (CallCreate now body r)
  have "in64 (mt_nextID m)" using sim unfolding taskSim_def memTaskInv_def by blast
  note room = in64_succ [OF this assms(2)]
  define M where "M inp = snd (memTask_Create inp now m)" for inp
  define P where "P inp = snd (pgTask_Create inp now p)" for inp
  have "memTask_Create inp now m = (Inr (newTask (mt_nextID m) inp now), M inp)" and "mt_nextID (M inp) = mt_nextID m + 1" for inp
    using room by (simp_all add: M_def memTask_Create_def Let_def)
  moreover have "pgTask_Create inp now p = (Inr (storedTask (newTask (mt_nextID m) inp now)), P inp) \<and> taskSim (M inp) (P inp)" for inp
    using taskSim_create [OF assms, of inp now] by (auto simp: M_def P_def)
  moreover have "toTaskResponse (newTask i inp (pgTime now)) = toTaskResponse (newTask i inp now)" for i inp
    by (metis storedTask_simps(1,4))
  ultimately show ?thesis
    using CallCreate sim
    by (simp add: createTask_def memoryTaskRepo_def postgresTaskRepo_def Let_def split: option.split sum.split)
next
  case (CallGet r)
  then show ?thesis using sim taskSim_get [OF sim]
    by (simp add: getTask_def memoryTaskRepo_def postgresTaskRepo_def pgTask_nofault memTask_Get_eq taskSim_def [of m p]
        split: option.split sum.split)
next
  case (CallUpdate now body r)
  define M where "M i inp = snd (memTask_Update i inp now m)" for i inp
  define P where "P i inp = snd (pgTask_Update i inp now p)" for i inp
  have "memTask_Update i inp now m = (Inr (applyTaskInput inp now t), M i inp) \<and> mt_nextID (M i inp) = mt_nextID m \<and>
      pgTask_Update i inp now p = (Inr (storedTask (applyTaskInput inp now t)), P i inp) \<and> taskSim (M i inp) (P i inp)"
    if "map_of (mt_tasks m) i = Some t" for i t inp
    using that taskSim_update [OF sim that, of inp now] by (auto simp: memTask_Update_def Let_def M_def P_def)
  moreover have "toTaskResponse (applyTaskInput inp (pgTime now) (storedTask t)) = toTaskResponse (applyTaskInput inp now t)" for inp t
    by (metis storedTask_simps(1,5))
  ultimately show ?thesis using CallUpdate sim taskSim_get [OF sim] taskSim_nofault [OF sim]
    by (simp add: updateTask_def memoryTaskRepo_def postgresTaskRepo_def pgTask_nofault(2) memTask_Get_eq Let_def
        split: option.split sum.split)
next
  case (CallDelete r)
  define M where "M i = snd (memTask_Delete i m)" for i
  define P where "P i = snd (pgTask_Delete i p)" for i
  have "memTask_Delete i m = (Inr (), M i) \<and> mt_nextID (M i) = mt_nextID m \<and>
      pgTask_Delete i p = (Inr (), P i) \<and> taskSim (M i) (P i)" if "map_of (mt_tasks m) i = Some t" for i t
    using that taskSim_delete [OF sim that] by (auto simp: memTask_Delete_def M_def P_def)
  then show ?thesis using CallDelete sim taskSim_get [OF sim] taskSim_nofault [OF sim]
    by (simp add: deleteTask_def memoryTaskRepo_def postgresTaskRepo_def pgTask_nofault(2) memTask_Get_eq
        split: option.split sum.split)
qed

lemma serveCalls_sim:
  assumes "taskSim m p" and "mt_nextID m + int (length cs) \<le> maxInt64"
  shows "serveCalls memoryTaskRepo cs m = serveCalls postgresTaskRepo cs p"
  using assms
proof (induction cs arbitrary: m p)
  case (Cons c cs)
  then have "mt_nextID m < maxInt64" by simp
  note one = serveCall_sim [OF Cons.prems(1) this, of c]
  then have "serveCalls memoryTaskRepo cs (snd (serveCall memoryTaskRepo c m))
      = serveCalls postgresTaskRepo cs (snd (serveCall postgresTaskRepo c p))"
    using Cons.prems(2) by (intro Cons.IH) auto
  with one show ?case by (simp add: case_prod_beta Let_def)
qed simp

text \<open>
  C6: the tasks API does not depend on which repository it runs on. From empty repositories and on
  a database that refuses no statement, any script of list, create, get, update and delete
  requests of any users gets literally the same sequence of responses (ids, order, time stamps and
  error bodies included) from the PostgreSQL repository as from the in-memory one.
\<close>

theorem task_repositories_equivalent:
  assumes "int (length cs) < maxInt64"
  shows "serveCalls postgresTaskRepo cs (freshDB []) = serveCalls memoryTaskRepo cs newMemoryTaskRepository"
proof -
  have "taskSim newMemoryTaskRepository (freshDB [])"
    using memTaskInv_new by (simp add: taskSim_def pgTaskInv_def freshDB_def emptyTables_def newMemoryTaskRepository_def seqVal_def
        maxInt64_def)
  from serveCalls_sim [OF this] assms show ?thesis by (simp add: newMemoryTaskRepository_def)
qed

definition demoCalls :: "taskCall list" where
  "demoCalls = [CallCreate 5 (okBody demoTaskInput) (demoPrincipal 1 ''user''),
     CallCreate 7 (okBody demoTaskInput) (demoPrincipal 2 ''user''), CallList (demoPrincipal 1 ''admin'')]"

theorem task_repositories_equivalent_witness:
  "serveCalls postgresTaskRepo demoCalls (freshDB []) = serveCalls memoryTaskRepo demoCalls newMemoryTaskRepository
     \<and> length (serveCalls memoryTaskRepo demoCalls newMemoryTaskRepository) = 3"
  using task_repositories_equivalent [of demoCalls] by (simp add: demoCalls_def Let_def case_prod_beta maxInt64_def)

section \<open>The order of the migrations\<close>

text \<open>A pool that records the SQL it is given and refuses the texts \<open>fails\<close> says.\<close>

definition logExec :: "(string \<Rightarrow> string option) \<Rightarrow> string list sqlExec" where
  "logExec fails sql sent = (fails sql, sent @ [sql])"

definition scriptsOf :: "migrationFS \<Rightarrow> string list \<Rightarrow> string list" where
  "scriptsOf fs ns = filter (\<lambda>sql. trimSpace sql \<noteq> '''') (map (\<lambda>n. projr (mig_readFile fs (''migrations/'' @ n))) ns)"

definition upToFailure :: "(string \<Rightarrow> string option) \<Rightarrow> string list \<Rightarrow> string list" where
  "upToFailure fails qs = take (Suc (length (takeWhile (\<lambda>q. fails q = None) qs))) qs"

lemma applyMigrations_log:
  assumes "\<And>n. n \<in> set ns \<Longrightarrow> \<not> isl (mig_readFile fs (''migrations/'' @ n))"
  shows "snd (applyMigrations fs (logExec fails) ns sent) = sent @ upToFailure fails (scriptsOf fs ns)
     \<and> (fst (applyMigrations fs (logExec fails) ns sent) = None \<longleftrightarrow> list_all (\<lambda>q. fails q = None) (scriptsOf fs ns))"
  using assms
proof (induction ns arbitrary: sent)
  case (Cons n ns)
  obtain sql where sql: "mig_readFile fs (''migrations/'' @ n) = Inr sql"
    using Cons.prems [of n] by (cases "mig_readFile fs (''migrations/'' @ n)") auto
  note IH = Cons.IH [OF Cons.prems]
  show ?case
  proof (cases "trimSpace sql = ''''")
    case False
    then show ?thesis using sql IH [of "sent @ [sql]"]
      by (cases "fails sql") (simp_all add: scriptsOf_def upToFailure_def logExec_def)
  qed (use sql IH in \<open>simp add: scriptsOf_def\<close>)
qed (simp add: scriptsOf_def upToFailure_def)

text \<open>
  C25: the migrations run once each, in the order of their file names, under the lock. When the lock
  is granted and the embedded files can be read, the SQL sent to the database is the lock, the
  non-blank files of the directory in ascending order of their names up to and including the first
  one that fails, and then the unlock, on success and on failure; the call reports success exactly
  when no file failed.
\<close>

theorem migrations_exact:
  assumes "fails lockSQL = None" and "mig_readDir fs = Inr entries"
    and "\<And>n. (n, False) \<in> set entries \<Longrightarrow> \<not> isl (mig_readFile fs (''migrations/'' @ n))"
  shows "snd (runMigrations fs (logExec fails) []) = lockSQL #
       upToFailure fails (scriptsOf fs (sort (map fst (filter (\<lambda>en. \<not> snd en) entries)))) @ [unlockSQL]
     \<and> (fst (runMigrations fs (logExec fails) []) = None \<longleftrightarrow>
       list_all (\<lambda>q. fails q = None) (scriptsOf fs (sort (map fst (filter (\<lambda>en. \<not> snd en) entries)))))"
proof -
  let ?ns = "sort (map fst (filter (\<lambda>en. \<not> snd en) entries))"
  have "\<not> isl (mig_readFile fs (''migrations/'' @ n))" if "n \<in> set ?ns" for n
    using that assms(3) [of n] by auto
  note run = applyMigrations_log [of ?ns fs fails "[lockSQL]", OF this]
  obtain e d where e: "applyMigrations fs (logExec fails) ?ns [lockSQL] = (e, d)" by fastforce
  have "runMigrations fs (logExec fails) [] = (e, d @ [unlockSQL])"
    using assms(1,2) e by (simp add: runMigrations_def logExec_def)
  with run e show ?thesis by simp
qed

definition demoFS :: migrationFS where
  "demoFS = \<lparr>mig_readDir = Inr [(''b'', False), (''old'', True), (''a'', False)],
     mig_readFile = (\<lambda>p. if p = ''migrations/a'' then Inr ''CREATE'' else Inr ''ALTER'')\<rparr>"

theorem migrations_exact_witness:
  "runMigrations demoFS (logExec (\<lambda>q. if q = ''ALTER'' then Some ''no'' else None)) []
     = (Some ''apply migration b: no'', [lockSQL, ''CREATE'', ''ALTER'', unlockSQL])"
proof -
  let ?fails = "\<lambda>q. if q = ''ALTER'' then Some ''no'' else None"
  have "snd (runMigrations demoFS (logExec ?fails) []) = lockSQL # upToFailure ?fails (scriptsOf demoFS [''a'', ''b'']) @ [unlockSQL]"
    using migrations_exact [of ?fails demoFS "[(''b'', False), (''old'', True), (''a'', False)]"]
    by (simp add: demoFS_def lockSQL_def less_char_def)
  moreover have "upToFailure ?fails (scriptsOf demoFS [''a'', ''b'']) = [''CREATE'', ''ALTER'']" by code_simp
  moreover have "fst (runMigrations demoFS (logExec ?fails) []) = Some ''apply migration b: no''" by code_simp
  ultimately show ?thesis by (simp add: prod_eq_iff)
qed

end
