(* ===== verification/PgOrders.thy ===== *)
theory PgOrders
  imports PgTasks
begin

text \<open>
  Products and orders of the PostgreSQL repository (\<open>tasks_postgres.go\<close>): \<open>CreateOrder\<close> is one
  transaction that reserves the idempotency key, prices the lines under row locks, charges the
  payment provider, writes the order, its items, the stock, the payment and the outbox event, and
  reads the order back. \<open>pgEnv\<close> holds what is outside the repository: the JSON encoding of the event
  and the \<open>jsonb\<close> type, as the text a stored value reads back as (\<open>None\<close> when the input is not JSON).
\<close>

record pgEnv =
  pe_marshal :: "orderCreatedEvent \<Rightarrow> string"
  pe_jsonb :: "string \<Rightarrow> string option"

section \<open>Products\<close>

definition putProducts :: "(int64, product) gomap \<Rightarrow> pgTables \<Rightarrow> pgTables" where
  "putProducts rows t = t\<lparr>t_products := rows\<rparr>"

definition productCheck :: "pgTables \<Rightarrow> product \<Rightarrow> pgError option" where
  "productCheck t p =
     (if prod_PriceCents p \<le> 0 then Some (checkViolation ''products_price_cents_check'')
      else if prod_StockQty p < 0 then Some (checkViolation ''products_stock_qty_check'')
      else None)"

definition productRow :: "createProductInput \<Rightarrow> time \<Rightarrow> int64 \<Rightarrow> product" where
  "productRow inp ts i = \<lparr>prod_ID = i, prod_Name = cp_Name inp, prod_PriceCents = cp_PriceCents inp,
     prod_StockQty = cp_StockQty inp, prod_CreatedAt = pgTime ts, prod_UpdatedAt = pgTime ts\<rparr>"

definition pgEcom_CreateProduct :: "createProductInput \<Rightarrow> time \<Rightarrow> pgDB \<Rightarrow> (ecomError + product) \<times> pgDB" where
  "pgEcom_CreateProduct inp ts s =
     (case runStmt (insertStmt ''products'' t_products putProducts productCheck (productRow inp ts)) s of
        (Inl e, s1) \<Rightarrow> (Inl (EcomError (''insert product: '' @ pgText e)), s1)
      | (Inr p, s1) \<Rightarrow> (Inr p, s1))"

definition pgEcom_ListProducts :: "pgDB \<Rightarrow> (ecomError + product list) \<times> pgDB" where
  "pgEcom_ListProducts s =
     (case queryRows ''query products: '' ''iterate product rows: '' (\<lambda>t. mvals (orderByID (t_products t))) s of
        (Inl e, s1) \<Rightarrow> (Inl (EcomError e), s1)
      | (Inr ps, s1) \<Rightarrow> (Inr ps, s1))"

section \<open>Reading an order\<close>

definition itemsOf :: "int64 \<Rightarrow> pgTables \<Rightarrow> orderItem list" where
  "itemsOf i t = map irow_Item (filter (\<lambda>r. irow_OrderID r = i) (mvals (orderByID (t_order_items t))))"

text \<open>The last payment of the order: \<open>ORDER BY id DESC LIMIT 1\<close>.\<close>

definition paymentOf :: "int64 \<Rightarrow> pgTables \<Rightarrow> pgError + paymentRow" where
  "paymentOf i t = (case filter (\<lambda>r. prow_OrderID r = i) (mvals (orderByID (t_payments t))) of
       [] \<Rightarrow> Inl ErrNoRows | r # rs \<Rightarrow> Inr (last (r # rs)))"

definition orderOfRow :: "orderRow \<Rightarrow> orderItem list \<Rightarrow> (pgError + paymentRow) \<Rightarrow> orderRec" where
  "orderOfRow r items pay =
     \<lparr>ord_ID = orow_ID r, ord_UserID = orow_UserID r, ord_Status = orow_Status r,
      ord_TotalCents = orow_TotalCents r, ord_IdempotencyKey = orow_IdempotencyKey r,
      ord_CreatedAt = orow_CreatedAt r, ord_UpdatedAt = orow_UpdatedAt r, ord_Items = items,
      ord_PaymentStatus = (case pay of Inl _ \<Rightarrow> '''' | Inr p \<Rightarrow> prow_Status p),
      ord_PaymentRef = (case pay of Inl _ \<Rightarrow> '''' | Inr p \<Rightarrow> prow_TxnID p)\<rparr>"

definition getOrderQuery :: "int64 \<Rightarrow> pgDB \<Rightarrow> (ecomError + orderRec) \<times> pgDB" where
  "getOrderQuery i s = (case runStmt (selectStmt (\<lambda>t. rowByID (t_orders t) i)) s of
       (Inl e, s1) \<Rightarrow> (Inl (if e = ErrNoRows then ErrOrderNotFound else EcomError (''select order: '' @ pgText e)), s1)
     | (Inr row, s1) \<Rightarrow> (case queryRows ''query order items: '' ''iterate order item rows: '' (itemsOf i) s1 of
           (Inl e, s2) \<Rightarrow> (Inl (EcomError e), s2)
         | (Inr items, s2) \<Rightarrow> (case runStmt (selectStmt (paymentOf i)) s2 of
               (Inl e, s3) \<Rightarrow>
                 if e \<noteq> ErrNoRows then (Inl (EcomError (''select payment transaction: '' @ pgText e)), s3)
                 else (Inr (orderOfRow row items (Inl e)), s3)
             | (Inr pay, s3) \<Rightarrow> (Inr (orderOfRow row items (Inr pay)), s3))))"

definition pgEcom_GetOrder :: "int64 \<Rightarrow> pgDB \<Rightarrow> (ecomError + orderRec) \<times> pgDB" where
  "pgEcom_GetOrder i s = getOrderQuery i s"

section \<open>The idempotency key\<close>

text \<open>
  The statement that inserts the key or, on conflict, reads the row that holds it. Both parts see
  the snapshot \<open>snap\<close> of the statement, but the conflict is decided against the rows \<open>committed\<close>
  at the time of the insert, which differ from the snapshot when the insert had to wait for
  another transaction. Its answer is whether the key was inserted, and the order the key points to.
\<close>

definition hasKey :: "int64 \<Rightarrow> string \<Rightarrow> idemRow \<Rightarrow> bool" where
  "hasKey uid key r \<longleftrightarrow> krow_UserID r = uid \<and> krow_Key r = key"

definition idemUpsert ::
  "idemRow list \<Rightarrow> (int64, idemRow) gomap \<Rightarrow> int64 \<Rightarrow> string \<Rightarrow> time \<Rightarrow> pgSeqs
     \<Rightarrow> (pgError + (bool \<times> int64 option) \<times> (int64, idemRow) gomap) \<times> pgSeqs" where
  "idemUpsert snap committed uid key ts q =
     (let i = seqVal q ''idempotency_keys'' + 1
      in if maxInt64 < i then (Inl (PgOther ''nextval: reached maximum value of sequence idempotency_keys''), q)
         else let q' = mput ''idempotency_keys'' i q
              in if \<exists>r \<in> set (mvals committed). hasKey uid key r
                 then (case find (hasKey uid key) snap of
                     None \<Rightarrow> (Inl ErrNoRows, q')
                   | Some r \<Rightarrow> (Inr ((False, krow_ResponseOrderID r), committed), q'))
                 else (Inr ((True, None), mput i \<lparr>krow_UserID = uid, krow_Key = key,
                         krow_ResponseOrderID = None, krow_CreatedAt = pgTime ts\<rparr> committed), q'))"

definition reserveKey :: "int64 \<Rightarrow> string \<Rightarrow> time \<Rightarrow> (bool \<times> int64 option) stmt" where
  "reserveKey uid key ts t q = (case idemUpsert (mvals (t_idem t)) (t_idem t) uid key ts q of
       (Inl e, q') \<Rightarrow> (Inl e, q') | (Inr (x, rows), q') \<Rightarrow> (Inr (x, t\<lparr>t_idem := rows\<rparr>), q'))"

definition linkKey :: "int64 \<Rightarrow> string \<Rightarrow> int64 \<Rightarrow> pgTables \<Rightarrow> pgError + unit \<times> pgTables" where
  "linkKey uid key oid t =
     (if (\<exists>r \<in> set (mvals (t_idem t)). hasKey uid key r) \<and> map_of (t_orders t) oid = None
      then Inl (fkViolation ''idempotency_keys_response_order_id_fkey'')
      else Inr ((), t\<lparr>t_idem := map (\<lambda>(i, r). (i, if hasKey uid key r then r\<lparr>krow_ResponseOrderID := Some oid\<rparr> else r))
        (t_idem t)\<rparr>))"

section \<open>Pricing\<close>

fun pgPriceItems ::
  "createOrderItemInput list \<Rightarrow> int64 \<Rightarrow> orderItem list \<Rightarrow> pgDB \<Rightarrow> (ecomError + int64 \<times> orderItem list) \<times> pgDB" where
  "pgPriceItems [] tot items s = (Inr (tot, items), s)"
| "pgPriceItems (it # its) tot items s =
     (if coi_Quantity it \<le> 0 then (Inl ErrInvalidOrder, s)
      else (case runStmt (selectStmt (\<lambda>t. rowByID (t_products t) (coi_ProductID it))) s of
          (Inl e, s1) \<Rightarrow> (Inl (if e = ErrNoRows then ErrProductNotFound
                                 else EcomError (''select product for update: '' @ pgText e)), s1)
        | (Inr p, s1) \<Rightarrow>
            if prod_StockQty p < coi_Quantity it then (Inl ErrInsufficientStock, s1)
            else let line = wrap64 (prod_PriceCents p * coi_Quantity it)
                 in pgPriceItems its (wrap64 (tot + line))
                      (items @ [\<lparr>oi_ProductID = prod_ID p, oi_Quantity = coi_Quantity it,
                         oi_UnitPriceCents = prod_PriceCents p, oi_LineTotalCents = line\<rparr>]) s1))"

section \<open>Writing an order\<close>

definition orderCheck :: "pgTables \<Rightarrow> orderRow \<Rightarrow> pgError option" where
  "orderCheck t r =
     (if orow_Status r \<noteq> ''paid'' \<and> orow_Status r \<noteq> ''payment_failed'' then Some (checkViolation ''orders_status_check'')
      else if orow_TotalCents r < 0 then Some (checkViolation ''orders_total_cents_check'')
      else None)"

definition newOrderRow :: "int64 \<Rightarrow> string \<Rightarrow> int64 \<Rightarrow> string \<Rightarrow> time \<Rightarrow> int64 \<Rightarrow> orderRow" where
  "newOrderRow uid status tot key ts i = \<lparr>orow_ID = i, orow_UserID = uid, orow_Status = status,
     orow_TotalCents = tot, orow_IdempotencyKey = key, orow_CreatedAt = pgTime ts, orow_UpdatedAt = pgTime ts\<rparr>"

definition itemCheck :: "pgTables \<Rightarrow> itemRow \<Rightarrow> pgError option" where
  "itemCheck t r =
     (if oi_Quantity (irow_Item r) \<le> 0 then Some (checkViolation ''order_items_quantity_check'')
      else if oi_UnitPriceCents (irow_Item r) \<le> 0 then Some (checkViolation ''order_items_unit_price_cents_check'')
      else if oi_LineTotalCents (irow_Item r) \<le> 0 then Some (checkViolation ''order_items_line_total_cents_check'')
      else if map_of (t_orders t) (irow_OrderID r) = None then Some (fkViolation ''order_items_order_id_fkey'')
      else if map_of (t_products t) (oi_ProductID (irow_Item r)) = None
      then Some (fkViolation ''order_items_product_id_fkey'')
      else None)"

definition putItems :: "(int64, itemRow) gomap \<Rightarrow> pgTables \<Rightarrow> pgTables" where
  "putItems rows t = t\<lparr>t_order_items := rows\<rparr>"

definition putOrders :: "(int64, orderRow) gomap \<Rightarrow> pgTables \<Rightarrow> pgTables" where
  "putOrders rows t = t\<lparr>t_orders := rows\<rparr>"

definition putPayments :: "(int64, paymentRow) gomap \<Rightarrow> pgTables \<Rightarrow> pgTables" where
  "putPayments rows t = t\<lparr>t_payments := rows\<rparr>"

definition putOutbox :: "(int64, outboxRow) gomap \<Rightarrow> pgTables \<Rightarrow> pgTables" where
  "putOutbox rows t = t\<lparr>t_outbox := rows\<rparr>"

text \<open>\<open>UPDATE products SET stock_qty = stock_qty - $2\<close> under the check \<open>stock_qty >= 0\<close>.\<close>

definition takeProduct :: "int64 \<Rightarrow> int64 \<Rightarrow> time \<Rightarrow> pgTables \<Rightarrow> pgError + unit \<times> pgTables" where
  "takeProduct pid qty ts t = (case map_of (t_products t) pid of
       None \<Rightarrow> Inr ((), t)
     | Some p \<Rightarrow>
         if \<not> in64 (prod_StockQty p - qty) then Inl (PgOther ''ERROR: bigint out of range'')
         else if prod_StockQty p - qty < 0 then Inl (checkViolation ''products_stock_qty_check'')
         else Inr ((), putProducts (mput pid (p\<lparr>prod_StockQty := prod_StockQty p - qty,
                prod_UpdatedAt := pgTime ts\<rparr>) (t_products t)) t))"

fun writeItems :: "bool \<Rightarrow> int64 \<Rightarrow> time \<Rightarrow> orderItem list \<Rightarrow> pgDB \<Rightarrow> (ecomError + unit) \<times> pgDB" where
  "writeItems paid oid ts [] s = (Inr (), s)"
| "writeItems paid oid ts (it # its) s =
     (case runStmt (insertStmt ''order_items'' t_order_items putItems itemCheck
              (\<lambda>i. \<lparr>irow_OrderID = oid, irow_Item = it\<rparr>)) s of
        (Inl e, s1) \<Rightarrow> (Inl (EcomError (''insert order item: '' @ pgText e)), s1)
      | (Inr _, s1) \<Rightarrow>
          if paid
          then (case runStmt (execStmt (takeProduct (oi_ProductID it) (oi_Quantity it) ts)) s1 of
              (Inl e, s2) \<Rightarrow> (Inl (EcomError (''update product stock: '' @ pgText e)), s2)
            | (Inr _, s2) \<Rightarrow> writeItems paid oid ts its s2)
          else writeItems paid oid ts its s1)"

definition paymentCheck :: "pgTables \<Rightarrow> paymentRow \<Rightarrow> pgError option" where
  "paymentCheck t r =
     (if prow_AmountCents r < 0 then Some (checkViolation ''payment_transactions_amount_cents_check'')
      else if map_of (t_orders t) (prow_OrderID r) = None then Some (fkViolation ''payment_transactions_order_id_fkey'')
      else None)"

definition newPaymentRow :: "int64 \<Rightarrow> paymentResult \<Rightarrow> int64 \<Rightarrow> time \<Rightarrow> int64 \<Rightarrow> paymentRow" where
  "newPaymentRow oid pay tot ts i = \<lparr>prow_OrderID = oid, prow_Provider = ''mock'', prow_Status = pay_Status pay,
     prow_TxnID = pay_Ref pay, prow_AmountCents = tot, prow_CreatedAt = pgTime ts\<rparr>"

definition orderEvent :: "int64 \<Rightarrow> int64 \<Rightarrow> string \<Rightarrow> int64 \<Rightarrow> paymentResult \<Rightarrow> string \<Rightarrow> time \<Rightarrow> orderCreatedEvent" where
  "orderEvent oid uid status tot pay key ts =
     \<lparr>oc_OrderID = oid, oc_UserID = uid, oc_Status = status, oc_TotalCents = tot,
      oc_PaymentStatus = pay_Status pay, oc_CorrelationID = key, oc_OccurredAt = fmtRFC3339 ts\<rparr>"

definition newOutboxRow :: "string option \<Rightarrow> int64 \<Rightarrow> string \<Rightarrow> time \<Rightarrow> int64 \<Rightarrow> outboxRow" where
  "newOutboxRow payload oid key ts i =
     \<lparr>ob_event = \<lparr>oe_ID = i, oe_EventType = ''order.created'', oe_AggregateType = ''order'', oe_AggregateID = oid,
        oe_Payload = (case payload of None \<Rightarrow> '''' | Some p \<Rightarrow> p), oe_TraceID = ''trace-'' @ key,
        oe_CorrelationID = key, oe_Attempts = 0\<rparr>,
      ob_status = ''pending'', ob_nextAttemptAt = pgTime ts, ob_lastError = '''', ob_publishedAt = None\<rparr>"

definition outboxCheck :: "string option \<Rightarrow> pgTables \<Rightarrow> outboxRow \<Rightarrow> pgError option" where
  "outboxCheck payload t r = (if payload = None then Some (PgOther ''ERROR: invalid input syntax for type json'') else None)"

text \<open>From the insert of the order to reading it back, after the payment provider answered.\<close>

definition writeOrder ::
  "pgEnv \<Rightarrow> int64 \<Rightarrow> string \<Rightarrow> time \<Rightarrow> int64 \<Rightarrow> orderItem list \<Rightarrow> paymentResult \<Rightarrow> pgDB \<Rightarrow> (ecomError + orderRec) \<times> pgDB" where
  "writeOrder env uid key ts tot items pay s =
     (let status = (if pay_Status pay \<noteq> ''paid'' then ''payment_failed'' else ''paid'')
      in (case runStmt (insertStmt ''orders'' t_orders putOrders orderCheck (newOrderRow uid status tot key ts)) s of
            (Inl e, s1) \<Rightarrow> (Inl (EcomError (''insert order: '' @ pgText e)), s1)
          | (Inr row, s1) \<Rightarrow> (case writeItems (status = ''paid'') (orow_ID row) ts items s1 of
                (Inl e, s2) \<Rightarrow> (Inl e, s2)
              | (Inr _, s2) \<Rightarrow> (case runStmt (insertStmt ''payment_transactions'' t_payments putPayments paymentCheck
                        (newPaymentRow (orow_ID row) pay tot ts)) s2 of
                    (Inl e, s3) \<Rightarrow> (Inl (EcomError (''insert payment transaction: '' @ pgText e)), s3)
                  | (Inr _, s3) \<Rightarrow> (case runStmt (execStmt (linkKey uid key (orow_ID row))) s3 of
                        (Inl e, s4) \<Rightarrow> (Inl (EcomError (''update idempotency key response order: '' @ pgText e)), s4)
                      | (Inr _, s4) \<Rightarrow>
                          let payload = pe_jsonb env (pe_marshal env (orderEvent (orow_ID row) uid status tot pay key ts))
                          in (case runStmt (insertStmt ''outbox_events'' t_outbox putOutbox (outboxCheck payload)
                                    (newOutboxRow payload (orow_ID row) key ts)) s4 of
                                (Inl e, s5) \<Rightarrow> (Inl (EcomError (''insert outbox event: '' @ pgText e)), s5)
                              | (Inr _, s5) \<Rightarrow> getOrderQuery (orow_ID row) s5))))))"

definition orderTx ::
  "pgEnv \<Rightarrow> int64 \<Rightarrow> string \<Rightarrow> createOrderInput \<Rightarrow> 'p paymentProvider \<Rightarrow> time \<Rightarrow> pgDB \<times> 'p
     \<Rightarrow> (ecomError + orderRec) \<times> pgDB \<times> 'p" where
  "orderTx env uid key inp charge ts sw =
     (let (s, w) = sw
      in (case runStmt (reserveKey uid key ts) s of
            (Inl e, s1) \<Rightarrow> (Inl (EcomError (''insert idempotency key: '' @ pgText e)), s1, w)
          | (Inr (inserted, existing), s1) \<Rightarrow>
              if \<not> inserted
              then (case existing of
                  None \<Rightarrow> (Inl ErrIdempotencyKeyExists, s1, w)
                | Some oid \<Rightarrow> let (res, s2) = getOrderQuery oid s1 in (res, s2, w))
              else (case pgPriceItems (co_Items inp) 0 [] s1 of
                  (Inl e, s2) \<Rightarrow> (Inl e, s2, w)
                | (Inr (tot, items), s2) \<Rightarrow> (case charge tot (co_PaymentMethod inp) w of
                      (Inl e, w') \<Rightarrow> (Inl (EcomError (''charge payment: '' @ e)), s2, w')
                    | (Inr pay, w') \<Rightarrow>
                        let (res, s3) = writeOrder env uid key ts tot items pay s2 in (res, s3, w')))))"

definition pgEcom_CreateOrder ::
  "pgEnv \<Rightarrow> int64 \<Rightarrow> string \<Rightarrow> createOrderInput \<Rightarrow> 'p paymentProvider \<Rightarrow> time \<Rightarrow> pgDB \<times> 'p
     \<Rightarrow> (ecomError + orderRec) \<times> pgDB \<times> 'p" where
  "pgEcom_CreateOrder env uid key inp charge ts = withTx EcomError (orderTx env uid key inp charge ts)"

definition postgresEcomRepo :: "pgEnv \<Rightarrow> (pgDB, 'p) ecommerceRepository" where
  "postgresEcomRepo env = \<lparr>er_CreateProduct = pgEcom_CreateProduct, er_ListProducts = pgEcom_ListProducts,
     er_CreateOrder = pgEcom_CreateOrder env, er_GetOrder = pgEcom_GetOrder\<rparr>"

section \<open>What the queries return\<close>

definition pgOrderOf :: "pgTables \<Rightarrow> int64 \<Rightarrow> orderRec option" where
  "pgOrderOf t i = map_option (\<lambda>row. orderOfRow row (itemsOf i t) (paymentOf i t)) (map_of (t_orders t) i)"

lemma paymentOf_Inl: "paymentOf i t = Inl e \<Longrightarrow> e = ErrNoRows"
  by (auto simp: paymentOf_def split: list.splits)

lemma getOrderQuery_full:
  assumes "getOrderQuery i s = (res, s')"
  shows "pg_tables s' = pg_tables s \<and> pg_seqs s' = pg_seqs s
     \<and> (\<forall>x. res = Inr x \<longrightarrow> pgOrderOf (pg_tables s) i = Some x)
     \<and> (res = Inl ErrOrderNotFound \<longrightarrow> map_of (t_orders (pg_tables s)) i = None)"
  using assms
  by (auto simp: getOrderQuery_def pgOrderOf_def dest!: select_full queryRows_full
      split: prod.splits sum.splits if_splits)

lemma getOrderQuery_nofault:
  assumes "pg_faults s = []"
  shows "getOrderQuery i s = ((case pgOrderOf (pg_tables s) i of None \<Rightarrow> Inl ErrOrderNotFound | Some x \<Rightarrow> Inr x), s)"
  using assms paymentOf_Inl [of i "pg_tables s"]
  by (auto simp: getOrderQuery_def runStmt_nofault selectStmt_def rowByID_def queryRows_nofault pgOrderOf_def
      split: option.split sum.splits)

lemma pgPriceItems_full:
  assumes "pgPriceItems its tot items s = (res, s')"
  shows "pg_tables s' = pg_tables s \<and> pg_seqs s' = pg_seqs s
     \<and> (\<forall>x. res = Inr x \<longrightarrow> priceItems (t_products (pg_tables s)) its tot items = Inr x)"
  using assms
proof (induction its tot items s rule: pgPriceItems.induct)
  case (2 it its tot items s)
  show ?case
  proof (cases "coi_Quantity it \<le> 0")
    case False
    obtain r s1 where r: "runStmt (selectStmt (\<lambda>t. rowByID (t_products t) (coi_ProductID it))) s = (r, s1)" by fastforce
    note sel = select_full [OF r]
    show ?thesis
    proof (cases r)
      case (Inr p)
      show ?thesis
      proof (cases "prod_StockQty p < coi_Quantity it")
        case stock: False
        from 2 False r Inr stock sel show ?thesis by (auto simp: Let_def)
      qed (use 2(2) False r Inr sel in auto)
    qed (use 2(2) False r sel in auto)
  qed (use 2(2) in auto)
qed auto

section \<open>Writing the items\<close>

lemma orderByID_insert:
  assumes "tableOK rows n"
  shows "orderByID (mput (n + 1) r rows) = orderByID rows @ [(n + 1, r)]"
proof (rule strictly_sorted_unique [where key = fst])
  have d: "distinct (mkeys rows)" and fresh: "map_of rows (n + 1) = None"
    using assms tableOK_fresh [OF assms] by (simp_all add: tableOK_def)
  show "sorted_wrt (\<lambda>a b. fst a < fst b) (orderByID (mput (n + 1) r rows))"
    by (rule orderByID_sorted) (rule distinct_mput [OF d])
  have "fst x \<le> n" if "x \<in> set rows" for x
    using assms that d by (cases x) (auto simp: tableOK_def)
  then show "sorted_wrt (\<lambda>a b. fst a < fst b) (orderByID rows @ [(n + 1, r)])"
    using orderByID_sorted [OF d] by (force simp: sorted_wrt_append)
  show "set (orderByID (mput (n + 1) r rows)) = set (orderByID rows @ [(n + 1, r)])"
    by (auto simp: mkeys_mput_fresh [OF fresh])
qed

definition itemQty :: "int64 \<Rightarrow> orderItem list \<Rightarrow> int" where
  "itemQty i its = sum_list (map oi_Quantity (filter (\<lambda>it. oi_ProductID it = i) its))"

definition stockTaken :: "bool \<Rightarrow> orderItem list \<Rightarrow> (int64, product) gomap \<Rightarrow> (int64, product) gomap \<Rightarrow> bool" where
  "stockTaken paid its ps ps' \<longleftrightarrow> mkeys ps' = mkeys ps \<and>
     (\<forall>i p. map_of ps i = Some p \<longrightarrow> (\<exists>p'. map_of ps' i = Some p' \<and> prod_ID p' = prod_ID p \<and>
        prod_PriceCents p' = prod_PriceCents p \<and>
        prod_StockQty p' = prod_StockQty p - (if paid then itemQty i its else 0) \<and>
        (0 \<le> prod_StockQty p \<longrightarrow> 0 \<le> prod_StockQty p') \<and> (\<not> paid \<longrightarrow> p' = p)))"

lemma stockTaken_refl: "stockTaken False its ps ps" "stockTaken paid [] ps ps"
  by (simp_all add: stockTaken_def itemQty_def)

lemma mkeys_mput_known: "map_of m k \<noteq> None \<Longrightarrow> mkeys (mput k v m) = mkeys m"
  by (induction m) auto

definition exceptItems :: "pgTables \<Rightarrow> pgTables" where
  "exceptItems t = t\<lparr>t_order_items := [], t_products := []\<rparr>"

lemma exceptItems_eq:
  "exceptItems t = exceptItems t' \<Longrightarrow> t_orders t = t_orders t' \<and> t_payments t = t_payments t' \<and> t_idem t = t_idem t' \<and>
     t_outbox t = t_outbox t' \<and> t_dlq t = t_dlq t' \<and> t_projection t = t_projection t' \<and> t_tasks t = t_tasks t' \<and>
     t_short_urls t = t_short_urls t' \<and> t_uploaded_files t = t_uploaded_files t'"
  by (cases t; cases t') (simp add: exceptItems_def)

lemma takeProduct_taken:
  assumes "takeProduct (oi_ProductID it) (oi_Quantity it) ts t = Inr ((), t')"
  shows "stockTaken True [it] (t_products t) (t_products t') \<and> exceptItems t' = exceptItems t \<and>
     t_order_items t' = t_order_items t"
proof (cases "map_of (t_products t) (oi_ProductID it)")
  case None
  then show ?thesis using assms by (auto simp: takeProduct_def stockTaken_def itemQty_def)
next
  case (Some p)
  then show ?thesis
    using assms mkeys_mput_known [of "t_products t" "oi_ProductID it"]
    by (auto simp: takeProduct_def stockTaken_def itemQty_def putProducts_def exceptItems_def split: if_splits)
qed

lemma stockTaken_trans:
  assumes "stockTaken paid [it] ps ps1" and "stockTaken paid its ps1 ps2"
  shows "stockTaken paid (it # its) ps ps2"
proof -
  have "\<exists>p2. map_of ps2 i = Some p2 \<and> prod_ID p2 = prod_ID p \<and> prod_PriceCents p2 = prod_PriceCents p \<and>
      prod_StockQty p2 = prod_StockQty p - (if paid then itemQty i (it # its) else 0) \<and>
      (0 \<le> prod_StockQty p \<longrightarrow> 0 \<le> prod_StockQty p2) \<and> (\<not> paid \<longrightarrow> p2 = p)" if p: "map_of ps i = Some p" for i p
  proof -
    obtain p1 where 1: "map_of ps1 i = Some p1" "prod_ID p1 = prod_ID p" "prod_PriceCents p1 = prod_PriceCents p"
      "prod_StockQty p1 = prod_StockQty p - (if paid then itemQty i [it] else 0)"
      "0 \<le> prod_StockQty p \<longrightarrow> 0 \<le> prod_StockQty p1" "\<not> paid \<longrightarrow> p1 = p"
      using assms(1) p unfolding stockTaken_def by blast
    obtain p2 where "map_of ps2 i = Some p2" "prod_ID p2 = prod_ID p1" "prod_PriceCents p2 = prod_PriceCents p1"
      "prod_StockQty p2 = prod_StockQty p1 - (if paid then itemQty i its else 0)"
      "0 \<le> prod_StockQty p1 \<longrightarrow> 0 \<le> prod_StockQty p2" "\<not> paid \<longrightarrow> p2 = p1"
      using assms(2) 1(1) unfolding stockTaken_def by blast
    with 1 show ?thesis by (auto simp: itemQty_def)
  qed
  moreover have "mkeys ps2 = mkeys ps" using assms by (simp add: stockTaken_def)
  ultimately show ?thesis by (simp add: stockTaken_def)
qed

definition itemsWritten :: "int64 \<Rightarrow> orderItem list \<Rightarrow> pgDB \<Rightarrow> pgDB \<Rightarrow> bool" where
  "itemsWritten oid its s s' \<longleftrightarrow>
     tableOK (t_order_items (pg_tables s')) (seqVal (pg_seqs s') ''order_items'') \<and>
     (\<forall>tbl. tbl \<noteq> ''order_items'' \<longrightarrow> seqVal (pg_seqs s') tbl = seqVal (pg_seqs s) tbl) \<and>
     (\<forall>i. itemsOf i (pg_tables s') = itemsOf i (pg_tables s) @ (if i = oid then its else [])) \<and>
     (\<forall>r \<in> set (mvals (t_order_items (pg_tables s'))). r \<in> set (mvals (t_order_items (pg_tables s))) \<or> irow_OrderID r = oid) \<and>
     exceptItems (pg_tables s') = exceptItems (pg_tables s)"

lemma itemsWritten_one:
  assumes ins: "runStmt (insertStmt ''order_items'' t_order_items putItems itemCheck
              (\<lambda>i. \<lparr>irow_OrderID = oid, irow_Item = it\<rparr>)) s = (Inr row, s')"
    and ok: "tableOK (t_order_items (pg_tables s)) (seqVal (pg_seqs s) ''order_items'')"
  shows "itemsWritten oid [it] s s' \<and> t_products (pg_tables s') = t_products (pg_tables s)"
proof -
  note i = insert_Inr [OF ins]
  let ?n = "seqVal (pg_seqs s) ''order_items''"
  have row: "row = \<lparr>irow_OrderID = oid, irow_Item = it\<rparr>" using i(1) by simp
  have t: "t_order_items (pg_tables s') = mput (?n + 1) row (t_order_items (pg_tables s))"
      "exceptItems (pg_tables s') = exceptItems (pg_tables s)"
    using i(6) by (simp_all add: putItems_def exceptItems_def)
  have "itemsOf k (pg_tables s') = itemsOf k (pg_tables s) @ (if k = oid then [it] else [])" for k
    unfolding itemsOf_def t(1) orderByID_insert [OF ok] by (simp add: row)
  moreover have "set (mvals (t_order_items (pg_tables s'))) = insert row (set (mvals (t_order_items (pg_tables s))))"
    unfolding t(1) using mkeys_mput_fresh [OF i(4)] by auto
  moreover have "tableOK (t_order_items (pg_tables s')) (seqVal (pg_seqs s') ''order_items'')"
    unfolding t(1) using tableOK_insert [OF ok i(2)] i(5) by simp
  moreover have "t_products (pg_tables s') = t_products (pg_tables s)" using i(6) by (simp add: putItems_def)
  ultimately show ?thesis using i(5) t(2) row by (auto simp: itemsWritten_def)
qed

lemma itemsWritten_trans:
  assumes "itemsWritten oid [it] s s1" and "itemsWritten oid its s1 s2"
  shows "itemsWritten oid (it # its) s s2"
proof -
  have "exceptItems (pg_tables s2) = exceptItems (pg_tables s)" using assms by (simp add: itemsWritten_def)
  moreover have "\<forall>r \<in> set (mvals (t_order_items (pg_tables s2))).
      r \<in> set (mvals (t_order_items (pg_tables s))) \<or> irow_OrderID r = oid"
    using assms unfolding itemsWritten_def by blast
  moreover have "itemsOf i (pg_tables s2) = itemsOf i (pg_tables s) @ (if i = oid then it # its else [])" for i
    using assms by (simp add: itemsWritten_def)
  ultimately show ?thesis using assms unfolding itemsWritten_def by simp
qed

lemma itemsWritten_exec:
  assumes "itemsWritten oid its s s1" and "pg_seqs s2 = pg_seqs s1"
    and "exceptItems (pg_tables s2) = exceptItems (pg_tables s1)"
    and "t_order_items (pg_tables s2) = t_order_items (pg_tables s1)"
  shows "itemsWritten oid its s s2"
  using assms by (auto simp: itemsWritten_def itemsOf_def)

lemma writeItems_full:
  assumes "writeItems paid oid ts its s = (Inr (), s')"
    and "tableOK (t_order_items (pg_tables s)) (seqVal (pg_seqs s) ''order_items'')"
  shows "itemsWritten oid its s s' \<and> stockTaken paid its (t_products (pg_tables s)) (t_products (pg_tables s'))"
  using assms
proof (induction paid oid ts its s rule: writeItems.induct)
  case (1 paid oid ts s)
  then show ?case by (auto simp: itemsWritten_def stockTaken_refl)
next
  case (2 paid oid ts it its s)
  from 2(3) obtain row s1 where ins: "runStmt (insertStmt ''order_items'' t_order_items putItems itemCheck
              (\<lambda>i. \<lparr>irow_OrderID = oid, irow_Item = it\<rparr>)) s = (Inr row, s1)"
    by (auto split: prod.splits sum.splits)
  note one = itemsWritten_one [OF ins 2(4)]
  show ?case
  proof (cases paid)
    case True
    with 2(3) ins obtain s2 where x: "runStmt (execStmt (takeProduct (oi_ProductID it) (oi_Quantity it) ts)) s1 = (Inr (), s2)"
      and rest: "writeItems paid oid ts its s2 = (Inr (), s')"
      by (auto split: prod.splits sum.splits)
    have taken: "stockTaken paid [it] (t_products (pg_tables s1)) (t_products (pg_tables s2))"
      "exceptItems (pg_tables s2) = exceptItems (pg_tables s1)" "t_order_items (pg_tables s2) = t_order_items (pg_tables s1)"
      using takeProduct_taken [OF exec_Inr [OF x]] True by simp_all
    have w2: "itemsWritten oid [it] s s2"
      using itemsWritten_exec [OF _ exec_keeps_seqs [OF x] taken(2,3)] one by blast
    then have "tableOK (t_order_items (pg_tables s2)) (seqVal (pg_seqs s2) ''order_items'')" by (simp add: itemsWritten_def)
    note IH = 2(1) [OF ins [symmetric] refl True x [symmetric] refl rest this]
    then show ?thesis
      using itemsWritten_trans [OF w2] stockTaken_trans [OF taken(1)] one by simp
  next
    case False
    with 2(3) ins have rest: "writeItems paid oid ts its s1 = (Inr (), s')" by simp
    have "tableOK (t_order_items (pg_tables s1)) (seqVal (pg_seqs s1) ''order_items'')" using one by (simp add: itemsWritten_def)
    note IH = 2(2) [OF ins [symmetric] refl False rest this]
    then show ?thesis
      using itemsWritten_trans [of oid it s s1] stockTaken_trans [of paid it "t_products (pg_tables s1)" "t_products (pg_tables s1)"]
        one False stockTaken_refl(1) [of "[it]"] by simp
  qed
qed

section \<open>Writing an order\<close>

definition linkRows :: "int64 \<Rightarrow> string \<Rightarrow> int64 \<Rightarrow> (int64, idemRow) gomap \<Rightarrow> (int64, idemRow) gomap" where
  "linkRows uid key oid rows =
     map (\<lambda>(i, r). (i, if hasKey uid key r then r\<lparr>krow_ResponseOrderID := Some oid\<rparr> else r)) rows"

definition statusOf :: "paymentResult \<Rightarrow> string" where
  "statusOf pay = (if pay_Status pay \<noteq> ''paid'' then ''payment_failed'' else ''paid'')"

text \<open>The foreign keys and ids of the order tables.\<close>

definition orderTablesOK :: "pgTables \<Rightarrow> pgSeqs \<Rightarrow> bool" where
  "orderTablesOK t q \<longleftrightarrow> tableOK (t_orders t) (seqVal q ''orders'') \<and>
     tableOK (t_order_items t) (seqVal q ''order_items'') \<and>
     tableOK (t_payments t) (seqVal q ''payment_transactions'') \<and>
     tableOK (t_outbox t) (seqVal q ''outbox_events'') \<and>
     (\<forall>i r. map_of (t_orders t) i = Some r \<longrightarrow> orow_ID r = i) \<and>
     (\<forall>r \<in> set (mvals (t_order_items t)). map_of (t_orders t) (irow_OrderID r) \<noteq> None) \<and>
     (\<forall>r \<in> set (mvals (t_payments t)). map_of (t_orders t) (prow_OrderID r) \<noteq> None)"

record orderEffect =
  ef_id :: int64
  ef_row :: orderRow
  ef_event :: outboxRow
  ef_eventID :: int64
  ef_payload :: string

definition orderWritten ::
  "pgEnv \<Rightarrow> int64 \<Rightarrow> string \<Rightarrow> time \<Rightarrow> int64 \<Rightarrow> orderItem list \<Rightarrow> paymentResult \<Rightarrow> orderEffect \<Rightarrow> pgDB \<Rightarrow> pgDB \<Rightarrow> bool" where
  "orderWritten env uid key ts tot items pay ef s s' \<longleftrightarrow>
     ef_id ef = seqVal (pg_seqs s) ''orders'' + 1 \<and>
     ef_row ef = newOrderRow uid (statusOf pay) tot key ts (ef_id ef) \<and>
     map_of (t_orders (pg_tables s)) (ef_id ef) = None \<and>
     t_orders (pg_tables s') = mput (ef_id ef) (ef_row ef) (t_orders (pg_tables s)) \<and>
     (\<forall>i. itemsOf i (pg_tables s') = itemsOf i (pg_tables s) @ (if i = ef_id ef then items else [])) \<and>
     (\<forall>i. paymentOf i (pg_tables s') = (if i = ef_id ef then Inr (newPaymentRow (ef_id ef) pay tot ts 0)
        else paymentOf i (pg_tables s))) \<and>
     t_idem (pg_tables s') = linkRows uid key (ef_id ef) (t_idem (pg_tables s)) \<and>
     seqVal (pg_seqs s') ''idempotency_keys'' = seqVal (pg_seqs s) ''idempotency_keys'' \<and>
     seqVal (pg_seqs s') ''products'' = seqVal (pg_seqs s) ''products'' \<and>
     stockTaken (pay_Status pay = ''paid'') items (t_products (pg_tables s)) (t_products (pg_tables s')) \<and>
     ef_eventID ef = seqVal (pg_seqs s) ''outbox_events'' + 1 \<and>
     pe_jsonb env (pe_marshal env (orderEvent (ef_id ef) uid (statusOf pay) tot pay key ts)) = Some (ef_payload ef) \<and>
     ef_event ef = newOutboxRow (Some (ef_payload ef)) (ef_id ef) key ts (ef_eventID ef) \<and>
     map_of (t_outbox (pg_tables s)) (ef_eventID ef) = None \<and>
     t_outbox (pg_tables s') = mput (ef_eventID ef) (ef_event ef) (t_outbox (pg_tables s)) \<and>
     orderTablesOK (pg_tables s') (pg_seqs s')"

lemma newPaymentRow_id: "newPaymentRow oid pay tot ts i = newPaymentRow oid pay tot ts 0"
  by (simp add: newPaymentRow_def)

lemma paymentOf_insert:
  assumes "tableOK (t_payments t) n"
  shows "paymentOf i (t\<lparr>t_payments := mput (n + 1) r (t_payments t)\<rparr>)
     = (if i = prow_OrderID r then Inr r else paymentOf i t)"
proof -
  let ?P = "filter (\<lambda>r. prow_OrderID r = i) (mvals (orderByID (t_payments t)))"
  have "filter (\<lambda>r. prow_OrderID r = i) (mvals (orderByID (mput (n + 1) r (t_payments t))))
      = ?P @ (if i = prow_OrderID r then [r] else [])"
    unfolding orderByID_insert [OF assms] by simp
  then show ?thesis by (cases ?P) (auto simp: paymentOf_def)
qed

text \<open>The statements one after the other, as an equation for the final tables.\<close>

lemma writeOrder_steps:
  assumes items: "tableOK (t_order_items (pg_tables s)) (seqVal (pg_seqs s) ''order_items'')"
    and run: "writeOrder env uid key ts tot items pay s = (Inr x, s')"
    and n: "n = seqVal (pg_seqs s) ''orders'' + 1"
  obtains s1 s2 payload where
    "pg_tables s1 = (pg_tables s)\<lparr>t_orders := mput n (newOrderRow uid (statusOf pay) tot key ts n) (t_orders (pg_tables s))\<rparr>"
    "pg_seqs s1 = mput ''orders'' n (pg_seqs s)" "n \<le> maxInt64" "map_of (t_orders (pg_tables s)) n = None"
    "itemsWritten n items s1 s2"
    "stockTaken (pay_Status pay = ''paid'') items (t_products (pg_tables s)) (t_products (pg_tables s2))"
    "pe_jsonb env (pe_marshal env (orderEvent n uid (statusOf pay) tot pay key ts)) = Some payload"
    "pg_tables s' = (pg_tables s2)\<lparr>
       t_payments := mput (seqVal (pg_seqs s2) ''payment_transactions'' + 1) (newPaymentRow n pay tot ts 0) (t_payments (pg_tables s2)),
       t_idem := linkRows uid key n (t_idem (pg_tables s2)),
       t_outbox := mput (seqVal (pg_seqs s2) ''outbox_events'' + 1)
         (newOutboxRow (Some payload) n key ts (seqVal (pg_seqs s2) ''outbox_events'' + 1)) (t_outbox (pg_tables s2))\<rparr>"
    "pg_seqs s' = mput ''outbox_events'' (seqVal (pg_seqs s2) ''outbox_events'' + 1)
       (mput ''payment_transactions'' (seqVal (pg_seqs s2) ''payment_transactions'' + 1) (pg_seqs s2))"
    "seqVal (pg_seqs s2) ''payment_transactions'' + 1 \<le> maxInt64" "seqVal (pg_seqs s2) ''outbox_events'' + 1 \<le> maxInt64"
    "pgOrderOf (pg_tables s') n = Some x"
proof -
  let ?st = "statusOf pay"
  from run obtain row s1 s2 pr s3 s4 ob s5 payload where
    o1: "runStmt (insertStmt ''orders'' t_orders putOrders orderCheck (newOrderRow uid ?st tot key ts)) s = (Inr row, s1)"
    and o2: "writeItems (?st = ''paid'') (orow_ID row) ts items s1 = (Inr (), s2)"
    and o3: "runStmt (insertStmt ''payment_transactions'' t_payments putPayments paymentCheck
        (newPaymentRow (orow_ID row) pay tot ts)) s2 = (Inr pr, s3)"
    and o4: "runStmt (execStmt (linkKey uid key (orow_ID row))) s3 = (Inr (), s4)"
    and pl: "payload = pe_jsonb env (pe_marshal env (orderEvent (orow_ID row) uid ?st tot pay key ts))"
    and o5: "runStmt (insertStmt ''outbox_events'' t_outbox putOutbox (outboxCheck payload)
        (newOutboxRow payload (orow_ID row) key ts)) s4 = (Inr ob, s5)"
    and o6: "getOrderQuery (orow_ID row) s5 = (Inr x, s')"
    by (auto simp: writeOrder_def statusOf_def Let_def split: prod.splits sum.splits)
  note i1 = insert_Inr [OF o1] and i3 = insert_Inr [OF o3] and i5 = insert_Inr [OF o5]
  have row: "row = newOrderRow uid ?st tot key ts n" "orow_ID row = n" using i1(1) n by (simp_all add: newOrderRow_def)
  have t1: "pg_tables s1 = (pg_tables s)\<lparr>t_orders := mput n row (t_orders (pg_tables s))\<rparr>"
      "pg_seqs s1 = mput ''orders'' n (pg_seqs s)" "map_of (t_orders (pg_tables s)) n = None" "n \<le> maxInt64"
    using i1(2,4-6) n by (simp_all add: putOrders_def)
  have w: "itemsWritten n items s1 s2" "stockTaken (pay_Status pay = ''paid'') items (t_products (pg_tables s)) (t_products (pg_tables s2))"
    using writeItems_full [OF o2] t1(1,2) items row by (auto simp: statusOf_def split: if_splits)
  have t4: "pg_tables s4 = (pg_tables s2)\<lparr>t_payments := mput (seqVal (pg_seqs s2) ''payment_transactions'' + 1)
        (newPaymentRow n pay tot ts 0) (t_payments (pg_tables s2)), t_idem := linkRows uid key n (t_idem (pg_tables s2))\<rparr>"
      "pg_seqs s4 = mput ''payment_transactions'' (seqVal (pg_seqs s2) ''payment_transactions'' + 1) (pg_seqs s2)"
    using i3(1,5,6) exec_ok [OF o4] row(2)
    by (auto simp: putPayments_def linkKey_def linkRows_def newPaymentRow_id [of _ _ _ _ "_ + 1"] split: if_splits)
  obtain pl' where pl': "payload = Some pl'" using i5(3) by (auto simp: outboxCheck_def split: if_splits)
  have g: "pg_tables s' = pg_tables s5" "pg_seqs s' = pg_seqs s5" "pgOrderOf (pg_tables s5) n = Some x"
    using getOrderQuery_full [OF o6] row(2) by auto
  show thesis
    by (rule that [of s1 s2 pl'])
      (use t1 w t4 pl pl' row g i5 i3(2) in \<open>simp_all add: putOutbox_def\<close>)
qed

lemma mvals_insert: "map_of m k = None \<Longrightarrow> set (mvals (mput k v m)) = insert v (set (mvals m))"
  by (auto simp: mkeys_mput_fresh)

lemma paymentOf_cong: "t_payments t = t_payments t' \<Longrightarrow> paymentOf i t = paymentOf i t'"
  by (simp add: paymentOf_def)

lemma itemsOf_cong: "t_order_items t = t_order_items t' \<Longrightarrow> itemsOf i t = itemsOf i t'"
  by (simp add: itemsOf_def)

lemma orderTablesOK_tables:
  assumes "orderTablesOK t q"
  shows "tableOK (t_orders t) (seqVal q ''orders'')" "tableOK (t_order_items t) (seqVal q ''order_items'')"
    "tableOK (t_payments t) (seqVal q ''payment_transactions'')" "tableOK (t_outbox t) (seqVal q ''outbox_events'')"
  using assms by (auto simp: orderTablesOK_def)

lemma writeOrder_effect:
  assumes ok: "orderTablesOK (pg_tables s) (pg_seqs s)"
    and run: "writeOrder env uid key ts tot items pay s = (Inr x, s')"
  obtains ef where "orderWritten env uid key ts tot items pay ef s s'" "pgOrderOf (pg_tables s') (ef_id ef) = Some x"
proof -
  let ?n = "seqVal (pg_seqs s) ''orders'' + 1" and ?t = "pg_tables s" and ?t' = "pg_tables s'"
  let ?k = "seqVal (pg_seqs s) ''payment_transactions''" and ?e = "seqVal (pg_seqs s) ''outbox_events''"
  let ?row = "newOrderRow uid (statusOf pay) tot key ts ?n" and ?pay = "newPaymentRow ?n pay tot ts 0"
  note oks = orderTablesOK_tables [OF ok]
  obtain s1 s2 payload where
    t1: "pg_tables s1 = ?t\<lparr>t_orders := mput ?n ?row (t_orders ?t)\<rparr>" "pg_seqs s1 = mput ''orders'' ?n (pg_seqs s)"
    and n: "?n \<le> maxInt64" "map_of (t_orders ?t) ?n = None" and w: "itemsWritten ?n items s1 s2"
    and stock: "stockTaken (pay_Status pay = ''paid'') items (t_products ?t) (t_products (pg_tables s2))"
    and payload: "pe_jsonb env (pe_marshal env (orderEvent ?n uid (statusOf pay) tot pay key ts)) = Some payload"
    and t': "?t' = (pg_tables s2)\<lparr>t_payments := mput (seqVal (pg_seqs s2) ''payment_transactions'' + 1) ?pay (t_payments (pg_tables s2)),
       t_idem := linkRows uid key ?n (t_idem (pg_tables s2)), t_outbox := mput (seqVal (pg_seqs s2) ''outbox_events'' + 1)
         (newOutboxRow (Some payload) ?n key ts (seqVal (pg_seqs s2) ''outbox_events'' + 1)) (t_outbox (pg_tables s2))\<rparr>"
    and q': "pg_seqs s' = mput ''outbox_events'' (seqVal (pg_seqs s2) ''outbox_events'' + 1)
       (mput ''payment_transactions'' (seqVal (pg_seqs s2) ''payment_transactions'' + 1) (pg_seqs s2))"
    and room: "seqVal (pg_seqs s2) ''payment_transactions'' + 1 \<le> maxInt64" "seqVal (pg_seqs s2) ''outbox_events'' + 1 \<le> maxInt64"
    and x: "pgOrderOf ?t' ?n = Some x"
    by (rule writeOrder_steps [OF oks(2) run refl])
  have q2: "seqVal (pg_seqs s2) tbl = (if tbl = ''orders'' then ?n else seqVal (pg_seqs s) tbl)" if "tbl \<noteq> ''order_items''" for tbl
    using w t1(2) that by (simp add: itemsWritten_def)
  have e2: "t_orders (pg_tables s2) = mput ?n ?row (t_orders ?t)" "t_payments (pg_tables s2) = t_payments ?t"
      "t_idem (pg_tables s2) = t_idem ?t" "t_outbox (pg_tables s2) = t_outbox ?t"
    using w exceptItems_eq [of "pg_tables s2" "pg_tables s1"] t1(1) by (simp_all add: itemsWritten_def)
  have items: "itemsOf i ?t' = itemsOf i ?t @ (if i = ?n then items else [])" for i
    using w t1(1) itemsOf_cong [of ?t' "pg_tables s2" i] itemsOf_cong [of "pg_tables s1" ?t i] t' by (simp add: itemsWritten_def)
  have pays: "paymentOf i ?t' = (if i = ?n then Inr ?pay else paymentOf i ?t)" for i
    using paymentOf_insert [OF oks(3), of i ?pay] paymentOf_cong [of ?t' "?t\<lparr>t_payments := mput (?k + 1) ?pay (t_payments ?t)\<rparr>"]
      t' e2(2) q2 by (simp add: newPaymentRow_def)
  have "orderTablesOK ?t' (pg_seqs s')"
  proof -
    have "tableOK (t_order_items ?t') (seqVal (pg_seqs s2) ''order_items'')" using w t' by (simp add: itemsWritten_def)
    moreover have "irow_OrderID r = ?n \<or> map_of (t_orders ?t) (irow_OrderID r) \<noteq> None"
      if r: "r \<in> set (mvals (t_order_items ?t'))" for r
    proof -
      have "t_order_items (pg_tables s1) = t_order_items ?t" "t_order_items ?t' = t_order_items (pg_tables s2)"
        using t1(1) t' by simp_all
      with w r have "r \<in> set (mvals (t_order_items ?t)) \<or> irow_OrderID r = ?n"
        unfolding itemsWritten_def by metis
      with ok show ?thesis unfolding orderTablesOK_def by blast
    qed
    moreover have "set (mvals (t_payments ?t')) = insert ?pay (set (mvals (t_payments ?t)))"
      using t' e2(2) q2 mvals_insert [OF tableOK_fresh [OF oks(3), of "?k + 1"]] by simp
    moreover have "orow_ID ?row = ?n" "prow_OrderID ?pay = ?n" by (simp_all add: newOrderRow_def newPaymentRow_def)
    ultimately show ?thesis
      using ok t' q' e2 q2 room n tableOK_insert [OF oks(1)] tableOK_insert [OF oks(3)] tableOK_insert [OF oks(4)]
      by (auto simp: orderTablesOK_def)
  qed
  with payload t' e2 q2 q' n stock items pays tableOK_fresh [OF oks(4), of "?e + 1"]
  have "orderWritten env uid key ts tot items pay \<lparr>ef_id = ?n, ef_row = ?row,
      ef_event = newOutboxRow (Some payload) ?n key ts (?e + 1), ef_eventID = ?e + 1, ef_payload = payload\<rparr> s s'"
    by (simp add: orderWritten_def)
  from that [OF this] x show thesis by simp
qed

section \<open>Sequences only grow\<close>

definition seqsGrow :: "pgSeqs \<Rightarrow> pgSeqs \<Rightarrow> bool" where
  "seqsGrow q q' \<longleftrightarrow> (\<forall>tbl. seqVal q tbl \<le> seqVal q' tbl \<and> (seqVal q tbl \<le> maxInt64 \<longrightarrow> seqVal q' tbl \<le> maxInt64))"

lemma seqsGrow_refl [simp]: "seqsGrow q q"
  by (simp add: seqsGrow_def)

lemma seqsGrow_trans: "seqsGrow q q1 \<Longrightarrow> seqsGrow q1 q2 \<Longrightarrow> seqsGrow q q2"
  unfolding seqsGrow_def by (metis order_trans)

lemma runStmt_grow:
  assumes "runStmt f s = (res, s')" and "\<And>t q. seqsGrow q (snd (f t q))"
  shows "seqsGrow (pg_seqs s) (pg_seqs s')"
proof -
  have "pg_seqs s' = pg_seqs s \<or> pg_seqs s' = snd (f (pg_tables s) (pg_seqs s))"
    using assms(1) takeFault_keeps_eq [of s]
    by (auto simp: runStmt_def split: prod.splits option.splits sum.splits)
  with assms(2) [of "pg_seqs s" "pg_tables s"] show ?thesis by auto
qed

lemma stmt_grow:
  "seqsGrow q (snd (insertStmt tbl rows put check mk t q))" "seqsGrow q (snd (execStmt f t q))"
  "seqsGrow q (snd (selectStmt g t q))" "seqsGrow q (snd (reserveKey uid key ts t q))"
  by (auto simp: seqsGrow_def insertStmt_def execStmt_def selectStmt_def reserveKey_def idemUpsert_def Let_def
      split: option.splits sum.splits)

lemmas insert_grow = runStmt_grow [OF _ stmt_grow(1)]
lemmas exec_grow = runStmt_grow [OF _ stmt_grow(2)]
lemmas reserve_grow = runStmt_grow [OF _ stmt_grow(4)]

lemma writeItems_grow: "writeItems paid oid ts its s = (res, s') \<Longrightarrow> seqsGrow (pg_seqs s) (pg_seqs s')"
proof (induction paid oid ts its s rule: writeItems.induct)
  case (2 paid oid ts it its s)
  obtain r s1 where ins: "runStmt (insertStmt ''order_items'' t_order_items putItems itemCheck
      (\<lambda>i. \<lparr>irow_OrderID = oid, irow_Item = it\<rparr>)) s = (r, s1)" by fastforce
  obtain u s2 where upd: "runStmt (execStmt (takeProduct (oi_ProductID it) (oi_Quantity it) ts)) s1 = (u, s2)" by fastforce
  note g = insert_grow [OF ins] exec_grow [OF upd]
  show ?case
  proof (cases r)
    case (Inr row)
    note r = ins [unfolded Inr]
    show ?thesis
    proof (cases paid)
      case True
      show ?thesis
      proof (cases u)
        case (Inr v)
        with 2(3) r True upd have "writeItems paid oid ts its s2 = (res, s')" by simp
        from 2(1) [OF r [symmetric] refl True upd [unfolded Inr, symmetric] refl this] g show ?thesis
          using seqsGrow_trans by blast
      qed (use 2(3) r True upd g seqsGrow_trans in auto)
    next
      case False
      with 2(3) r have "writeItems paid oid ts its s1 = (res, s')" by simp
      from 2(2) [OF r [symmetric] refl False this] g(1) show ?thesis using seqsGrow_trans by blast
    qed
  qed (use 2(3) ins g in auto)
qed simp

lemma writeOrder_grow:
  assumes "writeOrder env uid key ts tot items pay s = (res, s')"
  shows "seqsGrow (pg_seqs s) (pg_seqs s')"
  using assms
  by (auto simp: writeOrder_def Let_def dest!: insert_grow exec_grow writeItems_grow getOrderQuery_full
      split: prod.splits sum.splits intro: seqsGrow_trans) (meson seqsGrow_trans)+

lemma orderTx_grow:
  assumes "orderTx env uid key inp charge ts (s, w) = (res, s', w')"
  shows "seqsGrow (pg_seqs s) (pg_seqs s')"
  using assms
  by (auto simp: orderTx_def Let_def dest!: reserve_grow pgPriceItems_full writeOrder_grow getOrderQuery_full
      split: prod.splits sum.splits if_splits option.splits intro: seqsGrow_trans)

lemma pgEcom_CreateOrder_grow:
  assumes "pgEcom_CreateOrder env uid key inp charge ts (s, w) = (res, s', w')"
  shows "seqsGrow (pg_seqs s) (pg_seqs s')"
  using assms takeFault_keeps_eq
  by (auto simp: pgEcom_CreateOrder_def withTx_def dest!: orderTx_grow split: prod.splits sum.splits option.splits)

section \<open>The invariant\<close>

definition pgEcomInv :: "pgDB \<Rightarrow> bool" where
  [inv_defs]: "pgEcomInv s \<longleftrightarrow> (let t = pg_tables s; q = pg_seqs s in
     orderTablesOK t q \<and> tableOK (t_products t) (seqVal q ''products'') \<and>
     tableOK (t_idem t) (seqVal q ''idempotency_keys'') \<and>
     (\<forall>i p. map_of (t_products t) i = Some p \<longrightarrow> prod_ID p = i \<and> 0 < prod_PriceCents p \<and> 0 \<le> prod_StockQty p) \<and>
     distinct (map (\<lambda>r. (krow_UserID r, krow_Key r)) (mvals (t_idem t))) \<and>
     (\<forall>r \<in> set (mvals (t_idem t)). trimSpace (krow_Key r) = krow_Key r \<and>
        (\<exists>oid row. krow_ResponseOrderID r = Some oid \<and> map_of (t_orders t) oid = Some row \<and>
           orow_UserID row = krow_UserID r \<and> orow_IdempotencyKey row = krow_Key r)) \<and>
     (\<forall>i row. map_of (t_orders t) i = Some row \<longrightarrow>
        (\<exists>r \<in> set (mvals (t_idem t)). hasKey (orow_UserID row) (orow_IdempotencyKey row) r \<and>
           krow_ResponseOrderID r = Some i)))"

lemma tableOK_grow: "tableOK rows (seqVal q tbl) \<Longrightarrow> seqsGrow q q' \<Longrightarrow> tableOK rows (seqVal q' tbl)"
  by (rule tableOK_mono [of rows "seqVal q tbl"]) (auto simp: seqsGrow_def tableOK_def)

lemma pgEcomInv_grow:
  assumes "pgEcomInv s" and "pg_tables s' = pg_tables s" and "seqsGrow (pg_seqs s) (pg_seqs s')"
  shows "pgEcomInv s'"
proof -
  have "orderTablesOK t (pg_seqs s')" if "orderTablesOK t (pg_seqs s)" for t
    using that unfolding orderTablesOK_def by (elim conjE, intro conjI) (assumption | rule tableOK_grow [OF _ assms(3)])+
  with assms(1) tableOK_grow [OF _ assms(3)] show ?thesis
    unfolding pgEcomInv_def assms(2) Let_def by (elim conjE, intro conjI) (assumption | simp)+
qed

lemma pgEcomInv_parts:
  assumes "pgEcomInv s"
  shows "orderTablesOK (pg_tables s) (pg_seqs s)" "tableOK (t_products (pg_tables s)) (seqVal (pg_seqs s) ''products'')"
    "tableOK (t_idem (pg_tables s)) (seqVal (pg_seqs s) ''idempotency_keys'')"
    "map_of (t_products (pg_tables s)) i = Some p \<Longrightarrow> prod_ID p = i \<and> 0 < prod_PriceCents p \<and> 0 \<le> prod_StockQty p"
    "distinct (map (\<lambda>r. (krow_UserID r, krow_Key r)) (mvals (t_idem (pg_tables s))))"
    "r \<in> set (mvals (t_idem (pg_tables s))) \<Longrightarrow> trimSpace (krow_Key r) = krow_Key r \<and>
        (\<exists>oid row. krow_ResponseOrderID r = Some oid \<and> map_of (t_orders (pg_tables s)) oid = Some row \<and>
           orow_UserID row = krow_UserID r \<and> orow_IdempotencyKey row = krow_Key r)"
    "map_of (t_orders (pg_tables s)) j = Some row \<Longrightarrow> (\<exists>r \<in> set (mvals (t_idem (pg_tables s))).
        hasKey (orow_UserID row) (orow_IdempotencyKey row) r \<and> krow_ResponseOrderID r = Some j)"
proof -
  note parts = assms [unfolded pgEcomInv_def Let_def]
  note c = parts [THEN conjunct1] parts [THEN conjunct2]
  note d = c(2) [THEN conjunct1] c(2) [THEN conjunct2]
  note e = d(2) [THEN conjunct1] d(2) [THEN conjunct2]
  note f = e(2) [THEN conjunct1] e(2) [THEN conjunct2]
  note g = f(2) [THEN conjunct1] f(2) [THEN conjunct2]
  show "orderTablesOK (pg_tables s) (pg_seqs s)" "tableOK (t_products (pg_tables s)) (seqVal (pg_seqs s) ''products'')"
    "tableOK (t_idem (pg_tables s)) (seqVal (pg_seqs s) ''idempotency_keys'')"
    "distinct (map (\<lambda>r. (krow_UserID r, krow_Key r)) (mvals (t_idem (pg_tables s))))"
    by (rule c(1) d(1) e(1) g(1))+
  show "prod_ID p = i \<and> 0 < prod_PriceCents p \<and> 0 \<le> prod_StockQty p" if "map_of (t_products (pg_tables s)) i = Some p"
    using f(1) that by blast
  show "trimSpace (krow_Key r) = krow_Key r \<and>
        (\<exists>oid row. krow_ResponseOrderID r = Some oid \<and> map_of (t_orders (pg_tables s)) oid = Some row \<and>
           orow_UserID row = krow_UserID r \<and> orow_IdempotencyKey row = krow_Key r)"
    if "r \<in> set (mvals (t_idem (pg_tables s)))"
    using g(2) [THEN conjunct1] that by (rule bspec)
  show "\<exists>r \<in> set (mvals (t_idem (pg_tables s))). hasKey (orow_UserID row) (orow_IdempotencyKey row) r \<and>
      krow_ResponseOrderID r = Some j" if "map_of (t_orders (pg_tables s)) j = Some row"
    using g(2) [THEN conjunct2] that by blast
qed

section \<open>Reserving the key\<close>

lemma find_unique:
  assumes "distinct (map f xs)" and "x \<in> set xs"
  shows "find (\<lambda>y. f y = f x) xs = Some x"
  using assms by (induction xs) (auto simp: image_iff)

lemma hasKey_iff: "hasKey uid key = (\<lambda>r. (krow_UserID r, krow_Key r) = (uid, key))"
  by (simp add: hasKey_def fun_eq_iff)

lemma reserveKey_Inr:
  assumes "runStmt (reserveKey uid key ts) s = (Inr (inserted, existing), s')"
  shows "seqVal (pg_seqs s) ''idempotency_keys'' + 1 \<le> maxInt64"
    "pg_seqs s' = mput ''idempotency_keys'' (seqVal (pg_seqs s) ''idempotency_keys'' + 1) (pg_seqs s)"
    "inserted \<longleftrightarrow> \<not> (\<exists>r \<in> set (mvals (t_idem (pg_tables s))). hasKey uid key r)"
    "\<not> inserted \<Longrightarrow> pg_tables s' = pg_tables s \<and>
       (\<exists>r. find (hasKey uid key) (mvals (t_idem (pg_tables s))) = Some r \<and> existing = krow_ResponseOrderID r)"
    "inserted \<Longrightarrow> pg_tables s' = (pg_tables s)\<lparr>t_idem := mput (seqVal (pg_seqs s) ''idempotency_keys'' + 1)
       \<lparr>krow_UserID = uid, krow_Key = key, krow_ResponseOrderID = None, krow_CreatedAt = pgTime ts\<rparr> (t_idem (pg_tables s))\<rparr>"
  using runStmt_Inr [OF assms]
  by (auto simp: reserveKey_def idemUpsert_def Let_def split: if_splits option.splits)

section \<open>The transaction\<close>

definition newIdemRow :: "int64 \<Rightarrow> string \<Rightarrow> time \<Rightarrow> int64 option \<Rightarrow> idemRow" where
  "newIdemRow uid key ts oid = \<lparr>krow_UserID = uid, krow_Key = key, krow_ResponseOrderID = oid, krow_CreatedAt = pgTime ts\<rparr>"

text \<open>The state after the key was reserved.\<close>

definition keyReserved :: "int64 \<Rightarrow> string \<Rightarrow> time \<Rightarrow> pgDB \<Rightarrow> pgDB \<Rightarrow> bool" where
  "keyReserved uid key ts s s1 \<longleftrightarrow> (let n = seqVal (pg_seqs s) ''idempotency_keys'' + 1
     in n \<le> maxInt64 \<and> \<not> (\<exists>r \<in> set (mvals (t_idem (pg_tables s))). hasKey uid key r) \<and>
        pg_seqs s1 = mput ''idempotency_keys'' n (pg_seqs s) \<and>
        pg_tables s1 = (pg_tables s)\<lparr>t_idem := mput n (newIdemRow uid key ts None) (t_idem (pg_tables s))\<rparr>)"

lemma keyReserved_ok:
  assumes "keyReserved uid key ts s s1" and "pgEcomInv s"
  shows "orderTablesOK (pg_tables s1) (pg_seqs s1)" "t_products (pg_tables s1) = t_products (pg_tables s)"
    "t_orders (pg_tables s1) = t_orders (pg_tables s)" "t_outbox (pg_tables s1) = t_outbox (pg_tables s)"
    "itemsOf i (pg_tables s1) = itemsOf i (pg_tables s)" "paymentOf i (pg_tables s1) = paymentOf i (pg_tables s)"
    "seqVal (pg_seqs s1) tbl = (if tbl = ''idempotency_keys'' then seqVal (pg_seqs s) tbl + 1 else seqVal (pg_seqs s) tbl)"
  using assms(1) pgEcomInv_parts(1) [OF assms(2)]
  by (auto simp: keyReserved_def Let_def orderTablesOK_def itemsOf_def paymentOf_def)

lemma orderTx_Inr:
  assumes inv: "pgEcomInv s" and run: "orderTx env uid key inp charge ts (s, w) = (Inr x, s', w')"
  obtains (replay) r oid where "r \<in> set (mvals (t_idem (pg_tables s)))" "hasKey uid key r"
      "krow_ResponseOrderID r = Some oid" "pgOrderOf (pg_tables s) oid = Some x" "pg_tables s' = pg_tables s" "w' = w"
  | (placed) s1 tot items pay ef where "keyReserved uid key ts s s1"
      "priceItems (t_products (pg_tables s)) (co_Items inp) 0 [] = Inr (tot, items)"
      "charge tot (co_PaymentMethod inp) w = (Inr pay, w')" "orderWritten env uid key ts tot items pay ef s1 s'"
      "pgOrderOf (pg_tables s') (ef_id ef) = Some x"
proof -
  obtain inserted existing s1 where res: "runStmt (reserveKey uid key ts) s = (Inr (inserted, existing), s1)"
    using run by (auto simp: orderTx_def split: prod.splits sum.splits)
  note key = reserveKey_Inr [OF res]
  show thesis
  proof (cases inserted)
    case False
    obtain r where r: "find (hasKey uid key) (mvals (t_idem (pg_tables s))) = Some r" "existing = krow_ResponseOrderID r"
      and t1: "pg_tables s1 = pg_tables s" using key(4) [OF False] by blast
    obtain oid where o: "existing = Some oid" using run res False by (auto simp: orderTx_def split: option.splits)
    then have g: "getOrderQuery oid s1 = (Inr x, s')" "w' = w"
      using run res False by (auto simp: orderTx_def split: prod.splits)
    have "r \<in> set (mvals (t_idem (pg_tables s)))" "hasKey uid key r" using r(1) by (auto simp: find_Some_iff)
    with getOrderQuery_full [OF g(1)] g(2) t1 o r(2) show thesis by (intro replay) auto
  next
    case True
    then obtain tot items s2 pay where p: "pgPriceItems (co_Items inp) 0 [] s1 = (Inr (tot, items), s2)"
      and c: "charge tot (co_PaymentMethod inp) w = (Inr pay, w')"
      and wr: "writeOrder env uid key ts tot items pay s2 = (Inr x, s')"
      using run res by (auto simp: orderTx_def split: prod.splits sum.splits)
    have s2: "pg_tables s2 = pg_tables s1" "pg_seqs s2 = pg_seqs s1"
      and price: "priceItems (t_products (pg_tables s1)) (co_Items inp) 0 [] = Inr (tot, items)"
      using pgPriceItems_full [OF p] by auto
    have k: "keyReserved uid key ts s s2"
      using key(1,2,3) key(5) [OF True] True s2 by (simp add: keyReserved_def Let_def newIdemRow_def)
    obtain ef where "orderWritten env uid key ts tot items pay ef s2 s'" "pgOrderOf (pg_tables s') (ef_id ef) = Some x"
      using writeOrder_effect [OF keyReserved_ok(1) [OF k inv] wr] .
    with placed [OF k _ c] price keyReserved_ok(2) [OF k inv] s2(1) show thesis by simp
  qed
qed

lemma linkRows_reserved:
  assumes "keyReserved uid key ts s s1" and "pgEcomInv s"
  shows "linkRows uid key oid (t_idem (pg_tables s1))
     = t_idem (pg_tables s) @ [(seqVal (pg_seqs s) ''idempotency_keys'' + 1, newIdemRow uid key ts (Some oid))]"
proof -
  have none: "\<not> hasKey uid key r" if "(i, r) \<in> set (t_idem (pg_tables s))" for i r
    using assms(1) that by (force simp: keyReserved_def Let_def)
  have "map_of (t_idem (pg_tables s)) (seqVal (pg_seqs s) ''idempotency_keys'' + 1) = None"
    using pgEcomInv_parts(3) [OF assms(2)] by (intro tableOK_fresh) auto
  then have "t_idem (pg_tables s1) = t_idem (pg_tables s) @ [(seqVal (pg_seqs s) ''idempotency_keys'' + 1, newIdemRow uid key ts None)]"
    using assms(1) by (simp add: keyReserved_def Let_def mkeys_mput_fresh)
  moreover have "map (\<lambda>(i, r). (i, if hasKey uid key r then r\<lparr>krow_ResponseOrderID := Some oid\<rparr> else r)) (t_idem (pg_tables s))
      = t_idem (pg_tables s)"
    using none by (intro map_idI) auto
  ultimately show ?thesis by (simp add: linkRows_def newIdemRow_def hasKey_def)
qed

text \<open>A placed order: the other orders stay as they were, the new id is fresh.\<close>

lemma placed_orders:
  assumes "pgEcomInv s" and "keyReserved uid key ts s s1" and "orderWritten env uid key ts tot items pay ef s1 s'"
  shows "pgOrderOf (pg_tables s) (ef_id ef) = None"
    and "i \<noteq> ef_id ef \<Longrightarrow> pgOrderOf (pg_tables s') i = pgOrderOf (pg_tables s) i"
  using assms(3) keyReserved_ok [OF assms(2,1)] by (auto simp: orderWritten_def pgOrderOf_def)

lemma placed_result:
  assumes "pgEcomInv s" and "keyReserved uid key ts s s1" and "orderWritten env uid key ts tot items pay ef s1 s'"
    and "pgOrderOf (pg_tables s') (ef_id ef) = Some x"
  shows "x = orderOfRow (ef_row ef) items (Inr (newPaymentRow (ef_id ef) pay tot ts 0))"
proof -
  have "itemsOf (ef_id ef) (pg_tables s) = []"
  proof -
    have "map_of (t_orders (pg_tables s)) (ef_id ef) = None"
      using assms(3) keyReserved_ok(3) [OF assms(2,1)] by (auto simp: orderWritten_def)
    with pgEcomInv_parts(1) [OF assms(1)] show ?thesis
      unfolding itemsOf_def by (subst filter_False) (auto simp: orderTablesOK_def)
  qed
  with assms(3,4) keyReserved_ok(5) [OF assms(2,1)] show ?thesis
    by (auto simp: orderWritten_def pgOrderOf_def)
qed

lemma placed_inv:
  assumes inv: "pgEcomInv s" and k: "keyReserved uid key ts s s1"
    and w: "orderWritten env uid key ts tot items pay ef s1 s'" and trim: "trimSpace key = key"
  shows "pgEcomInv s'"
proof -
  let ?m = "seqVal (pg_seqs s) ''idempotency_keys'' + 1" and ?new = "newIdemRow uid key ts (Some (ef_id ef))"
  note parts = pgEcomInv_parts [OF inv] and k1 = keyReserved_ok [OF k inv]
  have idem: "t_idem (pg_tables s') = t_idem (pg_tables s) @ [(?m, ?new)]"
    using w linkRows_reserved [OF k inv] by (simp add: orderWritten_def)
  then have vals: "set (mvals (t_idem (pg_tables s'))) = insert ?new (set (mvals (t_idem (pg_tables s))))" by auto
  have fresh: "map_of (t_idem (pg_tables s)) ?m = None" using parts(3) by (intro tableOK_fresh) auto
  have orders: "t_orders (pg_tables s') = mput (ef_id ef) (ef_row ef) (t_orders (pg_tables s))"
    and row: "ef_row ef = newOrderRow uid (statusOf pay) tot key ts (ef_id ef)"
    and none: "map_of (t_orders (pg_tables s)) (ef_id ef) = None"
    and stock: "stockTaken (pay_Status pay = ''paid'') items (t_products (pg_tables s)) (t_products (pg_tables s'))"
    and seqs: "seqVal (pg_seqs s') ''idempotency_keys'' = ?m" "seqVal (pg_seqs s') ''products'' = seqVal (pg_seqs s) ''products''"
    and room: "?m \<le> maxInt64" and nokey: "\<And>r. r \<in> set (mvals (t_idem (pg_tables s))) \<Longrightarrow> \<not> hasKey uid key r"
    and oOK: "orderTablesOK (pg_tables s') (pg_seqs s')"
    using w k k1(2,3) k1(7) by (auto simp: orderWritten_def keyReserved_def Let_def)
  have "tableOK (t_idem (pg_tables s')) (seqVal (pg_seqs s') ''idempotency_keys'')"
    using tableOK_insert [OF parts(3) room] idem seqs(1) mkeys_mput_fresh [OF fresh] by simp
  moreover have "tableOK (t_products (pg_tables s')) (seqVal (pg_seqs s') ''products'')"
    unfolding seqs(2) by (rule tableOK_keys [OF parts(2)]) (use stock in \<open>unfold stockTaken_def, blast\<close>)
  moreover have "prod_ID p = i \<and> 0 < prod_PriceCents p \<and> 0 \<le> prod_StockQty p"
    if p: "map_of (t_products (pg_tables s')) i = Some p" for i p
  proof -
    obtain p0 where "map_of (t_products (pg_tables s)) i = Some p0"
      using p stock map_of_same_keys unfolding stockTaken_def by (metis option.distinct(1) option.exhaust)
    with stock p parts(4) [OF this] show ?thesis unfolding stockTaken_def by fastforce
  qed
  moreover have "distinct (map (\<lambda>r. (krow_UserID r, krow_Key r)) (mvals (t_idem (pg_tables s'))))"
    using parts(5) nokey idem by (auto simp: newIdemRow_def hasKey_def)
  moreover have "trimSpace (krow_Key r) = krow_Key r \<and> (\<exists>oid row. krow_ResponseOrderID r = Some oid \<and>
      map_of (t_orders (pg_tables s')) oid = Some row \<and> orow_UserID row = krow_UserID r \<and> orow_IdempotencyKey row = krow_Key r)"
    if "r \<in> set (mvals (t_idem (pg_tables s')))" for r
  proof (cases "r = ?new")
    case True
    then show ?thesis using orders row trim by (simp add: newIdemRow_def newOrderRow_def)
  next
    case False
    with that vals have "r \<in> set (mvals (t_idem (pg_tables s)))" by simp
    from parts(6) [OF this] none show ?thesis by (auto simp: orders split: if_splits)
  qed
  moreover have "\<exists>r \<in> set (mvals (t_idem (pg_tables s'))). hasKey (orow_UserID row) (orow_IdempotencyKey row) r \<and>
      krow_ResponseOrderID r = Some i" if "map_of (t_orders (pg_tables s')) i = Some row" for i row
    using that parts(7) [of i row] unfolding vals orders row
    by (auto simp: newIdemRow_def newOrderRow_def hasKey_def split: if_splits)
  ultimately show ?thesis using oOK unfolding pgEcomInv_def Let_def by blast
qed

section \<open>The contract\<close>

lemma pgEcom_tx_Inr:
  assumes "pgEcomInv s" and "pgEcom_CreateOrder env uid key inp charge ts (s, w) = (Inr x, s', w')"
  obtains s1 s2 where "pgEcomInv s1" "pg_tables s1 = pg_tables s" "pg_seqs s1 = pg_seqs s"
    "orderTx env uid key inp charge ts (s1, w) = (Inr x, s2, w')"
    "pg_tables s' = pg_tables s2" "pg_seqs s' = pg_seqs s2"
proof -
  obtain s1 s2 where "pg_tables s1 = pg_tables s" "pg_seqs s1 = pg_seqs s"
    "orderTx env uid key inp charge ts (s1, w) = (Inr x, s2, w')" "pg_tables s' = pg_tables s2" "pg_seqs s' = pg_seqs s2"
    using withTx_Inr [OF assms(2) [unfolded pgEcom_CreateOrder_def]] by metis
  moreover from this have "pgEcomInv s1" using pgEcomInv_grow [OF assms(1), of s1] by simp
  ultimately show thesis using that by blast
qed

lemma pgEcomInv_cong: "pgEcomInv s \<Longrightarrow> pg_tables s' = pg_tables s \<Longrightarrow> pg_seqs s' = pg_seqs s \<Longrightarrow> pgEcomInv s'"
  by (rule pgEcomInv_grow [of s]) simp_all

text \<open>Every new order, whoever places it: what is stored, and where it came from.\<close>

lemma pgEcom_order_cases:
  assumes inv: "pgEcomInv s" and run: "pgEcom_CreateOrder env uid key inp charge ts (s, w) = (Inr x, s', w')"
    and trim: "trimSpace key = key"
  obtains (replay) r oid where "r \<in> set (mvals (t_idem (pg_tables s)))" "hasKey uid key r"
      "krow_ResponseOrderID r = Some oid" "pgOrderOf (pg_tables s) oid = Some x" "pg_tables s' = pg_tables s" "w' = w"
      "pgEcomInv s'"
  | (placed) s0 s1 tot items pay ef where "pg_tables s0 = pg_tables s" "pg_seqs s0 = pg_seqs s" "pgEcomInv s0"
      "keyReserved uid key ts s0 s1" "priceItems (t_products (pg_tables s)) (co_Items inp) 0 [] = Inr (tot, items)"
      "charge tot (co_PaymentMethod inp) w = (Inr pay, w')" "orderWritten env uid key ts tot items pay ef s1 s'"
      "pgOrderOf (pg_tables s') (ef_id ef) = Some x" "pgEcomInv s'"
proof -
  obtain s1 s2 where 1: "pgEcomInv s1" "pg_tables s1 = pg_tables s" "pg_seqs s1 = pg_seqs s"
    and tx: "orderTx env uid key inp charge ts (s1, w) = (Inr x, s2, w')"
    and 2: "pg_tables s' = pg_tables s2" "pg_seqs s' = pg_seqs s2"
    by (rule pgEcom_tx_Inr [OF inv run])
  show thesis
    using 1(1) tx
  proof (cases rule: orderTx_Inr)
    case (replay r oid)
    have "pgEcomInv s'"
      using pgEcomInv_grow [OF inv] pgEcom_CreateOrder_grow [OF run] replay(5) 1(2) 2(1) by simp
    with replay 1 2 that(1) show thesis by simp
  next
    case (placed s3 tot items pay ef)
    have w: "orderWritten env uid key ts tot items pay ef s3 s'"
      using placed(4) unfolding orderWritten_def 2 .
    show thesis
      using that(2) [OF 1(2,3,1) placed(1)] placed(2,3,5) w placed_inv [OF 1(1) placed(1) w trim] 1(2) 2(1) by simp
  qed
qed

lemma pgEcom_order_spec:
  assumes inv: "pgEcomInv s" and trim: "trimSpace key = key"
    and run: "pgEcom_CreateOrder env uid key inp charge ts (s, w) = (res, s', w')"
  shows "pgEcomInv s' \<and> pgOrderOf (pg_tables s) \<subseteq>\<^sub>m pgOrderOf (pg_tables s') \<and>
      (\<forall>e. res = Inl e \<longrightarrow> pgOrderOf (pg_tables s') = pgOrderOf (pg_tables s)) \<and>
      (\<forall>x. res = Inr x \<longrightarrow> pgOrderOf (pg_tables s') (ord_ID x) = Some x \<and> ord_UserID x = uid \<and>
         trimSpace (ord_IdempotencyKey x) = key)"
proof (cases res)
  case (Inl e)
  have "pg_tables s' = pg_tables s"
    using withTx_Inl run Inl by (metis pgEcom_CreateOrder_def)
  with pgEcomInv_grow [OF inv] pgEcom_CreateOrder_grow [OF run] Inl show ?thesis by simp
next
  case (Inr x)
  show ?thesis
    using inv run [unfolded Inr] trim
  proof (cases rule: pgEcom_order_cases)
    case (replay r oid)
    then have "ord_ID x = oid" "ord_UserID x = uid" "ord_IdempotencyKey x = key"
      using pgEcomInv_parts(6) [OF inv replay(1)] pgEcomInv_parts(1) [OF inv]
      by (auto simp: pgOrderOf_def orderOfRow_def hasKey_def orderTablesOK_def)
    with replay trim Inr show ?thesis by simp
  next
    case (placed s0 s1 tot items pay ef)
    have x: "x = orderOfRow (ef_row ef) items (Inr (newPaymentRow (ef_id ef) pay tot ts 0))"
      by (rule placed_result [OF placed(3,4,7,8)])
    have row: "ef_row ef = newOrderRow uid (statusOf pay) tot key ts (ef_id ef)"
      using placed(7) by (simp add: orderWritten_def)
    note po = placed_orders [OF placed(3,4,7)]
    have "pgOrderOf (pg_tables s) \<subseteq>\<^sub>m pgOrderOf (pg_tables s')"
      unfolding map_le_def using po placed(1) by (metis domIff)
    with Inr placed x row trim show ?thesis by (simp add: orderOfRow_def newOrderRow_def)
  qed
qed

lemma pgEcom_replay:
  assumes inv: "pgEcomInv s" and x: "pgOrderOf (pg_tables s) i = Some x" "ord_IdempotencyKey x = key"
    and run: "pgEcom_CreateOrder env (ord_UserID x) key inp charge ts (s, w) = (res, s', w')"
  shows "w' = w \<and> pg_tables s' = pg_tables s \<and> (\<forall>y. res = Inr y \<longrightarrow> y = x)"
proof -
  let ?uid = "ord_UserID x"
  obtain row where row: "map_of (t_orders (pg_tables s)) i = Some row" "orow_UserID row = ?uid" "orow_IdempotencyKey row = key"
  proof -
    obtain row where "map_of (t_orders (pg_tables s)) i = Some row" "x = orderOfRow row (itemsOf i (pg_tables s)) (paymentOf i (pg_tables s))"
      using x(1) unfolding pgOrderOf_def by blast
    with x(2) that [of row] show thesis by (simp add: orderOfRow_def)
  qed
  obtain r where r: "r \<in> set (mvals (t_idem (pg_tables s)))" "hasKey ?uid key r" "krow_ResponseOrderID r = Some i"
    using pgEcomInv_parts(7) [OF inv row(1)] row(2,3) by auto
  then have find: "find (hasKey ?uid key) (mvals (t_idem (pg_tables s))) = Some r"
    using find_unique [OF pgEcomInv_parts(5) [OF inv] r(1)] by (simp add: hasKey_def hasKey_iff [of ?uid])
  have tx: "w1 = w \<and> (\<forall>y. res1 = Inr y \<longrightarrow> y = x) \<and> (\<forall>y. res1 = Inr y \<longrightarrow> pg_tables s2 = pg_tables s)"
    if t: "pg_tables s0 = pg_tables s" and run0: "orderTx env ?uid key inp charge ts (s0, w) = (res1, s2, w1)" for s0 s2 res1 w1
  proof (cases "fst (runStmt (reserveKey ?uid key ts) s0)")
    case (Inl e)
    then show ?thesis using run0 by (auto simp: orderTx_def split: prod.splits)
  next
    case (Inr ie)
    then obtain inserted existing s1 where k: "runStmt (reserveKey ?uid key ts) s0 = (Inr (inserted, existing), s1)"
      by (cases ie) (metis prod.collapse)
    have no: "\<not> inserted" using reserveKey_Inr(3) [OF k] r(1,2) t by metis
    have e: "existing = Some i" "pg_tables s1 = pg_tables s"
      using reserveKey_Inr(4) [OF k no] find r(3) t by auto
    have "getOrderQuery i s1 = (res1, s2)" "w1 = w"
      using run0 k no e(1) by (auto simp: orderTx_def split: prod.splits)
    with getOrderQuery_full [of i s1 res1 s2] x(1) e(2) show ?thesis by auto
  qed
  show ?thesis
  proof (cases "takeFault s")
    case (Pair f s0)
    note t0 = takeFault_keeps_eq [OF Pair, THEN conjunct1]
    show ?thesis
    proof (cases f)
      case None
      obtain res1 s2 w1 where o: "orderTx env ?uid key inp charge ts (s0, w) = (res1, s2, w1)" by (metis prod.collapse)
      note t = tx [OF t0 o]
      obtain f2 s3 where f2: "takeFault s2 = (f2, s3)" by fastforce
      show ?thesis
        using run Pair None o f2 t t0 takeFault_keeps_eq [OF f2]
        by (cases res1; cases f2) (auto simp: pgEcom_CreateOrder_def withTx_def)
    qed (use run Pair t0 in \<open>auto simp: pgEcom_CreateOrder_def withTx_def\<close>)
  qed
qed

lemma pgEcom_product_ok:
  assumes inv: "pgEcomInv s"
    and r: "runStmt (insertStmt ''products'' t_products putProducts productCheck (productRow pin ts)) s = (r, s')"
  shows "pgEcomInv s' \<and> pgOrderOf (pg_tables s') = pgOrderOf (pg_tables s)"
proof (cases r)
  case (Inl e)
  with insert_err [OF r [unfolded Inl]] pgEcomInv_grow [OF inv] insert_grow [OF r] show ?thesis by simp
next
  case (Inr p)
  let ?n = "seqVal (pg_seqs s) ''products'' + 1"
  note i = insert_Inr [OF r [unfolded Inr]]
  have rest: "t_orders (pg_tables s') = t_orders (pg_tables s)" "t_idem (pg_tables s') = t_idem (pg_tables s)"
    "t_order_items (pg_tables s') = t_order_items (pg_tables s)" "t_payments (pg_tables s') = t_payments (pg_tables s)"
    "t_outbox (pg_tables s') = t_outbox (pg_tables s)" "t_products (pg_tables s') = mput ?n p (t_products (pg_tables s))"
    using i(6) by (simp_all add: putProducts_def)
  have p: "prod_ID p = ?n" "0 < prod_PriceCents p" "0 \<le> prod_StockQty p"
    using i(1,3) by (auto simp: productRow_def productCheck_def split: if_splits)
  note parts = pgEcomInv_parts [OF inv]
  have "pgEcomInv s'"
    unfolding pgEcomInv_def Let_def orderTablesOK_def rest i(5)
    using parts(1,3,5,6,7) p parts(4) tableOK_insert [OF parts(2) i(2)]
    by (auto simp: orderTablesOK_def)
  moreover have "pgOrderOf (pg_tables s') = pgOrderOf (pg_tables s)"
    using rest by (simp add: pgOrderOf_def itemsOf_def paymentOf_def fun_eq_iff)
  ultimately show ?thesis by simp
qed

interpretation pgEcom: ecom_repo "postgresEcomRepo env" "\<lambda>s. pgOrderOf (pg_tables s)" pgEcomInv "\<lambda>s. True"
proof (unfold_locales, goal_cases)
  case (1 s pin ts pres s')
  obtain r where r: "runStmt (insertStmt ''products'' t_products putProducts productCheck (productRow pin ts)) s = (r, s')"
    using 1(3) by (auto simp: postgresEcomRepo_def pgEcom_CreateProduct_def split: prod.splits sum.splits)
  from pgEcom_product_ok [OF 1(1) r] show ?case .
next
  case (2 s lres s')
  then obtain r where "queryRows ''query products: '' ''iterate product rows: '' (\<lambda>t. mvals (orderByID (t_products t))) s = (r, s')"
    by (auto simp: postgresEcomRepo_def pgEcom_ListProducts_def split: prod.splits sum.splits)
  from queryRows_keeps [OF this] show ?case using pgEcomInv_cong [OF 2(1)] by simp
next
  case (3 s i gres s')
  then have "getOrderQuery i s = (gres, s')" by (simp add: postgresEcomRepo_def pgEcom_GetOrder_def)
  from getOrderQuery_full [OF this] show ?case using pgEcomInv_cong [OF 3(1)] by (auto simp: pgOrderOf_def)
next
  case (4 s key uid inp charge ts w res s' w')
  then show ?case using pgEcom_order_spec [of s key env uid inp charge ts w res s' w'] by (simp add: postgresEcomRepo_def)
next
  case (5 s i x key inp charge ts w res s' w')
  have "trimSpace (ord_IdempotencyKey x) = ord_IdempotencyKey x"
  proof -
    obtain row where row: "map_of (t_orders (pg_tables s)) i = Some row" "ord_IdempotencyKey x = orow_IdempotencyKey row"
      using 5(2) by (auto simp: pgOrderOf_def orderOfRow_def)
    from pgEcomInv_parts(7) [OF 5(1) row(1)] obtain r where "r \<in> set (mvals (t_idem (pg_tables s)))" "krow_Key r = orow_IdempotencyKey row"
      by (auto simp: hasKey_def)
    with pgEcomInv_parts(6) [OF 5(1), of r] row(2) show ?thesis by simp
  qed
  with pgEcom_replay [OF 5(1,2), of key env inp charge ts w res s' w'] 5(3,5) show ?case by (auto simp: postgresEcomRepo_def)
qed

end
