(* ===== verification/PgShop.thy ===== *)
theory PgShop
  imports PgOrders
begin

text \<open>
  What the shop guarantees when it runs on PostgreSQL, through the handlers of \<open>ecommerce.go\<close>:
  a refused order leaves no trace in the tables, a placed order has exactly the effects it
  reports, stock never goes negative whatever is ordered, and idempotency keys work. It also shows
  the limit of the transaction: the payment provider is called in the middle of it.
\<close>

section \<open>Refused orders\<close>

text \<open>
  C1: orders on PostgreSQL are all or nothing. Whatever the faults of the database, the request and
  the payment provider, an order request that is not answered with an order leaves every table
  exactly as it was: no order without its items, no taken stock, no reserved idempotency key and
  no outbox event.
\<close>

theorem pg_order_atomic:
  assumes "createOrder (postgresEcomRepo env) charge now body (s, w) r = (res, s', w')"
    and "responseData res = None"
  shows "pg_tables s' = pg_tables s"
  using assms(1)
proof (cases rule: pgEcom.createOrder_cases)
  case (2 uid inp cres)
  then obtain e where "pgEcom_CreateOrder env uid (trimSpace (lookupStr (req_Header r) ''Idempotency-Key'')) inp charge now (s, w)
      = (Inl e, s', w')"
    using assms(2) by (cases cres) (auto simp: postgresEcomRepo_def)
  then show ?thesis unfolding pgEcom_CreateOrder_def by (rule withTx_Inl)
qed simp

section \<open>Placed orders\<close>

lemma priceItems_qty:
  assumes "priceItems ps its tot acc = Inr (tot', items)" and "\<And>i p. map_of ps i = Some p \<Longrightarrow> prod_ID p = i"
  shows "itemQty i items = itemQty i acc + ordered i its"
  using assms
proof (induction ps its tot acc rule: priceItems.induct)
  case (2 ps' it its tot acc)
  from 2(2) obtain p where p: "map_of ps' (coi_ProductID it) = Some p" "\<not> coi_Quantity it \<le> 0" "\<not> prod_StockQty p < coi_Quantity it"
    by (auto split: option.splits if_splits)
  define line where "line = wrap64 (prod_PriceCents p * coi_Quantity it)"
  define oi where "oi = \<lparr>oi_ProductID = prod_ID p, oi_Quantity = coi_Quantity it,
      oi_UnitPriceCents = prod_PriceCents p, oi_LineTotalCents = line\<rparr>"
  have r: "priceItems ps' its (wrap64 (tot + line)) (acc @ [oi]) = Inr (tot', items)"
    using 2(2) p by (simp add: line_def oi_def Let_def)
  have "itemQty i items = itemQty i (acc @ [oi]) + ordered i its"
    using 2(1) [OF p line_def, folded oi_def, OF r 2(3)] .
  moreover have "prod_ID p = coi_ProductID it" using 2(3) p(1) by simp
  ultimately show ?case by (simp add: itemQty_def oi_def)
qed simp

text \<open>
  C2: a placed order has exactly the effects it reports. For a fresh idempotency key a successful
  \<open>CreateOrder\<close> charged the provider once with the reported total, which is the wrapped sum of the
  line totals; took from each product exactly the quantity ordered of it when the payment
  succeeded, nothing otherwise, and never below zero; added this order and no other to the orders;
  and appended one pending outbox event that carries it.
\<close>

theorem pg_order_exact:
  assumes "pgEcomInv s" and "trimSpace key = key"
    and "pgEcom_CreateOrder env uid key inp charge ts (s, w) = (Inr x, s', w')"
    and "\<not> (\<exists>r \<in> set (mvals (t_idem (pg_tables s))). hasKey uid key r)"
    and "map_of (t_products (pg_tables s)) i = Some p"
  shows "(\<exists>pay payload n. charge (ord_TotalCents x) (co_PaymentMethod inp) w = (Inr pay, w') \<and> ord_Status x = statusOf pay
        \<and> pe_jsonb env (pe_marshal env (orderEvent (ord_ID x) uid (ord_Status x) (ord_TotalCents x) pay key ts)) = Some payload
        \<and> t_outbox (pg_tables s') = t_outbox (pg_tables s) @ [(n, newOutboxRow (Some payload) (ord_ID x) key ts n)])
     \<and> ord_TotalCents x = wrap64 (sum_list (map oi_LineTotalCents (ord_Items x)))
     \<and> (\<exists>p'. map_of (t_products (pg_tables s')) i = Some p' \<and> 0 \<le> prod_StockQty p'
        \<and> prod_StockQty p' = prod_StockQty p - (if ord_Status x = ''paid'' then ordered i (co_Items inp) else 0))
     \<and> pgOrderOf (pg_tables s) (ord_ID x) = None
     \<and> pgOrderOf (pg_tables s') = (pgOrderOf (pg_tables s))(ord_ID x \<mapsto> x)"
  using assms(1,3,2)
proof (cases rule: pgEcom_order_cases)
  case (replay r oid)
  then show ?thesis using assms(4) by blast
next
  case (placed s0 s1 tot items pay ef)
  have x: "x = orderOfRow (ef_row ef) items (Inr (newPaymentRow (ef_id ef) pay tot ts 0))"
    by (rule placed_result [OF placed(3,4,7,8)])
  have row: "ef_row ef = newOrderRow uid (statusOf pay) tot key ts (ef_id ef)"
    and event: "pe_jsonb env (pe_marshal env (orderEvent (ef_id ef) uid (statusOf pay) tot pay key ts)) = Some (ef_payload ef)"
    and outbox: "t_outbox (pg_tables s') = t_outbox (pg_tables s) @ [(ef_eventID ef, newOutboxRow (Some (ef_payload ef)) (ef_id ef) key ts (ef_eventID ef))]"
    and stock: "stockTaken (pay_Status pay = ''paid'') items (t_products (pg_tables s)) (t_products (pg_tables s'))"
    using placed(7) keyReserved_ok(2,4) [OF placed(4,3)] placed(1) unfolding orderWritten_def by (auto simp: mkeys_mput_fresh)
  have xs: "ord_ID x = ef_id ef" "ord_TotalCents x = tot" "ord_Status x = statusOf pay" "ord_Items x = items"
    using x row by (simp_all add: orderOfRow_def newOrderRow_def)
  have "tot = wrap64 (sum_list (map oi_LineTotalCents items))"
    using priceItems_items [OF placed(5)] by auto
  moreover have "itemQty i items = ordered i (co_Items inp)"
    using priceItems_qty [OF placed(5), of i] pgEcomInv_parts(4) [OF assms(1)] by (simp add: itemQty_def)
  moreover have "statusOf pay = ''paid'' \<longleftrightarrow> pay_Status pay = ''paid''" by (simp add: statusOf_def)
  moreover note stock [unfolded stockTaken_def, THEN conjunct2, rule_format, OF assms(5)] pgEcomInv_parts(4) [OF assms(1,5)]
  moreover have "pgOrderOf (pg_tables s) (ef_id ef) = None"
    and "pgOrderOf (pg_tables s') = (pgOrderOf (pg_tables s))(ef_id ef \<mapsto> x)"
    using placed_orders [OF placed(3,4,7)] placed(1,8) by (auto simp: fun_eq_iff)
  ultimately show ?thesis unfolding xs using placed(6) event outbox by auto
qed

text \<open>
  C3: no oversell on PostgreSQL. Whatever products are created and orders are placed, by whatever
  requests, with whatever lines (the same product on several lines included), payment answers and
  database faults, the stock of every product stays at least zero and its price positive.
\<close>

theorem pg_no_oversell:
  assumes "ecomRun (postgresEcomRepo env) charge (\<lambda>s. True) (freshDB fs, w) (s, w')"
    and "map_of (t_products (pg_tables s)) i = Some p"
  shows "0 \<le> prod_StockQty p \<and> 0 < prod_PriceCents p"
proof -
  have "pgEcomInv (freshDB fs)"
    by (simp add: pgEcomInv_def orderTablesOK_def freshDB_def emptyTables_def seqVal_def maxInt64_def)
  then have "pgEcomInv s" using pgEcom.ecomRun_keeps [OF assms(1)] by blast
  from pgEcomInv_parts(4) [OF this assms(2)] show ?thesis by blast
qed

text \<open>
  C4: a retried order on PostgreSQL is not placed or charged twice. Once an order request of a user
  has been answered with an order, then after any further requests and faults a request of the same
  user with the same key charges nothing and changes no order; if it is answered with an order at
  all, it is the same one, word for word.
\<close>

theorem pg_order_idempotent:
  assumes "pgEcomInv s"
    and "createOrder (postgresEcomRepo env) charge now body (s, w) r = (res, s1, w1)"
    and "responseData res = Some (OrderOne x)"
    and "ecomRun (postgresEcomRepo env) charge (\<lambda>s. True) (s1, w1) (s2, w2)"
    and "authUserIDFromContext (req_ctx q) = authUserIDFromContext (req_ctx r)"
    and "trimSpace (lookupStr (req_Header q) ''Idempotency-Key'')
      = trimSpace (lookupStr (req_Header r) ''Idempotency-Key'')"
    and "createOrder (postgresEcomRepo env) charge now' body' (s2, w2) q = (res', s3, w3)"
  shows "w3 = w2 \<and> pgOrderOf (pg_tables s3) = pgOrderOf (pg_tables s2)
     \<and> (responseData res' = None \<or> responseData res' = Some (OrderOne x))"
proof -
  have "w3 = w2 \<and> pgOrderOf (pg_tables s3) = pgOrderOf (pg_tables s2) \<and> (\<forall>d. responseData res' = Some d \<longrightarrow> d = OrderOne x)"
    by (rule pgEcom.order_replayed [OF assms(1) TrueI assms(2-7)])
  then show ?thesis by (cases "responseData res'") simp_all
qed

section \<open>The limits of the transaction\<close>

text \<open>
  Two requests with the same key at the same time. The second one waits for the first one's
  transaction inside the insert and then finds the key taken, but its own snapshot is older than
  the row: the statement returns no row at all and the request fails with an internal error instead
  of the first one's order.
\<close>

lemma concurrent_key_lost:
  assumes "find (hasKey uid key) snap = None" and "\<exists>r \<in> set (mvals committed). hasKey uid key r"
    and "seqVal q ''idempotency_keys'' < maxInt64"
  shows "fst (idemUpsert snap committed uid key ts q) = Inl ErrNoRows"
  using assms by (simp add: idemUpsert_def Let_def)

definition demoPgEnv :: pgEnv where
  "demoPgEnv = \<lparr>pe_marshal = (\<lambda>e. ''{}''), pe_jsonb = Some\<rparr>"

definition demoPg :: "string option list \<Rightarrow> pgDB" where
  "demoPg fs = \<lparr>pg_tables = emptyTables\<lparr>t_products := [(1, \<lparr>prod_ID = 1, prod_Name = ''tea'', prod_PriceCents = 5,
       prod_StockQty = 3, prod_CreatedAt = 0, prod_UpdatedAt = 0\<rparr>)]\<rparr>, pg_seqs = [(''products'', 1)], pg_faults = fs\<rparr>"

text \<open>
  The payment provider is charged inside the transaction, before the order is written. There is
  a run, with a database that fails only when the order is inserted, in which the customer is
  charged (the counting provider goes from 0 to 1) and neither the order nor the idempotency key
  survives the rollback; the retry with the same key charges a second time.
\<close>

theorem pg_charged_without_order:
  "\<exists>e s1 s2 x. pgEcom_CreateOrder demoPgEnv 1 ''k'' (demoLines [2]) demoCountingCharge 0
         (demoPg [None, None, None, Some ''disk full''], 0) = (Inl (EcomError e), s1, 1)
     \<and> pg_tables s1 = pg_tables (demoPg [])
     \<and> pgEcom_CreateOrder demoPgEnv 1 ''k'' (demoLines [2]) demoCountingCharge 0 (s1, 1) = (Inr x, s2, 2)"
proof -
  let ?r1 = "pgEcom_CreateOrder demoPgEnv 1 ''k'' (demoLines [2]) demoCountingCharge 0
      (demoPg [None, None, None, Some ''disk full''], 0)"
  let ?s1 = "fst (snd ?r1)"
  let ?r2 = "pgEcom_CreateOrder demoPgEnv 1 ''k'' (demoLines [2]) demoCountingCharge 0 (?s1, 1)"
  have "fst ?r1 = Inl (EcomError ''insert order: disk full'')" "snd (snd ?r1) = 1"
    "pg_tables ?s1 = pg_tables (demoPg [])" "\<not> isl (fst ?r2)" "snd (snd ?r2) = 2"
    by code_simp+
  then show ?thesis by (metis isl_def prod.collapse sum.exhaust_sel sum.disc(2))
qed

section \<open>Witnesses\<close>

lemma demoPg_inv: "pgEcomInv (demoPg fs)"
  by (simp add: pgEcomInv_def orderTablesOK_def demoPg_def emptyTables_def seqVal_def maxInt64_def tableOK_def)

definition demoPgOrdered :: pgDB where
  "demoPgOrdered = fst (snd (pgEcom_CreateOrder demoPgEnv 1 ''k'' (demoLines [2]) demoCountingCharge 0 (demoPg [], 0)))"

lemma demo_pg_order:
  "pgEcom_CreateOrder demoPgEnv 1 ''k'' (demoLines [2]) demoCountingCharge 0 (demoPg [], 0) = (Inr demoOrder, demoPgOrdered, 1)"
proof -
  have "fst (pgEcom_CreateOrder demoPgEnv 1 ''k'' (demoLines [2]) demoCountingCharge 0 (demoPg [], 0)) = Inr demoOrder"
    "snd (snd (pgEcom_CreateOrder demoPgEnv 1 ''k'' (demoLines [2]) demoCountingCharge 0 (demoPg [], 0))) = 1"
    by code_simp+
  then show ?thesis by (simp add: demoPgOrdered_def prod_eq_iff)
qed

lemma demo_pg_request:
  "createOrder (postgresEcomRepo demoPgEnv) demoCountingCharge 0 (okBody (demoLines [2])) (demoPg [], 0) demoOrderRequest
     = (respondJSON demoOrderRequest 201 (OrderOne demoOrder), demoPgOrdered, 1)"
  using demo_pg_order
  by (simp add: createOrder_def demoOrderRequest_def demoPrincipal_def withAuthPrincipal_def withAuthUserID_def
      authUserIDFromContext_def lookupStr_def demo_key Let_def postgresEcomRepo_def demoLines_def)

theorem pg_order_exact_witness:
  "\<exists>p'. map_of (t_products (pg_tables demoPgOrdered)) 1 = Some p' \<and> prod_StockQty p' = 1
     \<and> pgOrderOf (pg_tables demoPgOrdered) 1 = Some demoOrder"
proof -
  let ?p = "\<lparr>prod_ID = 1, prod_Name = ''tea'', prod_PriceCents = 5, prod_StockQty = 3, prod_CreatedAt = 0, prod_UpdatedAt = 0\<rparr>"
  have "map_of (t_products (pg_tables (demoPg []))) 1 = Some ?p"
    "\<not> (\<exists>r \<in> set (mvals (t_idem (pg_tables (demoPg [])))). hasKey 1 ''k'' r)"
    by (simp_all add: demoPg_def emptyTables_def)
  from pg_order_exact [OF demoPg_inv demo_key demo_pg_order this(2,1)] show ?thesis
    by (auto simp: demoOrder_def demoLines_def)
qed

theorem pg_order_atomic_witness:
  "pg_tables (fst (snd (createOrder (postgresEcomRepo demoPgEnv) demoCountingCharge 0 (okBody (demoLines [9])) (demoPg [], 4)
     demoOrderRequest))) = pg_tables (demoPg [])"
proof -
  have "fst (pgEcom_CreateOrder demoPgEnv 1 ''k'' (demoLines [9]) demoCountingCharge 0 (demoPg [], 4)) = Inl ErrInsufficientStock"
    by code_simp
  then have "responseData (fst (createOrder (postgresEcomRepo demoPgEnv) demoCountingCharge 0 (okBody (demoLines [9])) (demoPg [], 4)
      demoOrderRequest)) = None"
    by (cases "pgEcom_CreateOrder demoPgEnv 1 ''k'' (demoLines [9]) demoCountingCharge 0 (demoPg [], 4)")
      (simp add: createOrder_def demoOrderRequest_def demoPrincipal_def withAuthPrincipal_def withAuthUserID_def
      authUserIDFromContext_def lookupStr_def demo_key Let_def postgresEcomRepo_def demoLines_def respondOrderError_def)
  then show ?thesis by (intro pg_order_atomic [where res = "fst _" and w' = "snd (snd _)"]) (simp_all add: prod_eq_iff)
qed

theorem pg_order_idempotent_witness:
  "snd (snd (createOrder (postgresEcomRepo demoPgEnv) demoCountingCharge 7 (okBody (demoLines [1, 1])) (demoPgOrdered, 1)
     demoOrderRequest)) = 1"
proof -
  obtain res s3 w3 where again: "createOrder (postgresEcomRepo demoPgEnv) demoCountingCharge 7 (okBody (demoLines [1, 1]))
      (demoPgOrdered, 1) demoOrderRequest = (res, s3, w3)" by (metis prod.collapse)
  have "w3 = 1"
    using pg_order_idempotent [OF demoPg_inv demo_pg_request _ rtranclp.rtrancl_refl refl refl again] by simp
  then show ?thesis unfolding again by simp
qed

definition demoPgStocked :: pgDB where
  "demoPgStocked = snd (createProduct (postgresEcomRepo demoPgEnv :: (pgDB, nat) ecommerceRepository) 0
     (okBody \<lparr>cp_Name = ''tea'', cp_PriceCents = 5, cp_StockQty = 3\<rparr>) (freshDB []) (demoPrincipal 1 ''admin''))"

theorem pg_no_oversell_witness:
  "\<exists>p. map_of (t_products (pg_tables demoPgStocked)) 1 = Some p \<and> 0 \<le> prod_StockQty p \<and> 0 < prod_PriceCents p"
proof -
  have "ecomRun (postgresEcomRepo demoPgEnv) demoCountingCharge (\<lambda>s. True) (freshDB [], 0) (demoPgStocked, 0)"
    unfolding demoPgStocked_def by (rule r_into_rtranclp) (rule ecom_product, simp)
  note run = pg_no_oversell [OF this]
  have "map_of (t_products (pg_tables demoPgStocked)) 1 \<noteq> None" by code_simp
  with run show ?thesis by blast
qed

end
