(* ===== verification/PgEvents.thy ===== *)
theory PgEvents
  imports PgDb
begin

text \<open>
  \<open>internal/eventpipe/postgres.go\<close>: the outbox, the dead-letter table and the order projection on
  PostgreSQL. The outbox contract of the publisher is interpreted on it, so that what the
  publisher was shown to keep holds for the tables; the consumer's side is the dead-letter insert
  and the projection upsert. \<open>jsonb\<close> is the cast of the database: the text a stored document reads
  back as, \<open>None\<close> when the input is not JSON.
\<close>

section \<open>The outbox\<close>

definition putOutboxRows :: "(int64, outboxRow) gomap \<Rightarrow> pgTables \<Rightarrow> pgTables" where
  "putOutboxRows rows t = t\<lparr>t_outbox := rows\<rparr>"

definition in32 :: "int \<Rightarrow> bool" where
  "in32 x \<longleftrightarrow> - (2 ^ 31) \<le> x \<and> x < 2 ^ 31"

definition outOfRange :: pgError where
  "outOfRange = PgOther ''ERROR: integer out of range''"

definition dueRow :: "time \<Rightarrow> outboxRow \<Rightarrow> bool" where
  "dueRow now row \<longleftrightarrow> ob_status row = ''pending'' \<and> ob_nextAttemptAt row \<le> pgTime now"

definition pendingEvents :: "int \<Rightarrow> time \<Rightarrow> pgTables \<Rightarrow> outboxEvent list" where
  "pendingEvents bound now t = take (nat bound) (map ob_event (filter (dueRow now) (mvals (orderByID (t_outbox t)))))"

definition pgFetchPending :: "int \<Rightarrow> time \<Rightarrow> pgDB \<Rightarrow> (string + outboxEvent list) \<times> pgDB" where
  "pgFetchPending bound now s =
     (case runStmt (selectStmt (\<lambda>t. if bound < 0 then Inl (PgOther ''ERROR: LIMIT must not be negative'')
                                     else Inr (pendingEvents bound now t))) s of
        (Inl e, s1) \<Rightarrow> (Inl (''query outbox pending: '' @ pgText e), s1)
      | (Inr evs, s1) \<Rightarrow> (case takeFault s1 of
            (Some e, s2) \<Rightarrow> (Inl (''iterate outbox rows: '' @ e), s2)
          | (None, s2) \<Rightarrow> (Inr evs, s2)))"

text \<open>\<open>UPDATE outbox_events SET ... WHERE id = $1\<close>; the column \<open>attempts\<close> is a 32-bit integer.\<close>

definition updateOutbox :: "int64 \<Rightarrow> (outboxRow \<Rightarrow> outboxRow) \<Rightarrow> pgTables \<Rightarrow> pgError + unit \<times> pgTables" where
  "updateOutbox i f t = (case map_of (t_outbox t) i of
       None \<Rightarrow> Inr ((), t)
     | Some row \<Rightarrow> if in32 (oe_Attempts (ob_event (f row))) then Inr ((), putOutboxRows (mput i (f row) (t_outbox t)) t)
                    else Inl outOfRange)"

definition execOutbox :: "string \<Rightarrow> (pgTables \<Rightarrow> pgError + unit \<times> pgTables) \<Rightarrow> pgDB \<Rightarrow> string option \<times> pgDB" where
  "execOutbox what f s = (case runStmt (execStmt f) s of
       (Inl e, s1) \<Rightarrow> (Some (what @ pgText e), s1) | (Inr _, s1) \<Rightarrow> (None, s1))"

definition pgMarkPublished :: "int64 \<Rightarrow> time \<Rightarrow> pgDB \<Rightarrow> string option \<times> pgDB" where
  "pgMarkPublished i ts = execOutbox ''mark outbox published: '' (updateOutbox i (rowPublished (pgTime ts)))"

definition pgMarkRetry :: "int64 \<Rightarrow> int \<Rightarrow> time \<Rightarrow> string \<Rightarrow> pgDB \<Rightarrow> string option \<times> pgDB" where
  "pgMarkRetry i n ts err = execOutbox ''mark outbox retry: '' (\<lambda>t.
     if in32 n then updateOutbox i (rowRetry n (pgTime ts) err) t else Inl outOfRange)"

definition pgMarkDead :: "int64 \<Rightarrow> int \<Rightarrow> string \<Rightarrow> pgDB \<Rightarrow> string option \<times> pgDB" where
  "pgMarkDead i n err = execOutbox ''mark outbox dead: '' (\<lambda>t.
     if in32 n then updateOutbox i (rowDead n err) t else Inl outOfRange)"

definition postgresOutbox :: "pgDB outboxRepository" where
  "postgresOutbox = \<lparr>or_FetchPending = pgFetchPending, or_MarkPublished = pgMarkPublished,
     or_MarkRetry = pgMarkRetry, or_MarkDead = pgMarkDead\<rparr>"

section \<open>Dead letters and the projection\<close>

definition putDLQ :: "(int64, dlqEntry) gomap \<Rightarrow> pgTables \<Rightarrow> pgTables" where
  "putDLQ rows t = t\<lparr>t_dlq := rows\<rparr>"

definition dlqRow :: "(string \<Rightarrow> string option) \<Rightarrow> dlqEntry \<Rightarrow> int64 \<Rightarrow> dlqEntry" where
  "dlqRow jsonb e i = e\<lparr>dlq_Payload := (case jsonb (dlq_Payload e) of None \<Rightarrow> '''' | Some p \<Rightarrow> p),
     dlq_CreatedAt := pgTime (dlq_CreatedAt e)\<rparr>"

definition dlqCheck :: "(string \<Rightarrow> string option) \<Rightarrow> dlqEntry \<Rightarrow> pgTables \<Rightarrow> dlqEntry \<Rightarrow> pgError option" where
  "dlqCheck jsonb e t row =
     (if jsonb (dlq_Payload e) = None then Some (PgOther ''ERROR: invalid input syntax for type json'')
      else if \<not> in32 (dlq_Attempts e) then Some outOfRange else None)"

definition pgInsertDLQ :: "(string \<Rightarrow> string option) \<Rightarrow> pgDB dlqRepository" where
  "pgInsertDLQ jsonb e s =
     (case runStmt (insertStmt ''event_consumer_dlq'' t_dlq putDLQ (dlqCheck jsonb e) (dlqRow jsonb e)) s of
        (Inl err, s1) \<Rightarrow> (Some (''insert consumer dlq: '' @ pgText err), s1)
      | (Inr _, s1) \<Rightarrow> (None, s1))"

definition upsertProjection :: "orderCreatedEvent \<Rightarrow> time \<Rightarrow> pgTables \<Rightarrow> pgError + unit \<times> pgTables" where
  "upsertProjection e ts t = Inr ((), t\<lparr>t_projection := mput (oc_OrderID e)
     \<lparr>jrow_LastEventType = ''order.created'', jrow_PaymentStatus = oc_PaymentStatus e,
      jrow_TotalCents = oc_TotalCents e, jrow_UpdatedAt = pgTime ts\<rparr> (t_projection t)\<rparr>)"

definition pgUpsertOrderProjection :: "pgDB projectionRepository" where
  "pgUpsertOrderProjection e ts s =
     (if oc_OrderID e \<le> 0 then (Some ''invalid order id'', s)
      else (case runStmt (execStmt (upsertProjection e ts)) s of
          (Inl err, s1) \<Rightarrow> (Some (''upsert projection: '' @ pgText err), s1)
        | (Inr _, s1) \<Rightarrow> (None, s1)))"

section \<open>The outbox contract\<close>

definition pgOutboxInv :: "pgDB \<Rightarrow> bool" where
  [inv_defs]: "pgOutboxInv s \<longleftrightarrow> tableOK (t_outbox (pg_tables s)) (seqVal (pg_seqs s) ''outbox_events'') \<and>
     (\<forall>i row. map_of (t_outbox (pg_tables s)) i = Some row \<longrightarrow> oe_ID (ob_event row) = i)"

lemma pendingEvents_sorted:
  assumes "pgOutboxInv s"
  shows "sorted_wrt (\<lambda>a b. oe_ID a < oe_ID b) (pendingEvents bound now (pg_tables s))"
    and "ev \<in> set (pendingEvents bound now (pg_tables s)) \<Longrightarrow>
       \<exists>row. map_of (t_outbox (pg_tables s)) (oe_ID ev) = Some row \<and> ob_event row = ev \<and> dueRow now row"
proof -
  let ?rows = "t_outbox (pg_tables s)"
  have d: "distinct (mkeys ?rows)" using assms by (simp add: pgOutboxInv_def tableOK_def)
  have id: "oe_ID (ob_event (snd x)) = fst x \<and> map_of ?rows (fst x) = Some (snd x)" if "x \<in> set ?rows" for x
    using assms that d by (cases x) (auto simp: pgOutboxInv_def)
  have "sorted_wrt (\<lambda>a b. oe_ID (ob_event (snd a)) < oe_ID (ob_event (snd b))) (orderByID ?rows)"
    using sorted_wrt_mono_rel [OF _ orderByID_sorted [OF d], of "\<lambda>a b. oe_ID (ob_event (snd a)) < oe_ID (ob_event (snd b))"] id
    by simp
  then have "sorted_wrt (\<lambda>a b. oe_ID a < oe_ID b) (map ob_event (filter (dueRow now) (mvals (orderByID ?rows))))"
    by (simp add: sorted_wrt_map filter_map sorted_wrt_filter)
  then show "sorted_wrt (\<lambda>a b. oe_ID a < oe_ID b) (pendingEvents bound now (pg_tables s))"
    unfolding pendingEvents_def by (rule sorted_wrt_take)
  assume "ev \<in> set (pendingEvents bound now (pg_tables s))"
  then obtain x where "x \<in> set ?rows" "dueRow now (snd x)" "ev = ob_event (snd x)"
    unfolding pendingEvents_def by (auto dest!: in_set_takeD)
  with id [of x] show "\<exists>row. map_of ?rows (oe_ID ev) = Some row \<and> ob_event row = ev \<and> dueRow now row" by auto
qed

lemma execOutbox_updates:
  assumes inv: "pgOutboxInv s" and run: "execOutbox what F s = (e, s')"
    and F: "F (pg_tables s) = updateOutbox i f (pg_tables s) \<or> F (pg_tables s) = Inl outOfRange"
    and id: "\<And>row. oe_ID (ob_event (f row)) = oe_ID (ob_event row)"
  shows "pgOutboxInv s' \<and> map_of (t_outbox (pg_tables s'))
     = (if e = None then updRow (map_of (t_outbox (pg_tables s))) i f else map_of (t_outbox (pg_tables s)))"
proof (cases e)
  case (Some msg)
  then obtain err where "runStmt (execStmt F) s = (Inl err, s')"
    using run by (auto simp: execOutbox_def split: prod.splits sum.splits)
  from exec_err [OF this] inv Some show ?thesis by (simp add: pgOutboxInv_def)
next
  case None
  then have x: "runStmt (execStmt F) s = (Inr (), s')"
    using run by (auto simp: execOutbox_def split: prod.splits sum.splits)
  then have u: "updateOutbox i f (pg_tables s) = Inr ((), pg_tables s')"
    using exec_Inr [OF x] F by auto
  have q: "pg_seqs s' = pg_seqs s" using exec_keeps_seqs [OF x] .
  show ?thesis
  proof (cases "map_of (t_outbox (pg_tables s)) i")
    case None
    with u inv q \<open>e = None\<close> show ?thesis by (auto simp: updateOutbox_def updRow_def pgOutboxInv_def)
  next
    case (Some row)
    then have "pg_tables s' = putOutboxRows (mput i (f row) (t_outbox (pg_tables s))) (pg_tables s)"
      using u by (cases "in32 (oe_Attempts (ob_event (f row)))") (simp_all add: updateOutbox_def)
    then have t: "t_outbox (pg_tables s') = mput i (f row) (t_outbox (pg_tables s))"
      by (simp add: putOutboxRows_def)
    with inv Some id q have "pgOutboxInv s'" by (auto simp: pgOutboxInv_def tableOK_update)
    with t Some \<open>e = None\<close> show ?thesis by (auto simp: updRow_def fun_eq_iff)
  qed
qed

interpretation pgOutbox: outbox_repo postgresOutbox "\<lambda>s. map_of (t_outbox (pg_tables s))" pgOutboxInv pgTime
proof (unfold_locales, goal_cases)
  case (1 r bound now res r')
  let ?q = "\<lambda>t. if bound < 0 then Inl (PgOther ''ERROR: LIMIT must not be negative'') else Inr (pendingEvents bound now t)"
  obtain x s1 where q: "runStmt (selectStmt ?q) r = (x, s1)" by fastforce
  have same: "pg_tables r' = pg_tables r" "pg_seqs r' = pg_seqs r"
    using 1(2) q select_full [OF q] takeFault_keeps_eq [of s1]
    by (auto simp: postgresOutbox_def pgFetchPending_def split: sum.splits prod.splits option.splits)
  have "evs = pendingEvents bound now (pg_tables r)" if "res = Inr evs" for evs
    using 1(2) q select_full [OF q] that
    by (auto simp: postgresOutbox_def pgFetchPending_def split: sum.splits prod.splits option.splits if_splits)
  moreover have "\<exists>row. map_of (t_outbox (pg_tables r)) (oe_ID ev) = Some row \<and> ob_event row = ev \<and> ob_status row = ''pending''"
    if "ev \<in> set (pendingEvents bound now (pg_tables r))" for ev
    using pendingEvents_sorted(2) [OF 1(1) that] by (auto simp: dueRow_def)
  moreover have "0 \<le> bound \<longrightarrow> int (length (pendingEvents bound now (pg_tables r))) \<le> bound"
    by (auto simp: pendingEvents_def of_nat_min)
  moreover have "pgOutboxInv r'" using same 1(1) by (simp add: pgOutboxInv_def)
  ultimately show ?case
    unfolding same using pendingEvents_sorted(1) [OF 1(1), of bound now] by blast
next
  case (2 r i ts e r')
  then show ?case
    by (intro execOutbox_updates) (auto simp: postgresOutbox_def pgMarkPublished_def rowPublished_def)
next
  case (3 r i n ts err e r')
  then show ?case
    by (intro execOutbox_updates) (auto simp: postgresOutbox_def pgMarkRetry_def rowRetry_def)
next
  case (4 r i n err e r')
  then show ?case
    by (intro execOutbox_updates) (auto simp: postgresOutbox_def pgMarkDead_def rowDead_def)
qed

section \<open>What the publisher guarantees on PostgreSQL\<close>

text \<open>
  C7: no outbox event is lost. Let the publisher run for any number of rounds over PostgreSQL, with
  any database faults, and with any broker whose log only grows and holds what it accepted. If
  every row was good before (pending with attempts left, or published and in the broker's log, or
  dead after the last attempt), every row is good afterwards; no row appears, disappears or changes
  the message it carries.
\<close>

theorem outbox_never_loses:
  assumes "pgOutboxInv s" and "logsAccepted publish logOf"
    and "\<And>i row. map_of (t_outbox (pg_tables s)) i = Some row \<Longrightarrow> rowGood cfg (set (logOf b)) i row"
    and "publisherRun cfg postgresOutbox publish rounds (s, b) = (out, s', b')"
    and "map_of (t_outbox (pg_tables s')) i = Some row'"
  shows "rowGood cfg (set (logOf b')) i row' \<and>
     (\<exists>row. map_of (t_outbox (pg_tables s)) i = Some row \<and> messageOf (ob_event row') = messageOf (ob_event row))
     \<and> dom (map_of (t_outbox (pg_tables s'))) = dom (map_of (t_outbox (pg_tables s)))"
proof -
  have "pgOutbox.outboxGood cfg (set (logOf b)) s" using assms(1,3) by (simp add: pgOutbox.outboxGood_def)
  from pgOutbox.run_keeps [OF this assms(2,4)] assms(5)
  have good: "rowGood cfg (set (logOf b')) i row'"
    and same: "sameRows (map_of (t_outbox (pg_tables s))) (map_of (t_outbox (pg_tables s')))"
    by (auto simp: pgOutbox.outboxGood_def)
  from same assms(5) have "\<exists>row. map_of (t_outbox (pg_tables s)) i = Some row \<and>
      messageOf (ob_event row') = messageOf (ob_event row)"
    unfolding sameRows_def by (metis option.exhaust option.distinct(1))
  moreover have "dom (map_of (t_outbox (pg_tables s'))) = dom (map_of (t_outbox (pg_tables s)))"
    using same unfolding sameRows_def dom_def by auto
  ultimately show ?thesis using good by blast
qed

lemma markPublished_nofault:
  assumes "pg_faults s = []" and "map_of (t_outbox (pg_tables s)) i = Some row"
    and "in32 (oe_Attempts (ob_event row) + 1)"
  shows "\<exists>s'. pgMarkPublished i ts s = (None, s') \<and> pg_faults s' = [] \<and>
     t_outbox (pg_tables s') = mput i (rowPublished (pgTime ts) row) (t_outbox (pg_tables s)) \<and> pg_seqs s' = pg_seqs s \<and>
     t_projection (pg_tables s') = t_projection (pg_tables s)"
  using assms by (simp add: pgMarkPublished_def execOutbox_def runStmt_nofault execStmt_def updateOutbox_def
      rowPublished_def putOutboxRows_def)

text \<open>The broker after it was handed some events, one after the other.\<close>

definition handedOver :: "'b brokerPublisher \<Rightarrow> string \<Rightarrow> outboxEvent list \<Rightarrow> 'b \<Rightarrow> 'b" where
  "handedOver publish topic evs b = fold (\<lambda>ev b. snd (publish topic (messageOf ev) b)) evs b"

lemma publishLoop_all:
  assumes "\<And>topic m b. fst (publish topic m b) = None" and "pg_faults s = []"
    and "distinct (map oe_ID evs)"
    and "\<And>ev. ev \<in> set evs \<Longrightarrow> \<exists>row. map_of (t_outbox (pg_tables s)) (oe_ID ev) = Some row \<and>
       ob_event row = ev \<and> in32 (oe_Attempts (ob_event row) + 1)"
  shows "\<exists>s' b'. publishLoop cfg postgresOutbox publish nowOf n evs (s, b) = ((n + length evs, None), s', b') \<and>
     (\<forall>i. i \<notin> oe_ID ` set evs \<longrightarrow> map_of (t_outbox (pg_tables s')) i = map_of (t_outbox (pg_tables s)) i) \<and>
     (\<forall>ev \<in> set evs. \<exists>row'. map_of (t_outbox (pg_tables s')) (oe_ID ev) = Some row' \<and> ob_status row' = ''published'' \<and>
       messageOf (ob_event row') = messageOf ev) \<and>
     b' = handedOver publish (pc_Topic cfg) evs b \<and> pg_faults s' = [] \<and>
     t_projection (pg_tables s') = t_projection (pg_tables s)"
  using assms(2-4)
proof (induction evs arbitrary: n s b)
  case (Cons ev evs)
  obtain row where row: "map_of (t_outbox (pg_tables s)) (oe_ID ev) = Some row" "in32 (oe_Attempts (ob_event row) + 1)"
    "ob_event row = ev"
    using Cons.prems(3) [of ev] by auto
  obtain b1 where b1: "publish (pc_Topic cfg) (messageOf ev) b = (None, b1)"
    using assms(1) by (metis prod.collapse)
  obtain s1 where s1: "pgMarkPublished (oe_ID ev) (nowOf n) s = (None, s1)" "pg_faults s1 = []"
      "t_outbox (pg_tables s1) = mput (oe_ID ev) (rowPublished (pgTime (nowOf n)) row) (t_outbox (pg_tables s))"
      "t_projection (pg_tables s1) = t_projection (pg_tables s)"
    using markPublished_nofault [OF Cons.prems(1) row(1,2)] by blast
  have one: "publishOne cfg postgresOutbox publish (nowOf n) ev (s, b) = (None, s1, b1)"
    using b1 s1(1) by (simp add: publishOne_def postgresOutbox_def)
  have later: "map_of (t_outbox (pg_tables s1)) (oe_ID x) = map_of (t_outbox (pg_tables s)) (oe_ID x)" if "x \<in> set evs" for x
    using Cons.prems(2) that s1(3) by (auto simp: image_iff)
  obtain s' b' where IH: "publishLoop cfg postgresOutbox publish nowOf (n + 1) evs (s1, b1) = ((n + 1 + length evs, None), s', b')"
    "\<And>i. i \<notin> oe_ID ` set evs \<Longrightarrow> map_of (t_outbox (pg_tables s')) i = map_of (t_outbox (pg_tables s1)) i"
    "\<And>x. x \<in> set evs \<Longrightarrow> \<exists>row'. map_of (t_outbox (pg_tables s')) (oe_ID x) = Some row' \<and> ob_status row' = ''published'' \<and>
       messageOf (ob_event row') = messageOf x"
    "b' = handedOver publish (pc_Topic cfg) evs b1" "pg_faults s' = []" "t_projection (pg_tables s') = t_projection (pg_tables s1)"
    using Cons.IH [of s1 "n + 1" b1] s1(2) Cons.prems(2,3) later by fastforce
  have "map_of (t_outbox (pg_tables s')) (oe_ID ev) = Some (rowPublished (pgTime (nowOf n)) row)"
    using IH(2) [of "oe_ID ev"] s1(3) Cons.prems(2) by simp
  moreover have "handedOver publish (pc_Topic cfg) (ev # evs) b = b'" using IH(4) b1 by (simp add: handedOver_def)
  ultimately show ?case using IH(2,3,5,6) one IH(1) s1(3,4) row(3) by (auto simp: rowPublished_def)
qed (simp add: handedOver_def)

text \<open>A round on a database without faults, with a broker that accepts.\<close>

lemma publisherRunOnce_all:
  assumes "pgOutboxInv s" and "pg_faults s = []" and "0 \<le> pc_BatchSize cfg"
    and "\<forall>topic m b. fst (publish topic m b) = None"
    and "\<forall>i row. map_of (t_outbox (pg_tables s)) i = Some row \<longrightarrow> in32 (oe_Attempts (ob_event row) + 1)"
    and due: "evs = pendingEvents (pc_BatchSize cfg) now (pg_tables s)"
  shows "\<exists>s' b'. publisherRunOnce cfg postgresOutbox publish now nowOf (s, b) = ((length evs, None), s', b') \<and>
     (\<forall>i. i \<notin> oe_ID ` set evs \<longrightarrow> map_of (t_outbox (pg_tables s')) i = map_of (t_outbox (pg_tables s)) i) \<and>
     (\<forall>ev \<in> set evs. \<exists>row'. map_of (t_outbox (pg_tables s')) (oe_ID ev) = Some row' \<and> ob_status row' = ''published'' \<and>
       messageOf (ob_event row') = messageOf ev) \<and>
     b' = handedOver publish (pc_Topic cfg) evs b \<and> pg_faults s' = [] \<and>
     t_projection (pg_tables s') = t_projection (pg_tables s)"
proof -
  have f: "pgFetchPending (pc_BatchSize cfg) now s = (Inr evs, s)"
    using assms(2,3) due by (simp add: pgFetchPending_def runStmt_nofault selectStmt_def takeFault_none)
  have d: "distinct (map oe_ID evs)"
    using pendingEvents_sorted(1) [OF assms(1), of "pc_BatchSize cfg" now]
    by (simp add: due strict_sorted_iff flip: sorted_wrt_map)
  have rows: "\<exists>row. map_of (t_outbox (pg_tables s)) (oe_ID ev) = Some row \<and> ob_event row = ev \<and> in32 (oe_Attempts (ob_event row) + 1)"
    if "ev \<in> set evs" for ev
    using pendingEvents_sorted(2) [OF assms(1)] assms(5) that unfolding due by blast
  from publishLoop_all [where publish = publish and cfg = cfg and nowOf = nowOf and n = 0 and b = b, OF assms(4) [rule_format] assms(2) d rows] f
  show ?thesis by (simp add: publisherRunOnce_def postgresOutbox_def)
qed

text \<open>
  What is due gets published. On a database without faults and with a broker that accepts, one
  round of the publisher processes every event of the batch, reports their number and no error,
  and leaves their rows published; no other row changes.
\<close>

theorem outbox_round_publishes:
  assumes "pgOutboxInv s" and "pg_faults s = []" and "0 \<le> pc_BatchSize cfg"
    and "\<And>topic m b. fst (publish topic m b) = None"
    and "\<And>i row. map_of (t_outbox (pg_tables s)) i = Some row \<Longrightarrow> in32 (oe_Attempts (ob_event row) + 1)"
  shows "\<exists>s' b'. publisherRunOnce cfg postgresOutbox publish now nowOf (s, b)
       = ((length (pendingEvents (pc_BatchSize cfg) now (pg_tables s)), None), s', b')
     \<and> (\<forall>ev \<in> set (pendingEvents (pc_BatchSize cfg) now (pg_tables s)).
          \<exists>row'. map_of (t_outbox (pg_tables s')) (oe_ID ev) = Some row' \<and> ob_status row' = ''published'')
     \<and> (\<forall>i. i \<notin> oe_ID ` set (pendingEvents (pc_BatchSize cfg) now (pg_tables s)) \<longrightarrow>
          map_of (t_outbox (pg_tables s')) i = map_of (t_outbox (pg_tables s)) i)"
  using publisherRunOnce_all [where publish = publish and now = now and nowOf = nowOf and b = b, OF assms(1-3) _ _ refl]
    assms(4,5) by blast

section \<open>The consumer's tables\<close>

text \<open>
  A message whose payload is not JSON cannot be put into the dead-letter table, whose payload column
  is \<open>jsonb\<close>: the insert fails on every attempt and nothing is recorded.
\<close>

lemma poison_not_dead_lettered:
  assumes "jsonb (dlq_Payload e) = None"
  shows "fst (pgInsertDLQ jsonb e s) \<noteq> None \<and> pg_tables (snd (pgInsertDLQ jsonb e s)) = pg_tables s"
proof -
  obtain r s1 where r: "runStmt (insertStmt ''event_consumer_dlq'' t_dlq putDLQ (dlqCheck jsonb e) (dlqRow jsonb e)) s = (r, s1)"
    by fastforce
  show ?thesis
  proof (cases r)
    case (Inl err)
    with r insert_err [OF r [unfolded Inl]] show ?thesis by (simp add: pgInsertDLQ_def)
  next
    case (Inr row)
    from insert_Inr(3) [OF r [unfolded Inr]] assms show ?thesis by (simp add: dlqCheck_def)
  qed
qed

text \<open>
  C24: the projection follows the events. Handling an \<open>order.created\<close> event for a positive order id
  either fails and changes nothing, or sets the projection of that order to the payment status and
  total of the event and leaves every other projection; so handling it again (an at-least-once
  delivery) leads to the same projection up to the time of the update.
\<close>

theorem projection_exact:
  assumes "unmarshal payload = Inr ev" and "0 < oc_OrderID ev"
    and "projectionHandle unmarshal pgUpsertOrderProjection now payload s = (e, s')"
  shows "(if e = None then map_of (t_projection (pg_tables s')) = (map_of (t_projection (pg_tables s)))(oc_OrderID ev \<mapsto>
          \<lparr>jrow_LastEventType = ''order.created'', jrow_PaymentStatus = oc_PaymentStatus ev,
           jrow_TotalCents = oc_TotalCents ev, jrow_UpdatedAt = pgTime now\<rparr>)
        else pg_tables s' = pg_tables s)
     \<and> t_outbox (pg_tables s') = t_outbox (pg_tables s) \<and> t_orders (pg_tables s') = t_orders (pg_tables s)
     \<and> (e \<noteq> None \<longrightarrow> pg_faults s \<noteq> [])"
proof -
  obtain r s1 where r: "runStmt (execStmt (upsertProjection ev now)) s = (r, s1)" by fastforce
  have run: "e = (case r of Inl err \<Rightarrow> Some (''upsert projection: '' @ pgText err) | Inr _ \<Rightarrow> None)" "s' = s1"
    using assms r by (auto simp: projectionHandle_def pgUpsertOrderProjection_def split: sum.splits)
  show ?thesis
  proof (cases r)
    case (Inl err)
    have "pg_faults s \<noteq> []" using r Inl by (auto simp: runStmt_nofault execStmt_def upsertProjection_def)
    with run Inl exec_err [OF r [unfolded Inl]] show ?thesis by simp
  next
    case (Inr u)
    with run exec_ok [OF r [unfolded Inr]] show ?thesis by (auto simp: upsertProjection_def fun_eq_iff)
  qed
qed

section \<open>Witnesses\<close>

definition demoOutboxRow :: outboxRow where
  "demoOutboxRow = \<lparr>ob_event = \<lparr>oe_ID = 1, oe_EventType = ''order.created'', oe_AggregateType = ''order'', oe_AggregateID = 7,
     oe_Payload = ''{}'', oe_TraceID = ''t'', oe_CorrelationID = ''k'', oe_Attempts = 0\<rparr>,
     ob_status = ''pending'', ob_nextAttemptAt = 0, ob_lastError = '''', ob_publishedAt = None\<rparr>"

definition demoOutboxDB :: pgDB where
  "demoOutboxDB = \<lparr>pg_tables = emptyTables\<lparr>t_outbox := [(1, demoOutboxRow)]\<rparr>, pg_seqs = [(''outbox_events'', 1)], pg_faults = []\<rparr>"

definition demoLogPublish :: "brokerMessage list brokerPublisher" where
  "demoLogPublish topic m b = (None, b @ [m])"

lemma demoOutbox_laws:
  "pgOutboxInv demoOutboxDB" "logsAccepted demoLogPublish (\<lambda>b. b)"
  "map_of (t_outbox (pg_tables demoOutboxDB)) i = Some row \<longleftrightarrow> i = 1 \<and> row = demoOutboxRow"
  by (auto simp: pgOutboxInv_def demoOutboxDB_def emptyTables_def demoOutboxRow_def tableOK_def seqVal_def maxInt64_def
      logsAccepted_def demoLogPublish_def split: if_splits)

definition demoPublished :: "pgDB \<times> brokerMessage list" where
  "demoPublished = snd (publisherRun demoPub postgresOutbox demoLogPublish [(0, \<lambda>n. 5000, True)] (demoOutboxDB, []))"

theorem outbox_never_loses_witness:
  "\<exists>row'. map_of (t_outbox (pg_tables (fst demoPublished))) 1 = Some row' \<and> ob_status row' = ''published''
     \<and> rowGood demoPub (set (snd demoPublished)) 1 row' \<and> messageOf (ob_event row') = messageOf (ob_event demoOutboxRow)"
proof -
  have "map_option ob_status (map_of (t_outbox (pg_tables (fst demoPublished))) 1) = Some ''published''" by code_simp
  then obtain row' where row': "map_of (t_outbox (pg_tables (fst demoPublished))) 1 = Some row'" "ob_status row' = ''published''"
    by auto
  obtain out where run: "publisherRun demoPub postgresOutbox demoLogPublish [(0, \<lambda>n. 5000, True)] (demoOutboxDB, [])
      = (out, fst demoPublished, snd demoPublished)"
    unfolding demoPublished_def by (metis prod.collapse)
  have "rowGood demoPub (set []) i row" if "map_of (t_outbox (pg_tables demoOutboxDB)) i = Some row" for i row
    using that unfolding demoOutbox_laws(3)
    by (simp add: rowGood_def demoOutboxRow_def demoPub_def newPublisher_def Let_def)
  from outbox_never_loses [OF demoOutbox_laws(1,2) this run row'(1)] row' show ?thesis by (auto simp: demoOutbox_laws(3))
qed

theorem outbox_round_publishes_witness:
  "\<exists>s' b' row'. publisherRunOnce demoPub postgresOutbox demoLogPublish 0 (\<lambda>n. 0) (demoOutboxDB, []) = ((1, None), s', b')
     \<and> map_of (t_outbox (pg_tables s')) 1 = Some row' \<and> ob_status row' = ''published''"
proof -
  have p: "pendingEvents (pc_BatchSize demoPub) 0 (pg_tables demoOutboxDB) = [ob_event demoOutboxRow]" by code_simp
  have "in32 (oe_Attempts (ob_event row) + 1)" if "map_of (t_outbox (pg_tables demoOutboxDB)) i = Some row" for i row
    using that unfolding demoOutbox_laws(3) by (simp add: demoOutboxRow_def in32_def)
  moreover have "pg_faults demoOutboxDB = []" "0 \<le> pc_BatchSize demoPub" "oe_ID (ob_event demoOutboxRow) = 1"
    by (simp_all add: demoOutboxDB_def demoPub_def newPublisher_def Let_def demoOutboxRow_def)
  ultimately show ?thesis
    using outbox_round_publishes [of demoOutboxDB demoPub demoLogPublish 0 "\<lambda>n. 0" "[]"] demoOutbox_laws(1) p
    by (auto simp: demoLogPublish_def)
qed

theorem projection_exact_witness:
  "map_of (t_projection (pg_tables (snd (projectionHandle (\<lambda>p. Inr \<lparr>oc_OrderID = 7, oc_UserID = 1, oc_Status = ''paid'',
      oc_TotalCents = 10, oc_PaymentStatus = ''paid'', oc_CorrelationID = ''k'', oc_OccurredAt = ''''\<rparr>)
      pgUpsertOrderProjection 1500 ''{}'' (freshDB []))))) 7
   = Some \<lparr>jrow_LastEventType = ''order.created'', jrow_PaymentStatus = ''paid'', jrow_TotalCents = 10, jrow_UpdatedAt = 1000\<rparr>"
proof -
  let ?ev = "\<lparr>oc_OrderID = 7, oc_UserID = 1, oc_Status = ''paid'', oc_TotalCents = 10, oc_PaymentStatus = ''paid'',
      oc_CorrelationID = ''k'', oc_OccurredAt = ''''\<rparr>"
  obtain e s' where run: "projectionHandle (\<lambda>p. Inr ?ev) pgUpsertOrderProjection 1500 ''{}'' (freshDB []) = (e, s')" by fastforce
  from projection_exact [OF refl _ this] have "e = None" by (simp add: freshDB_def)
  with projection_exact [OF refl _ run] run show ?thesis by (simp add: pgTime_def)
qed

end
