(* ===== verification/RedisBroker.thy ===== *)
theory RedisBroker
  imports EventPipe
begin

text \<open>
  \<open>internal/eventpipe/redis.go\<close>: the event broker on Redis streams. The Redis client is a parameter,
  a record of the four commands the broker uses over its own state. \<open>streamLaws\<close> states what is
  documented of streams: \<open>XADD\<close> appends an entry, and \<open>XREADGROUP\<close> with the id \<open>>\<close> delivers to the
  group, in order, the next entries that were never delivered to it, at most \<open>COUNT\<close>.
\<close>

text \<open>A Go \<open>any\<close> as the client returns it: a string, or another value with its \<open>%v\<close> rendering.\<close>

datatype anyVal = AnyString string | AnyOther string

type_synonym fieldMap = "(string, anyVal) gomap"
type_synonym streamEntry = "string \<times> fieldMap"

datatype redisError = RedisNil | RedisErr string

record 'c redisClient =
  rc_XGroupCreateMkStream :: "string \<Rightarrow> string \<Rightarrow> string \<Rightarrow> 'c \<Rightarrow> string option \<times> 'c"
  rc_XAdd :: "string \<Rightarrow> fieldMap \<Rightarrow> 'c \<Rightarrow> (string + string) \<times> 'c"
  rc_XReadGroup :: "string \<Rightarrow> string \<Rightarrow> string list \<Rightarrow> int64 \<Rightarrow> duration \<Rightarrow> 'c
     \<Rightarrow> (redisError + (string \<times> streamEntry list) list) \<times> 'c"
  rc_XAck :: "string \<Rightarrow> string \<Rightarrow> string list \<Rightarrow> 'c \<Rightarrow> string option \<times> 'c"

text \<open>\<open>strings.Contains\<close>\<close>

fun containsSub :: "string \<Rightarrow> string \<Rightarrow> bool" where
  "containsSub sub [] \<longleftrightarrow> sub = []"
| "containsSub sub (c # cs) \<longleftrightarrow> prefix sub (c # cs) \<or> containsSub sub cs"

text \<open>A missing key of the map is the nil interface, which \<open>%v\<close> prints as \<open><nil>\<close>.\<close>

definition asString :: "anyVal option \<Rightarrow> string" where
  "asString v = (case v of Some (AnyString s) \<Rightarrow> s | Some (AnyOther s) \<Rightarrow> s | None \<Rightarrow> ''<nil>'')"

definition EnsureConsumerGroup :: "'c redisClient \<Rightarrow> string \<Rightarrow> string \<Rightarrow> 'c \<Rightarrow> string option \<times> 'c" where
  "EnsureConsumerGroup client stream grp c = (case rc_XGroupCreateMkStream client stream grp ''0'' c of
       (Some e, c1) \<Rightarrow> if containsSub ''BUSYGROUP'' e then (None, c1) else (Some e, c1)
     | (None, c1) \<Rightarrow> (None, c1))"

definition redisPublish :: "'c redisClient \<Rightarrow> 'c brokerPublisher" where
  "redisPublish client topic m c =
     (case rc_XAdd client topic [(''payload'', AnyString (bm_Payload m)), (''trace_id'', AnyString (bm_TraceID m)),
             (''correlation_id'', AnyString (bm_CorrelationID m)), (''key'', AnyString (bm_Key m))] c of
        (Inl e, c1) \<Rightarrow> (Some (''redis xadd: '' @ e), c1)
      | (Inr _, c1) \<Rightarrow> (None, c1))"

definition consumedMessage :: "streamEntry \<Rightarrow> brokerConsumedMessage" where
  "consumedMessage en = \<lparr>cm_ID = fst en, cm_Payload = asString (map_of (snd en) ''payload''),
     cm_TraceID = asString (map_of (snd en) ''trace_id''),
     cm_CorrelationID = asString (map_of (snd en) ''correlation_id'')\<rparr>"

definition redisRead ::
  "'c redisClient \<Rightarrow> string \<Rightarrow> string \<Rightarrow> string \<Rightarrow> int \<Rightarrow> duration \<Rightarrow> 'c \<Rightarrow> (string + brokerConsumedMessage list) \<times> 'c" where
  "redisRead client stream grp consumer n block c = (case rc_XReadGroup client grp consumer [stream, ''>''] n block c of
       (Inl RedisNil, c1) \<Rightarrow> (Inr [], c1)
     | (Inl (RedisErr e), c1) \<Rightarrow> (Inl (''redis xreadgroup: '' @ e), c1)
     | (Inr res, c1) \<Rightarrow> (Inr (map consumedMessage (concat (map snd res))), c1))"

definition redisAck :: "'c redisClient \<Rightarrow> string \<Rightarrow> string \<Rightarrow> string list \<Rightarrow> 'c \<Rightarrow> string option \<times> 'c" where
  "redisAck client stream grp is c =
     (if length is = 0 then (None, c)
      else (case rc_XAck client stream grp is c of
          (Some e, c1) \<Rightarrow> (Some (''redis xack: '' @ e), c1) | (None, c1) \<Rightarrow> (None, c1)))"

definition redisConsumer :: "'c redisClient \<Rightarrow> 'c brokerConsumer" where
  "redisConsumer client = \<lparr>bc_Read = redisRead client, bc_Ack = redisAck client\<rparr>"

section \<open>Documented behaviour of streams\<close>

text \<open>
  \<open>entriesOf c s\<close> are the entries of stream \<open>s\<close>, oldest first and with distinct ids,
  \<open>deliveredOf c s g\<close> how many of them were delivered to group \<open>g\<close>. A failed \<open>XADD\<close> may have
  appended its entry, a failed \<open>XREADGROUP\<close> may have delivered entries nobody received, and the
  client returns \<open>redis.Nil\<close> when the group is up to date.
\<close>

definition streamLaws ::
  "'c redisClient \<Rightarrow> ('c \<Rightarrow> string \<Rightarrow> streamEntry list) \<Rightarrow> ('c \<Rightarrow> string \<Rightarrow> string \<Rightarrow> nat) \<Rightarrow> bool" where
  "streamLaws client entriesOf deliveredOf \<longleftrightarrow>
     (\<forall>s flds c res c'. rc_XAdd client s flds c = (res, c') \<longrightarrow> deliveredOf c' = deliveredOf c \<and>
        (case res of Inl e \<Rightarrow> entriesOf c' = entriesOf c \<or>
             (\<exists>i. entriesOf c' = (entriesOf c)(s := entriesOf c s @ [(i, flds)]))
         | Inr i \<Rightarrow> entriesOf c' = (entriesOf c)(s := entriesOf c s @ [(i, flds)]))) \<and>
     (\<forall>g name s n block c res c'. rc_XReadGroup client g name [s, ''>''] n block c = (res, c') \<longrightarrow>
        entriesOf c' = entriesOf c \<and>
        (case res of
           Inl RedisNil \<Rightarrow> deliveredOf c' = deliveredOf c \<and> deliveredOf c s g = length (entriesOf c s)
         | Inl (RedisErr e) \<Rightarrow> deliveredOf c s g \<le> deliveredOf c' s g
         | Inr rs \<Rightarrow> \<exists>k. 0 < k \<and> deliveredOf c s g + k \<le> length (entriesOf c s) \<and>
             (0 < n \<longrightarrow> k = min (nat n) (length (entriesOf c s) - deliveredOf c s g)) \<and>
             rs = [(s, take k (drop (deliveredOf c s g) (entriesOf c s)))] \<and>
             deliveredOf c' = (deliveredOf c)(s := (deliveredOf c s)(g := deliveredOf c s g + k)))) \<and>
     (\<forall>s g is c e c'. rc_XAck client s g is c = (e, c') \<longrightarrow>
        entriesOf c' = entriesOf c \<and> deliveredOf c' = deliveredOf c) \<and>
     (\<forall>c s. distinct (map fst (entriesOf c s))) \<and>
     (\<forall>c s g. deliveredOf c s g \<le> length (entriesOf c s))"

lemma streamLaws_add:
  "streamLaws client entriesOf deliveredOf \<Longrightarrow> rc_XAdd client s flds c = (Inr i, c') \<Longrightarrow>
     deliveredOf c' = deliveredOf c \<and> entriesOf c' = (entriesOf c)(s := entriesOf c s @ [(i, flds)])"
  unfolding streamLaws_def by fastforce

lemma streamLaws_read:
  assumes "streamLaws client entriesOf deliveredOf"
    and "rc_XReadGroup client g name [s, ''>''] n block c = (res, c')"
  shows "entriesOf c' = entriesOf c \<and>
     (case res of
        Inl RedisNil \<Rightarrow> deliveredOf c' = deliveredOf c \<and> deliveredOf c s g = length (entriesOf c s)
      | Inl (RedisErr e) \<Rightarrow> deliveredOf c s g \<le> deliveredOf c' s g
      | Inr rs \<Rightarrow> \<exists>k. 0 < k \<and> deliveredOf c s g + k \<le> length (entriesOf c s) \<and>
          (0 < n \<longrightarrow> k = min (nat n) (length (entriesOf c s) - deliveredOf c s g)) \<and>
          rs = [(s, take k (drop (deliveredOf c s g) (entriesOf c s)))] \<and>
          deliveredOf c' = (deliveredOf c)(s := (deliveredOf c s)(g := deliveredOf c s g + k)))"
  using assms unfolding streamLaws_def by blast

lemma streamLaws_ack:
  "streamLaws client entriesOf deliveredOf \<Longrightarrow> rc_XAck client s g is c = (e, c') \<Longrightarrow>
     entriesOf c' = entriesOf c \<and> deliveredOf c' = deliveredOf c"
  unfolding streamLaws_def by blast

lemma streamLaws_distinct:
  "streamLaws client entriesOf deliveredOf \<Longrightarrow> distinct (map fst (entriesOf c s))"
  unfolding streamLaws_def by blast

lemma streamLaws_delivered:
  "streamLaws client entriesOf deliveredOf \<Longrightarrow> deliveredOf c s g \<le> length (entriesOf c s)"
  unfolding streamLaws_def by blast

lemma asString_simps [simp]: "asString (Some (AnyString s)) = s" "asString None = ''<nil>''"
  by (simp_all add: asString_def)

lemma cm_ID_consumedMessage [simp]: "cm_ID (consumedMessage en) = fst en"
  by (simp add: consumedMessage_def)

text \<open>What the broker makes of a published message, up to the id the stream gives it.\<close>

definition carries :: "brokerMessage \<Rightarrow> brokerConsumedMessage \<Rightarrow> bool" where
  "carries m cm \<longleftrightarrow> cm_Payload cm = bm_Payload m \<and> cm_TraceID cm = bm_TraceID m \<and>
     cm_CorrelationID cm = bm_CorrelationID m"

lemma redisPublish_ok:
  assumes "streamLaws client entriesOf deliveredOf" and "redisPublish client topic m c = (None, c')"
  shows "deliveredOf c' = deliveredOf c \<and>
     (\<exists>en. entriesOf c' = (entriesOf c)(topic := entriesOf c topic @ [en]) \<and> carries m (consumedMessage en))"
proof -
  let ?kv = "[(''payload'', AnyString (bm_Payload m)), (''trace_id'', AnyString (bm_TraceID m)),
      (''correlation_id'', AnyString (bm_CorrelationID m)), (''key'', AnyString (bm_Key m))]"
  obtain i where "rc_XAdd client topic ?kv c = (Inr i, c')"
    using assms(2) by (auto simp: redisPublish_def split: prod.splits sum.splits)
  from streamLaws_add [OF assms(1) this] show ?thesis
    by (intro conjI exI [of _ "(i, ?kv)"]) (simp_all add: consumedMessage_def carries_def)
qed

text \<open>A successful read returns the next undelivered entries and moves the group past them.\<close>

lemma redisRead_ok:
  assumes "streamLaws client entriesOf deliveredOf" and "redisRead client s g name n block c = (Inr ms, c')"
  shows "entriesOf c' = entriesOf c \<and> deliveredOf c' s g = deliveredOf c s g + length ms \<and>
     ms = map consumedMessage (take (length ms) (drop (deliveredOf c s g) (entriesOf c s))) \<and>
     deliveredOf c' s g \<le> length (entriesOf c s) \<and>
     (0 < n \<longrightarrow> length ms = min (nat n) (length (entriesOf c s) - deliveredOf c s g))"
proof -
  obtain res where r: "rc_XReadGroup client g name [s, ''>''] n block c = (res, c')"
    using assms(2) by (auto simp: redisRead_def split: prod.splits sum.splits redisError.splits)
  note laws = streamLaws_read [OF assms(1) r]
  show ?thesis
  proof (cases res)
    case (Inl e)
    then have "e = RedisNil" "ms = []" using assms(2) r by (auto simp: redisRead_def split: redisError.splits)
    then show ?thesis using laws Inl by simp
  next
    case (Inr rs)
    with laws obtain k where k: "deliveredOf c s g + k \<le> length (entriesOf c s)"
      "0 < n \<longrightarrow> k = min (nat n) (length (entriesOf c s) - deliveredOf c s g)"
      "rs = [(s, take k (drop (deliveredOf c s g) (entriesOf c s)))]"
      "deliveredOf c' = (deliveredOf c)(s := (deliveredOf c s)(g := deliveredOf c s g + k))" by auto
    have "ms = map consumedMessage (take k (drop (deliveredOf c s g) (entriesOf c s)))"
      using assms(2) r Inr k(3) by (simp add: redisRead_def)
    moreover from this have "length ms = k" using k(1) by simp
    ultimately show ?thesis using laws Inr k by simp
  qed
qed

lemma redisRead_err:
  assumes "streamLaws client entriesOf deliveredOf" and "redisRead client s g name n block c = (Inl e, c')"
  shows "entriesOf c' = entriesOf c \<and> deliveredOf c s g \<le> deliveredOf c' s g"
proof -
  obtain x where "rc_XReadGroup client g name [s, ''>''] n block c = (Inl (RedisErr x), c')"
    using assms(2) by (auto simp: redisRead_def split: prod.splits sum.splits redisError.splits)
  from streamLaws_read [OF assms(1) this] show ?thesis by simp
qed

lemma redisAck_same:
  assumes "streamLaws client entriesOf deliveredOf" and "redisAck client s g is c = (e, c')"
  shows "entriesOf c' = entriesOf c \<and> deliveredOf c' = deliveredOf c"
  using assms(2) streamLaws_ack [OF assms(1), of s g "is" c]
  by (auto simp: redisAck_def split: if_splits prod.splits option.splits)

section \<open>Order of delivery\<close>

text \<open>Several events published one after the other, stopping at the first error.\<close>

fun redisPublishAll :: "'c redisClient \<Rightarrow> string \<Rightarrow> brokerMessage list \<Rightarrow> 'c \<Rightarrow> string option \<times> 'c" where
  "redisPublishAll client topic [] c = (None, c)"
| "redisPublishAll client topic (m # ms) c = (case redisPublish client topic m c of
       (Some e, c1) \<Rightarrow> (Some e, c1)
     | (None, c1) \<Rightarrow> redisPublishAll client topic ms c1)"

lemma redisPublishAll_ok:
  assumes "streamLaws client entriesOf deliveredOf" and "redisPublishAll client topic ms c = (None, c')"
  shows "deliveredOf c' = deliveredOf c \<and>
     (\<exists>ens. entriesOf c' topic = entriesOf c topic @ ens \<and> list_all2 carries ms (map consumedMessage ens))"
  using assms(2)
proof (induction ms arbitrary: c)
  case (Cons m ms)
  obtain c1 where one: "redisPublish client topic m c = (None, c1)" and rest: "redisPublishAll client topic ms c1 = (None, c')"
    using Cons.prems by (auto split: prod.splits option.splits)
  from redisPublish_ok [OF assms(1) one] obtain en
    where en: "deliveredOf c1 = deliveredOf c" "entriesOf c1 topic = entriesOf c topic @ [en]" "carries m (consumedMessage en)"
    by auto
  from Cons.IH [OF rest] obtain ens
    where ens: "deliveredOf c' = deliveredOf c1" "entriesOf c' topic = entriesOf c1 topic @ ens"
      "list_all2 carries ms (map consumedMessage ens)" by blast
  from en ens show ?case by (intro conjI exI [of _ "en # ens"]) simp_all
qed simp

text \<open>
  C8: the event broker round trip. Events published to a stream are read back by an up-to-date
  group in the order they were published, as many of them as the read asks for, each once and with
  the payload, trace id and correlation id it was published with; their ids are new to the stream,
  and the group has moved past exactly the events it was given.
\<close>

theorem redis_broker_fifo:
  assumes "streamLaws client entriesOf deliveredOf" and "redisPublishAll client topic ms c = (None, c1)"
    and "deliveredOf c topic g = length (entriesOf c topic)" and "0 < n"
    and "redisRead client topic g name n block c1 = (Inr out, c2)"
  shows "length out = min (nat n) (length ms) \<and> list_all2 carries (take (length out) ms) out \<and>
     distinct (map cm_ID out) \<and> set (map cm_ID out) \<inter> fst ` set (entriesOf c topic) = {} \<and>
     deliveredOf c2 topic g = length (entriesOf c topic) + length out"
proof -
  from redisPublishAll_ok [OF assms(1,2)] obtain ens
    where ens: "deliveredOf c1 = deliveredOf c" "entriesOf c1 topic = entriesOf c topic @ ens"
      "list_all2 carries ms (map consumedMessage ens)" by blast
  let ?k = "length out"
  note r = redisRead_ok [OF assms(1,5)]
  have d1: "deliveredOf c1 topic g = length (entriesOf c topic)" using ens(1) assms(3) by simp
  then have "drop (deliveredOf c1 topic g) (entriesOf c1 topic) = ens" using ens(2) by simp
  with r have out: "out = map consumedMessage (take ?k ens)" by metis
  have out2: "?k = min (nat n) (length ens)" "deliveredOf c2 topic g = length (entriesOf c topic) + ?k"
    using r assms(4) d1 ens(2) by simp_all
  have len: "length ens = length ms" using list_all2_lengthD [OF ens(3)] by simp
  have sub: "map cm_ID out = take ?k (map fst ens)"
    by (subst out) (simp add: take_map o_def)
  from streamLaws_distinct [OF assms(1), of c1 topic] ens(2)
  have d: "distinct (map fst ens)" "set (map fst ens) \<inter> fst ` set (entriesOf c topic) = {}" by auto
  have "list_all2 carries (take ?k ms) (take ?k (map consumedMessage ens))" using ens(3) by (rule list_all2_takeI)
  then have "list_all2 carries (take ?k ms) out" using out by (simp add: take_map)
  moreover have "set (map cm_ID out) \<subseteq> set (map fst ens)" unfolding sub by (rule set_take_subset)
  moreover have "distinct (map cm_ID out)" unfolding sub using d(1) by (rule distinct_take)
  ultimately show ?thesis using out2 len d(2) by auto
qed

text \<open>The ids of the entries delivered to the configured group.\<close>

definition deliveredIDs ::
  "('c \<Rightarrow> string \<Rightarrow> streamEntry list) \<Rightarrow> ('c \<Rightarrow> string \<Rightarrow> string \<Rightarrow> nat) \<Rightarrow> consumerConfig \<Rightarrow> 'c \<Rightarrow> string set" where
  "deliveredIDs entriesOf deliveredOf cfg c =
     fst ` set (take (deliveredOf c (cc_Stream cfg) (cc_Group cfg)) (entriesOf c (cc_Stream cfg)))"

lemma take_add_ids:
  assumes "distinct (map fst xs)"
  shows "fst ` set (take (n + k) xs) = fst ` set (take n xs) \<union> fst ` set (take k (drop n xs))"
    and "fst ` set (take k (drop n xs)) \<inter> fst ` set (take n xs) = {}"
proof -
  show "fst ` set (take (n + k) xs) = fst ` set (take n xs) \<union> fst ` set (take k (drop n xs))"
    by (simp add: take_add image_Un)
  have "distinct (map fst (take n xs @ drop n xs))" using assms by simp
  then have "fst ` set (take n xs) \<inter> fst ` set (drop n xs) = {}" unfolding map_append distinct_append by simp
  then show "fst ` set (take k (drop n xs)) \<inter> fst ` set (take n xs) = {}"
    using set_take_subset [of k "drop n xs"] by blast
qed

text \<open>
  C9: the Redis broker is an instance of the delivery contract of the consumer: whatever the
  consumer reads and acknowledges, the ids handed to its group only grow, a successful read returns
  ids never handed out before, and an acknowledgement hands out nothing. So the consumer on the
  real broker never sees a message a second time, acknowledged or not.
\<close>

theorem redis_delivers_once:
  assumes "streamLaws client entriesOf deliveredOf"
  shows "deliversOnce cfg (redisConsumer client) (deliveredIDs entriesOf deliveredOf cfg)"
  unfolding deliversOnce_def redisConsumer_def brokerConsumer.simps
proof (intro conjI allI impI)
  let ?s = "cc_Stream cfg" and ?g = "cc_Group cfg"
  fix b res b'
  assume r: "redisRead client ?s ?g (cc_ConsumerName cfg) (cc_ReadCount cfg) (cc_BlockTimeout cfg) b = (res, b')"
  show "case res of Inl _ \<Rightarrow> deliveredIDs entriesOf deliveredOf cfg b \<subseteq> deliveredIDs entriesOf deliveredOf cfg b'
      | Inr ms \<Rightarrow> distinct (map cm_ID ms) \<and> set (map cm_ID ms) \<inter> deliveredIDs entriesOf deliveredOf cfg b = {} \<and>
          deliveredIDs entriesOf deliveredOf cfg b' = deliveredIDs entriesOf deliveredOf cfg b \<union> set (map cm_ID ms)"
  proof (cases res)
    case (Inl e)
    from redisRead_err [OF assms r [unfolded Inl]]
    have "set (take (deliveredOf b ?s ?g) (entriesOf b ?s)) \<subseteq> set (take (deliveredOf b' ?s ?g) (entriesOf b ?s))"
      "entriesOf b' = entriesOf b" by (simp_all add: set_take_subset_set_take)
    then show ?thesis unfolding Inl sum.case deliveredIDs_def by (simp add: image_mono)
  next
    case (Inr ms)
    let ?d = "deliveredOf b ?s ?g" and ?es = "entriesOf b ?s"
    from redisRead_ok [OF assms r [unfolded Inr]]
    have ms: "entriesOf b' = entriesOf b" "deliveredOf b' ?s ?g = ?d + length ms"
      "ms = map consumedMessage (take (length ms) (drop ?d ?es))" by simp_all
    have dist: "distinct (map fst ?es)" by (rule streamLaws_distinct [OF assms])
    have ids: "map cm_ID ms = map fst (take (length ms) (drop ?d ?es))" by (subst ms(3)) (simp add: o_def)
    have "distinct (map cm_ID ms)"
      unfolding ids take_map [symmetric] drop_map [symmetric] using dist by (intro distinct_take distinct_drop)
    moreover have set_ids: "set (map cm_ID ms) = fst ` set (take (length ms) (drop ?d ?es))"
      unfolding ids by (rule set_map)
    moreover have "deliveredIDs entriesOf deliveredOf cfg b' = fst ` set (take (?d + length ms) ?es)"
      unfolding deliveredIDs_def ms(1,2) ..
    ultimately show ?thesis
      unfolding Inr sum.case deliveredIDs_def
      using take_add_ids [OF dist, where n = ?d and k = "length ms"] by (intro conjI) simp_all
  qed
next
  fix ids b e b'
  assume "redisAck client (cc_Stream cfg) (cc_Group cfg) ids b = (e, b')"
  from redisAck_same [OF assms this] show "deliveredIDs entriesOf deliveredOf cfg b' = deliveredIDs entriesOf deliveredOf cfg b"
    by (simp add: deliveredIDs_def)
qed

section \<open>Witnesses\<close>

text \<open>A client over lists: the values of each stream in order, and how far each group has read.\<close>

type_synonym demoStreams = "(string \<Rightarrow> fieldMap list) \<times> (string \<Rightarrow> string \<Rightarrow> nat)"

definition demoEntries :: "demoStreams \<Rightarrow> string \<Rightarrow> streamEntry list" where
  "demoEntries c s = zip (map fmtNat [0..<length (fst c s)]) (fst c s)"

definition demoDelivered :: "demoStreams \<Rightarrow> string \<Rightarrow> string \<Rightarrow> nat" where
  "demoDelivered c s g = min (snd c s g) (length (fst c s))"

definition demoRedis :: "demoStreams redisClient" where
  "demoRedis = \<lparr>
     rc_XGroupCreateMkStream = (\<lambda>s g from c. (None, c)),
     rc_XAdd = (\<lambda>s kv c. (Inr (fmtNat (length (fst c s))), ((fst c)(s := fst c s @ [kv]), demoDelivered c))),
     rc_XReadGroup = (\<lambda>g name ss n block c.
        let s = hd ss; d = demoDelivered c s g; rest = length (demoEntries c s) - d;
            k = (if 0 < n then min (nat n) rest else rest) in
        if k = 0 then (Inl RedisNil, c)
        else (Inr [(s, take k (drop d (demoEntries c s)))],
          (fst c, (demoDelivered c)(s := (demoDelivered c s)(g := d + k))))),
     rc_XAck = (\<lambda>s g ids c. (None, c))\<rparr>"

lemma demoEntries_length [simp]: "length (demoEntries c s) = length (fst c s)"
  by (simp add: demoEntries_def)

lemma demoEntries_distinct: "distinct (map fst (demoEntries c s))"
  by (simp add: demoEntries_def distinct_map inj_on_def fmtNat_inj)

lemma demoEntries_add:
  "demoEntries ((fst c)(s := fst c s @ [kv]), d) = (demoEntries c)(s := demoEntries c s @ [(fmtNat (length (fst c s)), kv)])"
  by (rule ext) (simp add: demoEntries_def zip_append)

lemma demoDelivered_add: "demoDelivered ((fst c)(s := fst c s @ [kv]), demoDelivered c) = demoDelivered c"
  by (intro ext) (simp add: demoDelivered_def)

lemma demo_read_laws:
  assumes "rc_XReadGroup demoRedis g name [s, ''>''] n block c = (res, c')"
  shows "demoEntries c' = demoEntries c \<and>
     (case res of
        Inl RedisNil \<Rightarrow> demoDelivered c' = demoDelivered c \<and> demoDelivered c s g = length (demoEntries c s)
      | Inl (RedisErr e) \<Rightarrow> demoDelivered c s g \<le> demoDelivered c' s g
      | Inr rs \<Rightarrow> \<exists>k. 0 < k \<and> demoDelivered c s g + k \<le> length (demoEntries c s) \<and>
          (0 < n \<longrightarrow> k = min (nat n) (length (demoEntries c s) - demoDelivered c s g)) \<and>
          rs = [(s, take k (drop (demoDelivered c s g) (demoEntries c s)))] \<and>
          demoDelivered c' = (demoDelivered c)(s := (demoDelivered c s)(g := demoDelivered c s g + k)))"
proof -
  define d where "d = demoDelivered c s g"
  define rest where "rest = length (fst c s) - d"
  define k where "k = (if 0 < n then min (nat n) rest else rest)"
  have d: "d \<le> length (fst c s)" by (simp add: d_def demoDelivered_def)
  have step: "(if k = 0 then (Inl RedisNil, c) else (Inr [(s, take k (drop d (demoEntries c s)))],
      (fst c, (demoDelivered c)(s := (demoDelivered c s)(g := d + k))))) = (res, c')"
    using assms unfolding k_def rest_def d_def by (simp add: demoRedis_def Let_def cong: if_cong)
  show ?thesis
  proof (cases "k = 0")
    case True
    then have "rest = 0" by (auto simp: k_def split: if_splits)
    with step True d have "res = Inl RedisNil" "c' = c" "demoDelivered c s g = length (fst c s)"
      by (auto simp: rest_def d_def)
    then show ?thesis by simp
  next
    case False
    have le: "d + k \<le> length (fst c s)" using d by (auto simp: k_def rest_def)
    have "demoDelivered (fst c, (demoDelivered c)(s := (demoDelivered c s)(g := d + k))) =
        (demoDelivered c)(s := (demoDelivered c s)(g := d + k))"
      using le by (intro ext) (auto simp: demoDelivered_def)
    moreover have "demoEntries (fst c, (demoDelivered c)(s := (demoDelivered c s)(g := d + k))) = demoEntries c"
      by (rule ext) (simp add: demoEntries_def)
    ultimately show ?thesis using step False le
      by (intro conjI) (auto simp: d_def k_def rest_def intro!: exI [of _ k])
  qed
qed

lemma demo_stream_laws: "streamLaws demoRedis demoEntries demoDelivered"
  unfolding streamLaws_def
proof (intro conjI allI impI)
  fix s kv c res c'
  assume "rc_XAdd demoRedis s kv c = (res, c')"
  then have r: "res = Inr (fmtNat (length (fst c s)))" "c' = ((fst c)(s := fst c s @ [kv]), demoDelivered c)"
    by (simp_all add: demoRedis_def)
  show "demoDelivered c' = demoDelivered c" unfolding r(2) by (rule demoDelivered_add)
  show "case res of Inl e \<Rightarrow> demoEntries c' = demoEntries c \<or>
           (\<exists>i. demoEntries c' = (demoEntries c)(s := demoEntries c s @ [(i, kv)]))
       | Inr i \<Rightarrow> demoEntries c' = (demoEntries c)(s := demoEntries c s @ [(i, kv)])"
    unfolding r by (simp add: demoEntries_add)
next
  fix g name s n block c res c'
  assume "rc_XReadGroup demoRedis g name [s, ''>''] n block c = (res, c')"
  note laws = demo_read_laws [OF this]
  from laws show "demoEntries c' = demoEntries c" by blast
  from laws show "case res of
        Inl RedisNil \<Rightarrow> demoDelivered c' = demoDelivered c \<and> demoDelivered c s g = length (demoEntries c s)
      | Inl (RedisErr e) \<Rightarrow> demoDelivered c s g \<le> demoDelivered c' s g
      | Inr rs \<Rightarrow> \<exists>k. 0 < k \<and> demoDelivered c s g + k \<le> length (demoEntries c s) \<and>
          (0 < n \<longrightarrow> k = min (nat n) (length (demoEntries c s) - demoDelivered c s g)) \<and>
          rs = [(s, take k (drop (demoDelivered c s g) (demoEntries c s)))] \<and>
          demoDelivered c' = (demoDelivered c)(s := (demoDelivered c s)(g := demoDelivered c s g + k))" by blast
qed (auto simp: demoRedis_def demoEntries_distinct, auto simp: demoDelivered_def)

theorem redis_broker_fifo_witness:
  "map cm_Payload (case redisRead demoRedis ''orders'' ''g'' ''c1'' 10 0
     (snd (redisPublishAll demoRedis ''orders''
        [\<lparr>bm_Key = ''k'', bm_Payload = ''first'', bm_TraceID = ''t'', bm_CorrelationID = ''x''\<rparr>,
         \<lparr>bm_Key = ''k'', bm_Payload = ''second'', bm_TraceID = ''t'', bm_CorrelationID = ''y''\<rparr>]
        (\<lambda>_. [], \<lambda>_ _. 0))) of (Inr out, _) \<Rightarrow> out) = [''first'', ''second'']"
proof -
  let ?ms = "[\<lparr>bm_Key = ''k'', bm_Payload = ''first'', bm_TraceID = ''t'', bm_CorrelationID = ''x''\<rparr>,
         \<lparr>bm_Key = ''k'', bm_Payload = ''second'', bm_TraceID = ''t'', bm_CorrelationID = ''y''\<rparr>]"
  let ?c0 = "(\<lambda>_. [], \<lambda>_ _. 0) :: demoStreams"
  obtain c1 where p: "redisPublishAll demoRedis ''orders'' ?ms ?c0 = (None, c1)"
    by (simp add: redisPublish_def demoRedis_def)
  obtain out c2 where r: "redisRead demoRedis ''orders'' ''g'' ''c1'' 10 0 c1 = (Inr out, c2)"
    using p by (auto simp: redisPublish_def demoRedis_def redisRead_def Let_def demoDelivered_def)
  have "demoDelivered ?c0 ''orders'' ''g'' = length (demoEntries ?c0 ''orders'')" by (simp add: demoDelivered_def)
  from redis_broker_fifo [OF demo_stream_laws p this zero_less_numeral r]
  have "length out = min (nat 10) (length ?ms)" and carried: "list_all2 carries (take (length out) ?ms) out" by blast+
  from this(1) have "length out = 2" by simp
  then obtain a b where "out = [a, b]" by (auto simp: numeral_2_eq_2 length_Suc_conv)
  with carried have "map cm_Payload out = [''first'', ''second'']" by (simp add: carries_def)
  with p r show ?thesis by simp
qed

theorem redis_delivers_once_witness:
  "deliversOnce demoCons (redisConsumer demoRedis) (deliveredIDs demoEntries demoDelivered demoCons)"
  by (rule redis_delivers_once [OF demo_stream_laws])

end
