(* ===== verification/Metrics.thy ===== *)
theory Metrics
  imports Http
begin

text \<open>
  The metrics collector of \<open>internal/metricscollector/service.go\<close>: the ingestion queue, the workers
  that aggregate events, the flush to a store, the in-memory and the Redis store, the snapshot, the
  two HTTP handlers and the instrumentation middleware.

  The floating point average is a parameter: \<open>fo_quot\<close> is \<open>float64(sum) / float64(count)\<close> and
  \<open>fo_zero\<close> the literal \<open>0.0\<close>. The Redis client is a parameter with two operations: executing a
  pipeline of \<open>HINCRBY\<close> commands and \<open>HGETALL\<close>; \<open>hashLaws\<close> states their documented behaviour.
\<close>

section \<open>Data\<close>

record metricEvent =
  ev_Source :: string
  ev_Name :: string
  ev_Status :: string
  ev_DurationMS :: int64

record metricCounter =
  ctr_Name :: string
  ctr_Value :: int64

record 'f latencyMetric =
  lm_Name :: string
  lm_Count :: int64
  lm_SumMS :: int64
  lm_AvgMS :: 'f

record 'f metricSnapshot =
  snap_Counters :: "metricCounter list"
  snap_Latency :: "'f latencyMetric list"

record metricsConfig =
  mc_Workers :: int
  mc_QueueSize :: int
  mc_FlushInterval :: duration

record latencyAgg =
  lat_SumMS :: int64
  lat_Count :: int64

type_synonym counterMap = "(string, int64) gomap"
type_synonym latencyMap = "(string, latencyAgg) gomap"

record ('f, 's) metricsStore =
  mst_Apply :: "counterMap \<Rightarrow> latencyMap \<Rightarrow> 's \<Rightarrow> string option \<times> 's"
  mst_Snapshot :: "'s \<Rightarrow> (string + 'f metricSnapshot) \<times> 's"

record metricsService =
  mx_cfg :: metricsConfig
  mx_queue :: "metricEvent list"
  mx_started :: bool
  mx_pendingCounters :: counterMap
  mx_pendingLatency :: latencyMap

datatype metricsError = MetricsQueueFull | MetricsError string

record 'f floatOps =
  fo_zero :: 'f
  fo_quot :: "int64 \<Rightarrow> int64 \<Rightarrow> 'f"

text \<open>Reading a Go map at a missing key gives the zero value.\<close>

definition counterOf :: "counterMap \<Rightarrow> string \<Rightarrow> int64" where
  "counterOf m k = (case map_of m k of None \<Rightarrow> 0 | Some v \<Rightarrow> v)"

definition latencyOf :: "latencyMap \<Rightarrow> string \<Rightarrow> latencyAgg" where
  "latencyOf m k = (case map_of m k of None \<Rightarrow> \<lparr>lat_SumMS = 0, lat_Count = 0\<rparr> | Some v \<Rightarrow> v)"

section \<open>The collector\<close>

definition newMetrics :: "metricsConfig \<Rightarrow> metricsService" where
  "newMetrics cfg =
     (let c1 = (if mc_Workers cfg \<le> 0 then cfg\<lparr>mc_Workers := 2\<rparr> else cfg);
          c2 = (if mc_QueueSize c1 \<le> 0 then c1\<lparr>mc_QueueSize := 256\<rparr> else c1);
          c3 = (if mc_FlushInterval c2 \<le> 0 then c2\<lparr>mc_FlushInterval := second\<rparr> else c2)
      in \<lparr>mx_cfg = c3, mx_queue = [], mx_started = False, mx_pendingCounters = [], mx_pendingLatency = []\<rparr>)"

text \<open>How many workers are launched, next to the one flush loop.\<close>

definition metricsStart :: "metricsService \<Rightarrow> nat \<times> metricsService" where
  "metricsStart s = (if mx_started s then (0, s) else (nat (mc_Workers (mx_cfg s)), s\<lparr>mx_started := True\<rparr>))"

definition ingestCheck :: "metricEvent \<Rightarrow> metricsService \<Rightarrow> metricsError option" where
  "ingestCheck e s =
     (if ev_Source e = '''' \<or> ev_Name e = '''' \<or> ev_Status e = ''''
      then Some (MetricsError ''source, name, and status are required'')
      else if ev_DurationMS e < 0 then Some (MetricsError ''duration_ms must be >= 0'')
      else if \<not> mx_started s then Some (MetricsError ''collector is not running'')
      else None)"

definition ingestSend :: "metricEvent \<Rightarrow> metricsService \<Rightarrow> metricsError option \<times> metricsService" where
  "ingestSend e s =
     (if int (length (mx_queue s)) < mc_QueueSize (mx_cfg s) then (None, s\<lparr>mx_queue := mx_queue s @ [e]\<rparr>)
      else (Some MetricsQueueFull, s))"

definition metricsIngest :: "metricEvent \<Rightarrow> metricsService \<Rightarrow> metricsError option \<times> metricsService" where
  "metricsIngest e s = (case ingestCheck e s of Some err \<Rightarrow> (Some err, s) | None \<Rightarrow> ingestSend e s)"

definition counterKey :: "metricEvent \<Rightarrow> string" where
  "counterKey e = ev_Source e @ ''.'' @ ev_Name e @ ''.'' @ ev_Status e"

definition latencyKey :: "metricEvent \<Rightarrow> string" where
  "latencyKey e = ev_Source e @ ''.'' @ ev_Name e"

definition processEvent :: "metricEvent \<Rightarrow> metricsService \<Rightarrow> metricsService" where
  "processEvent e s =
     (let k = counterKey e; lk = latencyKey e; agg = latencyOf (mx_pendingLatency s) lk;
          agg1 = agg\<lparr>lat_Count := wrap64 (lat_Count agg + 1)\<rparr>;
          agg2 = agg1\<lparr>lat_SumMS := wrap64 (lat_SumMS agg1 + ev_DurationMS e)\<rparr>
      in s\<lparr>mx_pendingCounters := mput k (wrap64 (counterOf (mx_pendingCounters s) k + 1)) (mx_pendingCounters s),
           mx_pendingLatency := mput lk agg2 (mx_pendingLatency s)\<rparr>)"

definition drainPending :: "metricsService \<Rightarrow> (counterMap \<times> latencyMap) \<times> metricsService" where
  "drainPending s = ((mx_pendingCounters s, mx_pendingLatency s),
     s\<lparr>mx_pendingCounters := [], mx_pendingLatency := []\<rparr>)"

definition metricsFlush :: "('f, 's) metricsStore \<Rightarrow> metricsService \<times> 's \<Rightarrow> string option \<times> metricsService \<times> 's" where
  "metricsFlush store sw =
     (let (s, w) = sw; ((cs, ls), s1) = drainPending s
      in if length cs = 0 \<and> length ls = 0 then (None, s1, w)
         else let (e, w1) = mst_Apply store cs ls w in (e, s1, w1))"

text \<open>One round of \<open>workerLoop\<close>: the next event of the queue, if there is one.\<close>

definition workerTake :: "metricsService \<Rightarrow> metricEvent option \<times> metricsService" where
  "workerTake s = (case mx_queue s of [] \<Rightarrow> (None, s) | e # q \<Rightarrow> (Some e, s\<lparr>mx_queue := q\<rparr>))"

text \<open>
  \<open>Stop\<close> cancels the workers and waits for them; \<open>waited\<close> is the error of the caller's context when it
  ends before the workers have. \<open>meanwhile\<close> is what the goroutines still did.
\<close>

definition metricsStop ::
  "('f, 's) metricsStore \<Rightarrow> string option \<Rightarrow> (metricsService \<times> 's \<Rightarrow> metricsService \<times> 's)
     \<Rightarrow> metricsService \<times> 's \<Rightarrow> string option \<times> metricsService \<times> 's" where
  "metricsStop store waited meanwhile sw =
     (if \<not> mx_started (fst sw) then (None, sw)
      else let sw1 = meanwhile ((fst sw)\<lparr>mx_started := False\<rparr>, snd sw)
           in (case waited of Some e \<Rightarrow> (Some e, sw1) | None \<Rightarrow> metricsFlush store sw1))"

section \<open>Snapshots and stores\<close>

definition buildSnapshot :: "'f floatOps \<Rightarrow> counterMap \<Rightarrow> latencyMap \<Rightarrow> 'f metricSnapshot" where
  "buildSnapshot F cs ls =
     \<lparr>snap_Counters = map (\<lambda>k. \<lparr>ctr_Name = k, ctr_Value = counterOf cs k\<rparr>) (sort (mkeys cs)),
      snap_Latency = map (\<lambda>k. let agg = latencyOf ls k;
           avg = (if 0 < lat_Count agg then fo_quot F (lat_SumMS agg) (lat_Count agg) else fo_zero F)
         in \<lparr>lm_Name = k, lm_Count = lat_Count agg, lm_SumMS = lat_SumMS agg, lm_AvgMS = avg\<rparr>)
       (sort (mkeys ls))\<rparr>"

record memoryStore =
  mem_counters :: counterMap
  mem_lat :: latencyMap

definition newMemoryStore :: memoryStore where
  "newMemoryStore = \<lparr>mem_counters = [], mem_lat = []\<rparr>"

definition addCounters :: "counterMap \<Rightarrow> counterMap \<Rightarrow> counterMap" where
  "addCounters cs m = fold (\<lambda>(k, v) acc. mput k (wrap64 (counterOf acc k + v)) acc) cs m"

definition addLatency :: "latencyMap \<Rightarrow> latencyMap \<Rightarrow> latencyMap" where
  "addLatency ls m = fold (\<lambda>(k, v) acc. let agg = latencyOf acc k in
     mput k (agg\<lparr>lat_Count := wrap64 (lat_Count agg + lat_Count v), lat_SumMS := wrap64 (lat_SumMS agg + lat_SumMS v)\<rparr>) acc)
     ls m"

definition memStore_Apply :: "counterMap \<Rightarrow> latencyMap \<Rightarrow> memoryStore \<Rightarrow> string option \<times> memoryStore" where
  "memStore_Apply cs ls m = (None, m\<lparr>mem_counters := addCounters cs (mem_counters m), mem_lat := addLatency ls (mem_lat m)\<rparr>)"

definition memStore_Snapshot :: "'f floatOps \<Rightarrow> memoryStore \<Rightarrow> (string + 'f metricSnapshot) \<times> memoryStore" where
  "memStore_Snapshot F m = (Inr (buildSnapshot F (mem_counters m) (mem_lat m)), m)"

definition memoryMetrics :: "'f floatOps \<Rightarrow> ('f, memoryStore) metricsStore" where
  "memoryMetrics F = \<lparr>mst_Apply = memStore_Apply, mst_Snapshot = memStore_Snapshot F\<rparr>"

section \<open>fmt.Sscan on an int64\<close>

text \<open>
  \<open>fmt.Sscan\<close> skips white space, takes an optional sign, a base prefix and the longest run of digits
  of that base and underscores, ignores what follows and parses the token as \<open>strconv.ParseInt\<close>
  with base 0 does. Where the code discards the value of a failed parse, the result is \<open>None\<close>.
\<close>

definition digitOf :: "char \<Rightarrow> nat option" where
  "digitOf c =
     (if isDigit c then Some (byteOf c - 48)
      else if 97 \<le> byteOf (asciiLower c) \<and> byteOf (asciiLower c) \<le> 102 then Some (byteOf (asciiLower c) - 87)
      else None)"

definition baseChar :: "nat \<Rightarrow> char \<Rightarrow> bool" where
  "baseChar base c \<longleftrightarrow> c = CHR ''_'' \<or> (case digitOf c of None \<Rightarrow> False | Some d \<Rightarrow> d < base)"

definition basePrefix :: "string \<Rightarrow> (nat \<times> nat) option" where
  "basePrefix s = (case s of
       a # b # cs \<Rightarrow> if a \<noteq> CHR ''0'' then None
         else if asciiLower b = CHR ''b'' then Some (2, 2)
         else if asciiLower b = CHR ''o'' then Some (8, 2)
         else if asciiLower b = CHR ''x'' then Some (16, 2)
         else Some (8, 1)
     | [a] \<Rightarrow> if a = CHR ''0'' then Some (8, 1) else None
     | [] \<Rightarrow> None)"

text \<open>An underscore must stand between digits, or after the base prefix.\<close>

fun underscoresOK :: "bool \<Rightarrow> bool \<Rightarrow> string \<Rightarrow> bool" where
  "underscoresOK afterDigit afterUnder [] \<longleftrightarrow> \<not> afterUnder"
| "underscoresOK afterDigit afterUnder (c # cs) \<longleftrightarrow>
     (if c = CHR ''_'' then afterDigit \<and> underscoresOK False True cs else underscoresOK True False cs)"

definition digitsIn :: "nat \<Rightarrow> string \<Rightarrow> nat" where
  "digitsIn base s = foldl (\<lambda>n c. n * base + (case digitOf c of None \<Rightarrow> 0 | Some d \<Rightarrow> d)) 0 (filter (\<lambda>c. c \<noteq> CHR ''_'') s)"

definition signOf :: "string \<Rightarrow> bool \<times> string" where
  "signOf s = (case s of
       c # cs \<Rightarrow> if c = CHR ''-'' then (True, cs) else if c = CHR ''+'' then (False, cs) else (False, s)
     | [] \<Rightarrow> (False, s))"

definition sscanInt64 :: "string \<Rightarrow> int64 option" where
  "sscanInt64 raw =
     (let (neg, s) = signOf (stripLeft goSpaces raw);
          finish = (\<lambda>n. let v = (if neg then - int n else int n) in if in64 v then Some v else None)
      in (case basePrefix s of
            None \<Rightarrow> let tok = takeWhile (baseChar 10) s
                     in if tok = [] \<or> \<not> underscoresOK False False tok then None else finish (digitsIn 10 tok)
          | Some (base, skip) \<Rightarrow>
              let tok = takeWhile (baseChar base) (drop skip s)
              in if (tok = [] \<and> skip = 2) \<or> \<not> underscoresOK True False tok then None
                 else finish (digitsIn base tok)))"

definition parseInt64 :: "string \<Rightarrow> int64 option" where
  "parseInt64 raw = sscanInt64 raw"

section \<open>The Redis store\<close>

record 'c hashClient =
  hc_Exec :: "(string \<times> string \<times> int64) list \<Rightarrow> 'c \<Rightarrow> string option \<times> 'c"
  hc_HGetAll :: "string \<Rightarrow> 'c \<Rightarrow> (string + (string, string) gomap) \<times> 'c"

definition redisStore_Apply :: "'c hashClient \<Rightarrow> counterMap \<Rightarrow> latencyMap \<Rightarrow> 'c \<Rightarrow> string option \<times> 'c" where
  "redisStore_Apply client cs ls w =
     hc_Exec client (map (\<lambda>(k, v). (''metrics:counters'', k, v)) cs @
       concat (map (\<lambda>(k, v). [(''metrics:latency:sum'', k, lat_SumMS v), (''metrics:latency:count'', k, lat_Count v)]) ls)) w"

definition parsedCounters :: "(string, string) gomap \<Rightarrow> counterMap" where
  "parsedCounters raw = fold (\<lambda>(k, v) acc. case parseInt64 v of None \<Rightarrow> acc | Some n \<Rightarrow> mput k n acc) raw []"

definition parsedLatency :: "(string, string) gomap \<Rightarrow> (string, string) gomap \<Rightarrow> latencyMap" where
  "parsedLatency sumRaw countRaw =
     fold (\<lambda>(k, v) acc. case parseInt64 v of None \<Rightarrow> acc
              | Some n \<Rightarrow> mput k ((latencyOf acc k)\<lparr>lat_Count := n\<rparr>) acc) countRaw
       (fold (\<lambda>(k, v) acc. case parseInt64 v of None \<Rightarrow> acc
              | Some n \<Rightarrow> mput k ((latencyOf acc k)\<lparr>lat_SumMS := n\<rparr>) acc) sumRaw [])"

definition redisStore_Snapshot :: "'f floatOps \<Rightarrow> 'c hashClient \<Rightarrow> 'c \<Rightarrow> (string + 'f metricSnapshot) \<times> 'c" where
  "redisStore_Snapshot F client w = (case hc_HGetAll client ''metrics:counters'' w of
       (Inl e, w1) \<Rightarrow> (Inl e, w1)
     | (Inr countersRaw, w1) \<Rightarrow> (case hc_HGetAll client ''metrics:latency:sum'' w1 of
           (Inl e, w2) \<Rightarrow> (Inl e, w2)
         | (Inr sumRaw, w2) \<Rightarrow> (case hc_HGetAll client ''metrics:latency:count'' w2 of
               (Inl e, w3) \<Rightarrow> (Inl e, w3)
             | (Inr countRaw, w3) \<Rightarrow>
                 (Inr (buildSnapshot F (parsedCounters countersRaw) (parsedLatency sumRaw countRaw)), w3))))"

definition redisMetrics :: "'f floatOps \<Rightarrow> 'c hashClient \<Rightarrow> ('f, 'c) metricsStore" where
  "redisMetrics F client = \<lparr>mst_Apply = redisStore_Apply client, mst_Snapshot = redisStore_Snapshot F client\<rparr>"

section \<open>HTTP\<close>

datatype 'f metricsPayload = MetricsErr string | MetricsOK | MetricsSnap "'f metricSnapshot"

record 'f metricsResponse =
  mr_status :: nat
  mr_contentType :: string
  mr_payload :: "'f metricsPayload"

definition writeJSON :: "nat \<Rightarrow> 'f metricsPayload \<Rightarrow> 'f metricsResponse" where
  "writeJSON status payload =
     \<lparr>mr_status = status, mr_contentType = ''application/json; charset=utf-8'', mr_payload = payload\<rparr>"

definition metricsErrText :: "metricsError \<Rightarrow> string" where
  "metricsErrText err = (case err of MetricsQueueFull \<Rightarrow> ''metrics queue is full'' | MetricsError e \<Rightarrow> e)"

text \<open>\<open>POST /metrics/events\<close>: the body is decoded with the default options, a second value is not looked for.\<close>

definition postMetricEvent :: "string + metricEvent \<Rightarrow> metricsService \<Rightarrow> 'f metricsResponse \<times> metricsService" where
  "postMetricEvent body s = (case body of
       Inl _ \<Rightarrow> (writeJSON 400 (MetricsErr ''invalid_json''), s)
     | Inr e \<Rightarrow> (case metricsIngest e s of
           (Some err, s1) \<Rightarrow> (if err = MetricsQueueFull then (writeJSON 429 (MetricsErr ''queue_full''), s1)
                              else (writeJSON 400 (MetricsErr (metricsErrText err)), s1))
         | (None, s1) \<Rightarrow> (writeJSON 202 MetricsOK, s1)))"

definition getMetrics :: "('f, 's) metricsStore \<Rightarrow> 's \<Rightarrow> 'f metricsResponse \<times> 's" where
  "getMetrics store w = (case mst_Snapshot store w of
       (Inl e, w1) \<Rightarrow> (writeJSON 500 (MetricsErr ''snapshot_failed''), w1)
     | (Inr snap, w1) \<Rightarrow> (writeJSON 200 (MetricsSnap snap), w1))"

text \<open>
  The middleware around the application: the recorder sees the status of the response, 200 when
  the handler never wrote one, and the result of the ingestion is ignored. \<open>t0\<close> and \<open>t1\<close> are the
  clock before and after the handler ran.
\<close>

definition mwStatusCode :: "nat \<Rightarrow> nat" where
  "mwStatusCode status = (if status = 0 then 200 else status)"

definition metricsMiddleware ::
  "time \<Rightarrow> time \<Rightarrow> ('n, 'd) handler \<Rightarrow> (metricsService \<times> 'n, 'd) handler" where
  "metricsMiddleware t0 t1 next = (\<lambda>(s, n) r.
     let (res, n') = next n r;
         (err, s') = metricsIngest \<lparr>ev_Source = ''http'', ev_Name = req_Method r @ '':'' @ req_Path r,
             ev_Status = fmtD (int (mwStatusCode (res_status res))), ev_DurationMS = (t1 - t0) div millisecond\<rparr> s
     in (res, (s', n')))"

section \<open>Aggregation\<close>

lemma counterOf_Nil [simp]: "counterOf [] k = 0"
  by (simp add: counterOf_def)

lemma latencyOf_Nil [simp]: "lat_SumMS (latencyOf [] k) = 0" "lat_Count (latencyOf [] k) = 0"
  by (simp_all add: latencyOf_def)

lemma counterOf_mput [simp]: "counterOf (mput k v m) k' = (if k' = k then v else counterOf m k')"
  by (simp add: counterOf_def)

lemma latencyOf_mput [simp]: "latencyOf (mput k v m) k' = (if k' = k then v else latencyOf m k')"
  by (simp add: latencyOf_def)

lemma latencyAgg_both [simp]:
  "(a :: latencyAgg)\<lparr>lat_Count := n, lat_SumMS := m\<rparr> = \<lparr>lat_SumMS = m, lat_Count = n\<rparr>"
  by (cases a) simp

lemma addCounters_simps [simp]:
  "addCounters [] m = m"
  "addCounters ((k, v) # cs) m = addCounters cs (mput k (wrap64 (counterOf m k + v)) m)"
  by (simp_all add: addCounters_def)

lemma addLatency_simps [simp]:
  "addLatency [] m = m"
  "addLatency ((k, v) # ls) m = addLatency ls (mput k \<lparr>lat_SumMS = wrap64 (lat_SumMS (latencyOf m k) + lat_SumMS v),
     lat_Count = wrap64 (lat_Count (latencyOf m k) + lat_Count v)\<rparr> m)"
  by (simp_all add: addLatency_def Let_def)

text \<open>Adding a batch with distinct keys touches each key at most once.\<close>

lemma counterOf_addCounters:
  "distinct (mkeys cs) \<Longrightarrow> counterOf (addCounters cs m) k =
     (if k \<in> set (mkeys cs) then wrap64 (counterOf m k + counterOf cs k) else counterOf m k)"
proof (induction cs arbitrary: m)
  case (Cons x cs)
  obtain a v where x: "x = (a, v)" by fastforce
  with Cons show ?case by (auto simp: counterOf_def [of "(a, v) # cs"] counterOf_def [of cs])
qed simp

lemma latencyOf_addLatency:
  "distinct (mkeys ls) \<Longrightarrow> latencyOf (addLatency ls m) k =
     (if k \<in> set (mkeys ls) then \<lparr>lat_SumMS = wrap64 (lat_SumMS (latencyOf m k) + lat_SumMS (latencyOf ls k)),
        lat_Count = wrap64 (lat_Count (latencyOf m k) + lat_Count (latencyOf ls k))\<rparr> else latencyOf m k)"
proof (induction ls arbitrary: m)
  case (Cons x ls)
  obtain a v where x: "x = (a, v)" by fastforce
  with Cons show ?case by (auto simp: latencyOf_def [of "(a, v) # ls"] latencyOf_def [of ls])
qed simp

lemma counterOf_notin: "k \<notin> set (mkeys m) \<Longrightarrow> counterOf m k = 0"
  using map_of_eq_None_iff [of m k] by (simp add: counterOf_def)

lemma latencyOf_notin: "k \<notin> set (mkeys m) \<Longrightarrow> latencyOf m k = \<lparr>lat_SumMS = 0, lat_Count = 0\<rparr>"
  using map_of_eq_None_iff [of m k] by (simp add: latencyOf_def)

lemma addCounters_keys: "set (mkeys (addCounters cs m)) = set (mkeys m) \<union> set (mkeys cs)"
  by (induction cs arbitrary: m) (auto simp: mkeys_mput simp del: set_map)

lemma addLatency_keys: "set (mkeys (addLatency ls m)) = set (mkeys m) \<union> set (mkeys ls)"
  by (induction ls arbitrary: m) (auto simp: mkeys_mput simp del: set_map)

lemma addCounters_distinct: "distinct (mkeys m) \<Longrightarrow> distinct (mkeys (addCounters cs m))"
  by (induction cs arbitrary: m) (auto simp: distinct_mput)

lemma addLatency_distinct: "distinct (mkeys m) \<Longrightarrow> distinct (mkeys (addLatency ls m))"
  by (induction ls arbitrary: m) (auto simp: distinct_mput)

lemma processEvent_pending:
  "mx_pendingCounters (processEvent e s) =
     mput (counterKey e) (wrap64 (counterOf (mx_pendingCounters s) (counterKey e) + 1)) (mx_pendingCounters s)"
  "mx_pendingLatency (processEvent e s) = mput (latencyKey e)
     \<lparr>lat_SumMS = wrap64 (lat_SumMS (latencyOf (mx_pendingLatency s) (latencyKey e)) + ev_DurationMS e),
      lat_Count = wrap64 (lat_Count (latencyOf (mx_pendingLatency s) (latencyKey e)) + 1)\<rparr> (mx_pendingLatency s)"
  "mx_queue (processEvent e s) = mx_queue s" "mx_started (processEvent e s) = mx_started s"
  "mx_cfg (processEvent e s) = mx_cfg s"
  by (simp_all add: processEvent_def Let_def)

text \<open>
  What is counted: an observable gives every event a weight and reads a number off the aggregates.
  Processing an event adds its weight and applying a batch adds the number of the batch, both in
  64-bit arithmetic. The counters and the count and the sum of every latency are observables.
\<close>

locale metric_observable =
  fixes weight :: "metricEvent \<Rightarrow> int" and obs :: "counterMap \<Rightarrow> latencyMap \<Rightarrow> int64"
  assumes obs_empty: "obs [] [] = 0"
    and obs_process: "in64 (obs (mx_pendingCounters s) (mx_pendingLatency s)) \<Longrightarrow>
       obs (mx_pendingCounters (processEvent e s)) (mx_pendingLatency (processEvent e s)) =
         wrap64 (obs (mx_pendingCounters s) (mx_pendingLatency s) + weight e)"
    and obs_add: "distinct (mkeys cs) \<Longrightarrow> distinct (mkeys ls) \<Longrightarrow> in64 (obs cs' ls') \<Longrightarrow>
       obs (addCounters cs cs') (addLatency ls ls') = wrap64 (obs cs' ls' + obs cs ls)"
begin

lemma obs_fold:
  "in64 (obs (mx_pendingCounters s) (mx_pendingLatency s)) \<Longrightarrow>
     obs (mx_pendingCounters (fold processEvent es s)) (mx_pendingLatency (fold processEvent es s)) =
       wrap64 (obs (mx_pendingCounters s) (mx_pendingLatency s) + sum_list (map weight es))"
proof (induction es arbitrary: s)
  case (Cons e es)
  have "in64 (obs (mx_pendingCounters (processEvent e s)) (mx_pendingLatency (processEvent e s)))"
    unfolding obs_process [OF Cons.prems] by (rule wrap64_in64)
  from Cons.IH [OF this] show ?case
    by (simp add: obs_process [OF Cons.prems] add.assoc)
qed simp

end

definition hits :: "(metricEvent \<Rightarrow> string) \<Rightarrow> string \<Rightarrow> metricEvent \<Rightarrow> int" where
  "hits key k e = (if key e = k then 1 else 0)"

definition durationAt :: "string \<Rightarrow> metricEvent \<Rightarrow> int" where
  "durationAt k e = (if latencyKey e = k then ev_DurationMS e else 0)"

interpretation counters: metric_observable "hits counterKey k" "\<lambda>cs ls. counterOf cs k" for k
  by unfold_locales (auto simp: processEvent_pending hits_def counterOf_addCounters counterOf_notin)

interpretation latencyCounts: metric_observable "hits latencyKey k" "\<lambda>cs ls. lat_Count (latencyOf ls k)" for k
  by unfold_locales (auto simp: processEvent_pending hits_def latencyOf_addLatency latencyOf_notin)

interpretation latencySums: metric_observable "durationAt k" "\<lambda>cs ls. lat_SumMS (latencyOf ls k)" for k
  by unfold_locales (auto simp: processEvent_pending durationAt_def latencyOf_addLatency latencyOf_notin)

lemma sum_hits: "sum_list (map (hits key k) es) = int (length (filter (\<lambda>e. key e = k) es))"
  by (induction es) (simp_all add: hits_def)

lemma sum_durationAt: "sum_list (map (durationAt k) es) = sum_list (map ev_DurationMS (filter (\<lambda>e. latencyKey e = k) es))"
  by (induction es) (simp_all add: durationAt_def)

section \<open>Conservation\<close>

text \<open>
  The collector with an in-memory store as a step relation over its goroutines: callers of \<open>Ingest\<close>
  between the check and the send, workers with an event in hand, flushes that have drained the
  pending aggregates and not yet applied them. \<open>sy_accepted\<close> records the events \<open>Ingest\<close> accepted.
\<close>

record metricsSys =
  sy_svc :: metricsService
  sy_checked :: "metricEvent list"
  sy_hand :: "metricEvent list"
  sy_batches :: "(counterMap \<times> latencyMap) list"
  sy_store :: memoryStore
  sy_accepted :: "metricEvent list"

definition newMetricsSys :: "metricsConfig \<Rightarrow> metricsSys" where
  "newMetricsSys cfg = \<lparr>sy_svc = newMetrics cfg, sy_checked = [], sy_hand = [], sy_batches = [],
     sy_store = newMemoryStore, sy_accepted = []\<rparr>"

definition afterMetricsSend :: "metricEvent \<Rightarrow> metricsSys \<Rightarrow> metricsSys" where
  "afterMetricsSend e S = (case ingestSend e (sy_svc S) of
       (None, s) \<Rightarrow> S\<lparr>sy_svc := s, sy_checked := remove1 e (sy_checked S), sy_accepted := e # sy_accepted S\<rparr>
     | (Some _, s) \<Rightarrow> S\<lparr>sy_svc := s, sy_checked := remove1 e (sy_checked S)\<rparr>)"

inductive metricsStep :: "metricsSys \<Rightarrow> metricsSys \<Rightarrow> bool" where
  mt_start: "metricsStep S (S\<lparr>sy_svc := snd (metricsStart (sy_svc S))\<rparr>)"
| mt_stop: "metricsStep S (S\<lparr>sy_svc := (sy_svc S)\<lparr>mx_started := False\<rparr>\<rparr>)"
| mt_check: "ingestCheck e (sy_svc S) = None \<Longrightarrow> metricsStep S (S\<lparr>sy_checked := e # sy_checked S\<rparr>)"
| mt_send: "e \<in> set (sy_checked S) \<Longrightarrow> metricsStep S (afterMetricsSend e S)"
| mt_take: "workerTake (sy_svc S) = (Some e, s) \<Longrightarrow> metricsStep S (S\<lparr>sy_svc := s, sy_hand := e # sy_hand S\<rparr>)"
| mt_process: "e \<in> set (sy_hand S) \<Longrightarrow>
    metricsStep S (S\<lparr>sy_svc := processEvent e (sy_svc S), sy_hand := remove1 e (sy_hand S)\<rparr>)"
| mt_drain: "drainPending (sy_svc S) = (b, s) \<Longrightarrow> metricsStep S (S\<lparr>sy_svc := s, sy_batches := b # sy_batches S\<rparr>)"
| mt_apply: "b \<in> set (sy_batches S) \<Longrightarrow> metricsStep S (S\<lparr>sy_batches := remove1 b (sy_batches S),
    sy_store := snd (memStore_Apply (fst b) (snd b) (sy_store S))\<rparr>)"

abbreviation metricsReach :: "metricsConfig \<Rightarrow> metricsSys \<Rightarrow> bool" where
  "metricsReach cfg S \<equiv> metricsStep\<^sup>*\<^sup>* (newMetricsSys cfg) S"

definition batchOK :: "counterMap \<times> latencyMap \<Rightarrow> bool" where
  "batchOK b \<longleftrightarrow> distinct (mkeys (fst b)) \<and> distinct (mkeys (snd b))"

definition metricsInv :: "metricsSys \<Rightarrow> bool" where
  "metricsInv S \<longleftrightarrow> batchOK (mx_pendingCounters (sy_svc S), mx_pendingLatency (sy_svc S)) \<and>
     (\<forall>b \<in> set (sy_batches S). batchOK b)"

lemma newMetrics_fields [simp]:
  "mx_pendingCounters (newMetrics cfg) = []" "mx_pendingLatency (newMetrics cfg) = []"
  "mx_queue (newMetrics cfg) = []" "mx_started (newMetrics cfg) = False"
  by (simp_all add: newMetrics_def Let_def)

lemma metricsStart_fields [simp]:
  "mx_pendingCounters (snd (metricsStart s)) = mx_pendingCounters s"
  "mx_pendingLatency (snd (metricsStart s)) = mx_pendingLatency s"
  "mx_queue (snd (metricsStart s)) = mx_queue s" "mx_cfg (snd (metricsStart s)) = mx_cfg s"
  "mx_started (snd (metricsStart s))"
  by (simp_all add: metricsStart_def)

lemma ingestSend_fields:
  "ingestSend e s = (res, s') \<Longrightarrow> mx_pendingCounters s' = mx_pendingCounters s \<and>
     mx_pendingLatency s' = mx_pendingLatency s \<and> mx_queue s' = (if res = None then mx_queue s @ [e] else mx_queue s)"
  by (auto simp: ingestSend_def split: if_splits)

lemma metricsStep_inv: "metricsStep S S' \<Longrightarrow> metricsInv S \<Longrightarrow> metricsInv S'"
proof (induction rule: metricsStep.induct)
  case (mt_send e S)
  then show ?case
    by (auto simp: metricsInv_def afterMetricsSend_def dest!: ingestSend_fields split: prod.splits option.splits)
next
  case (mt_apply b S)
  then show ?case using set_remove1_subset by (fastforce simp: metricsInv_def)
qed (auto simp: metricsInv_def batchOK_def processEvent_pending distinct_mput workerTake_def drainPending_def
    split: list.splits)

context metric_observable
begin

definition inFlight :: "metricsSys \<Rightarrow> int" where
  "inFlight S = sum_list (map weight (mx_queue (sy_svc S) @ sy_hand S)) +
     obs (mx_pendingCounters (sy_svc S)) (mx_pendingLatency (sy_svc S)) +
     (\<Sum>b\<leftarrow>sy_batches S. obs (fst b) (snd b)) + obs (mem_counters (sy_store S)) (mem_lat (sy_store S))"

definition obsRanges :: "metricsSys \<Rightarrow> bool" where
  "obsRanges S \<longleftrightarrow> in64 (obs (mx_pendingCounters (sy_svc S)) (mx_pendingLatency (sy_svc S))) \<and>
     in64 (obs (mem_counters (sy_store S)) (mem_lat (sy_store S)))"

lemma step_conserves:
  assumes "metricsStep S S'" and "metricsInv S" and "obsRanges S"
    and "wrap64 (inFlight S) = wrap64 (sum_list (map weight (sy_accepted S)))"
  shows "obsRanges S' \<and> wrap64 (inFlight S') = wrap64 (sum_list (map weight (sy_accepted S')))"
  using assms
proof (induction rule: metricsStep.induct)
  case (mt_send e S)
  obtain res s where s: "ingestSend e (sy_svc S) = (res, s)" by fastforce
  note f = ingestSend_fields [OF s]
  show ?case
  proof (cases res)
    case None
    have "wrap64 (weight e + inFlight S) = wrap64 (weight e + sum_list (map weight (sy_accepted S)))"
      using mt_send(4) by (metis wrap64_add_right)
    then show ?thesis using mt_send(3) s f None
      by (simp add: afterMetricsSend_def obsRanges_def inFlight_def ac_simps)
  qed (use mt_send s f in \<open>simp add: afterMetricsSend_def obsRanges_def inFlight_def\<close>)
next
  case (mt_process e S)
  let ?s = "sy_svc S"
  have p: "obs (mx_pendingCounters (processEvent e ?s)) (mx_pendingLatency (processEvent e ?s)) =
      wrap64 (obs (mx_pendingCounters ?s) (mx_pendingLatency ?s) + weight e)"
    using mt_process(3) by (intro obs_process) (simp add: obsRanges_def)
  have h: "sum_list (map weight (sy_hand S)) = weight e + sum_list (map weight (remove1 e (sy_hand S)))"
    using mt_process(1) by (rule sum_list_map_remove1)
  let ?S' = "S\<lparr>sy_svc := processEvent e ?s, sy_hand := remove1 e (sy_hand S)\<rparr>"
  define o' where "o' = obs (mx_pendingCounters ?s) (mx_pendingLatency ?s) + weight e"
  define r where "r = inFlight S - o'"
  have "inFlight ?S' = r + wrap64 o'" "inFlight S = r + o'"
    using h by (simp_all add: inFlight_def p processEvent_pending(3) o'_def r_def)
  then have "wrap64 (inFlight ?S') = wrap64 (inFlight S)" by simp
  then show ?case using mt_process(3,4) by (simp add: obsRanges_def p wrap64_in64)
next
  case (mt_apply b S)
  let ?m = "sy_store S"
  have p: "obs (addCounters (fst b) (mem_counters ?m)) (addLatency (snd b) (mem_lat ?m)) =
      wrap64 (obs (mem_counters ?m) (mem_lat ?m) + obs (fst b) (snd b))"
    using mt_apply(1-3) by (intro obs_add) (auto simp: obsRanges_def metricsInv_def batchOK_def)
  have h: "(\<Sum>b\<leftarrow>sy_batches S. obs (fst b) (snd b)) = obs (fst b) (snd b) +
      (\<Sum>b\<leftarrow>remove1 b (sy_batches S). obs (fst b) (snd b))"
    using mt_apply(1) by (rule sum_list_map_remove1)
  let ?S' = "S\<lparr>sy_batches := remove1 b (sy_batches S), sy_store := snd (memStore_Apply (fst b) (snd b) ?m)\<rparr>"
  define o' where "o' = obs (mem_counters ?m) (mem_lat ?m) + obs (fst b) (snd b)"
  define r where "r = inFlight S - o'"
  have "inFlight ?S' = r + wrap64 o'" "inFlight S = r + o'"
    using h by (simp_all add: inFlight_def p memStore_Apply_def o'_def r_def)
  then have "wrap64 (inFlight ?S') = wrap64 (inFlight S)" by simp
  then show ?case using mt_apply(3,4) by (simp add: obsRanges_def memStore_Apply_def p wrap64_in64)
qed (auto simp: obsRanges_def inFlight_def workerTake_def drainPending_def obs_empty ac_simps split: list.splits)

lemma reach_conserves:
  assumes "metricsReach cfg S"
  shows "wrap64 (inFlight S) = wrap64 (sum_list (map weight (sy_accepted S)))"
proof -
  from assms have "metricsInv S \<and> obsRanges S \<and> wrap64 (inFlight S) = wrap64 (sum_list (map weight (sy_accepted S)))"
  proof (induction rule: rtranclp_induct)
    case base
    show ?case
      by (simp add: metricsInv_def batchOK_def obsRanges_def inFlight_def newMetricsSys_def newMemoryStore_def obs_empty)
  next
    case (step S S')
    then show ?case using metricsStep_inv step_conserves by blast
  qed
  then show ?thesis by blast
qed

end

text \<open>
  C22: no accepted event is lost or counted twice by the running collector. In every reachable
  state, for every key, the events with that key accepted so far equal those in the queue and in
  the hands of the workers plus the counter in the pending aggregates, in the batches being
  flushed and in the store, in 64-bit arithmetic; the same holds for the count and for the sum of
  every latency. Starting, stopping and concurrent flushes included.
\<close>

theorem metrics_conserved:
  assumes "metricsReach cfg S"
  shows "wrap64 (int (length (filter (\<lambda>e. counterKey e = k) (sy_accepted S)))) =
       wrap64 (int (length (filter (\<lambda>e. counterKey e = k) (mx_queue (sy_svc S) @ sy_hand S)))
         + counterOf (mx_pendingCounters (sy_svc S)) k + (\<Sum>b\<leftarrow>sy_batches S. counterOf (fst b) k)
         + counterOf (mem_counters (sy_store S)) k)
    \<and> wrap64 (int (length (filter (\<lambda>e. latencyKey e = k) (sy_accepted S)))) =
       wrap64 (int (length (filter (\<lambda>e. latencyKey e = k) (mx_queue (sy_svc S) @ sy_hand S)))
         + lat_Count (latencyOf (mx_pendingLatency (sy_svc S)) k) + (\<Sum>b\<leftarrow>sy_batches S. lat_Count (latencyOf (snd b) k))
         + lat_Count (latencyOf (mem_lat (sy_store S)) k))
    \<and> wrap64 (sum_list (map ev_DurationMS (filter (\<lambda>e. latencyKey e = k) (sy_accepted S)))) =
       wrap64 (sum_list (map ev_DurationMS (filter (\<lambda>e. latencyKey e = k) (mx_queue (sy_svc S) @ sy_hand S)))
         + lat_SumMS (latencyOf (mx_pendingLatency (sy_svc S)) k) + (\<Sum>b\<leftarrow>sy_batches S. lat_SumMS (latencyOf (snd b) k))
         + lat_SumMS (latencyOf (mem_lat (sy_store S)) k))"
  using counters.reach_conserves [OF assms, of k] latencyCounts.reach_conserves [OF assms, of k]
    latencySums.reach_conserves [OF assms, of k]
  by (simp_all only: counters.inFlight_def latencyCounts.inFlight_def latencySums.inFlight_def sum_hits sum_durationAt)

text \<open>
  Two limits of the collector. Keys are joined with dots, so different events can share a counter.
  \<open>Stop\<close> cancels the workers and flushes the aggregates, but not the events still in the queue: it
  reports no error and they are in no snapshot.
\<close>

lemma metric_keys_collide:
  "counterKey \<lparr>ev_Source = ''a.b'', ev_Name = ''c'', ev_Status = s, ev_DurationMS = d\<rparr> =
   counterKey \<lparr>ev_Source = ''a'', ev_Name = ''b.c'', ev_Status = s, ev_DurationMS = d'\<rparr>"
  by (simp add: counterKey_def)

lemma stop_drops_queued:
  "mx_started s \<Longrightarrow> mx_pendingCounters s = [] \<Longrightarrow> mx_pendingLatency s = [] \<Longrightarrow>
     metricsStop store None (\<lambda>sw. sw) (s, w) = (None, s\<lparr>mx_started := False\<rparr>, w)"
  by (simp add: metricsStop_def metricsFlush_def drainPending_def)

section \<open>What a snapshot shows\<close>

lemma pending_keys:
  "set (mkeys (mx_pendingCounters (fold processEvent es s))) = set (mkeys (mx_pendingCounters s)) \<union> counterKey ` set es"
  "set (mkeys (mx_pendingLatency (fold processEvent es s))) = set (mkeys (mx_pendingLatency s)) \<union> latencyKey ` set es"
  by (induction es arbitrary: s) (auto simp: processEvent_pending mkeys_mput simp del: set_map)

lemma pending_distinct:
  "batchOK (mx_pendingCounters s, mx_pendingLatency s) \<Longrightarrow>
     batchOK (mx_pendingCounters (fold processEvent es s), mx_pendingLatency (fold processEvent es s))"
  by (induction es arbitrary: s) (auto simp: batchOK_def processEvent_pending distinct_mput)

lemma sort_keys: "distinct xs \<Longrightarrow> sort xs = sorted_list_of_set (set xs)"
  by (simp add: sorted_list_of_set_sort_remdups distinct_remdups_id)

text \<open>The snapshot of a set of events: every key once, in byte order, with its exact numbers.\<close>

definition exactSnapshot :: "'f floatOps \<Rightarrow> metricEvent list \<Rightarrow> 'f metricSnapshot" where
  "exactSnapshot F es =
     \<lparr>snap_Counters = map (\<lambda>k. \<lparr>ctr_Name = k, ctr_Value = int (length (filter (\<lambda>e. counterKey e = k) es))\<rparr>)
        (sorted_list_of_set (counterKey ` set es)),
      snap_Latency = map (\<lambda>k. let here = filter (\<lambda>e. latencyKey e = k) es; tot = sum_list (map ev_DurationMS here) in
          \<lparr>lm_Name = k, lm_Count = int (length here), lm_SumMS = tot, lm_AvgMS = fo_quot F tot (int (length here))\<rparr>)
        (sorted_list_of_set (latencyKey ` set es))\<rparr>"

lemma flushed_store:
  assumes "metricsFlush (memoryMetrics F) (s, newMemoryStore) = (e, s', m)"
    and "batchOK (mx_pendingCounters s, mx_pendingLatency s)"
    and "\<And>k. in64 (counterOf (mx_pendingCounters s) k)"
    and "\<And>k. in64 (lat_Count (latencyOf (mx_pendingLatency s) k))"
    and "\<And>k. in64 (lat_SumMS (latencyOf (mx_pendingLatency s) k))"
  shows "e = None \<and> set (mkeys (mem_counters m)) = set (mkeys (mx_pendingCounters s)) \<and>
     set (mkeys (mem_lat m)) = set (mkeys (mx_pendingLatency s)) \<and>
     distinct (mkeys (mem_counters m)) \<and> distinct (mkeys (mem_lat m)) \<and>
     (\<forall>k. counterOf (mem_counters m) k = counterOf (mx_pendingCounters s) k) \<and>
     (\<forall>k. latencyOf (mem_lat m) k = latencyOf (mx_pendingLatency s) k)"
proof -
  let ?cs = "mx_pendingCounters s" and ?ls = "mx_pendingLatency s"
  have m: "e = None" "mem_counters m = addCounters ?cs []" "mem_lat m = addLatency ?ls []"
    using assms(1) by (auto simp: metricsFlush_def drainPending_def memoryMetrics_def memStore_Apply_def
        newMemoryStore_def split: if_splits)
  have d: "distinct (mkeys ?cs)" "distinct (mkeys ?ls)" using assms(2) by (simp_all add: batchOK_def)
  have "counterOf (mem_counters m) k = counterOf ?cs k" for k
    unfolding m counterOf_addCounters [OF d(1)] using assms(3) counterOf_notin [of k ?cs] by simp
  moreover have "latencyOf (mem_lat m) k = latencyOf ?ls k" for k
    unfolding m latencyOf_addLatency [OF d(2)] using assms(4,5) latencyOf_notin [of k ?ls] by (simp add: latencyOf_def)
  moreover have "distinct (mkeys (mem_counters m))" "distinct (mkeys (mem_lat m))"
    unfolding m by (intro addCounters_distinct addLatency_distinct, simp)+
  ultimately show ?thesis unfolding m(1) m(2,3) addCounters_keys addLatency_keys using m(1) by (simp del: set_map)
qed

lemma ingest_all:
  assumes "\<forall>e \<in> set es. ev_Source e \<noteq> '''' \<and> ev_Name e \<noteq> '''' \<and> ev_Status e \<noteq> '''' \<and> 0 \<le> ev_DurationMS e"
    and "mx_started s" and "int (length (mx_queue s) + length es) \<le> mc_QueueSize (mx_cfg s)"
  shows "fold (\<lambda>e s. snd (metricsIngest e s)) es s = s\<lparr>mx_queue := mx_queue s @ es\<rparr>"
  using assms
proof (induction es arbitrary: s)
  case (Cons e es)
  have "snd (metricsIngest e s) = s\<lparr>mx_queue := mx_queue s @ [e]\<rparr>"
    using Cons.prems by (simp add: metricsIngest_def ingestCheck_def ingestSend_def)
  with Cons show ?case by simp
qed simp

lemma perm_filter:
  assumes "mset xs = mset ys"
  shows "length (filter P xs) = length (filter P ys)"
    and "sum_list (map (f :: 'a \<Rightarrow> int) (filter P xs)) = sum_list (map f (filter P ys))"
proof -
  have "mset (filter P xs) = mset (filter P ys)" using assms by simp
  then show "length (filter P xs) = length (filter P ys)" by (rule mset_eq_length)
  from \<open>mset (filter P xs) = mset (filter P ys)\<close>
  show "sum_list (map f (filter P xs)) = sum_list (map f (filter P ys))"
    by (metis mset_map sum_mset_sum_list)
qed

lemma count_in64: "int (length es) \<le> maxInt64 \<Longrightarrow> in64 (int (length (filter P es)))"
  unfolding in64_def maxInt64_def using length_filter_le [of P es] by linarith

lemma sum_in64:
  assumes "\<forall>e \<in> set es. 0 \<le> ev_DurationMS e" and "sum_list (map ev_DurationMS es) \<le> maxInt64"
  shows "in64 (sum_list (map ev_DurationMS (filter P es)))"
proof -
  have "0 \<le> sum_list (map ev_DurationMS (filter P es)) \<and>
      sum_list (map ev_DurationMS (filter P es)) \<le> sum_list (map ev_DurationMS es)"
    using assms(1) by (induction es) auto
  with assms(2) show ?thesis by (simp add: in64_def maxInt64_def)
qed

text \<open>
  C23: from event to metric. Valid events that fit the queue of a started collector are all taken,
  and once the workers have processed them, in whatever order, and a flush has run, \<open>GET /metrics\<close>
  answers 200 with exactly these events: every counter key and every latency key once, sorted, with
  the number of its events, the sum of their durations and the quotient of the two. Bounded so that
  no number leaves the 64-bit range.
\<close>

theorem metrics_snapshot_exact:
  assumes "\<forall>e \<in> set es. ev_Source e \<noteq> '''' \<and> ev_Name e \<noteq> '''' \<and> ev_Status e \<noteq> '''' \<and> 0 \<le> ev_DurationMS e"
    and "int (length es) \<le> mc_QueueSize (mx_cfg (newMetrics cfg))"
    and "int (length es) \<le> maxInt64" and "sum_list (map ev_DurationMS es) \<le> maxInt64"
    and "s1 = fold (\<lambda>e s. snd (metricsIngest e s)) es (snd (metricsStart (newMetrics cfg)))"
    and "mset qs = mset (mx_queue s1)"
    and "metricsFlush (memoryMetrics F) (fold processEvent qs (s1\<lparr>mx_queue := []\<rparr>), newMemoryStore) = (err, s2, m)"
  shows "err = None \<and> getMetrics (memoryMetrics F) m = (writeJSON 200 (MetricsSnap (exactSnapshot F es)), m)"
proof -
  let ?s0 = "snd (metricsStart (newMetrics cfg))"
  define p where "p = fold processEvent qs (s1\<lparr>mx_queue := []\<rparr>)"
  have s1: "s1 = ?s0\<lparr>mx_queue := es\<rparr>"
    unfolding assms(5) using assms(1,2) by (subst ingest_all) simp_all
  have qs: "mset qs = mset es" using assms(6) s1 by simp
  then have same: "set qs = set es" by (rule mset_eq_setD)
  note conv = perm_filter [OF qs]
  have vals: "counterOf (mx_pendingCounters p) k = int (length (filter (\<lambda>e. counterKey e = k) es))"
    "lat_Count (latencyOf (mx_pendingLatency p) k) = int (length (filter (\<lambda>e. latencyKey e = k) es))"
    "lat_SumMS (latencyOf (mx_pendingLatency p) k) = sum_list (map ev_DurationMS (filter (\<lambda>e. latencyKey e = k) es))"
    for k
    using counters.obs_fold [of "s1\<lparr>mx_queue := []\<rparr>" k qs] latencyCounts.obs_fold [of "s1\<lparr>mx_queue := []\<rparr>" k qs]
      latencySums.obs_fold [of "s1\<lparr>mx_queue := []\<rparr>" k qs]
      count_in64 [OF assms(3)] sum_in64 [OF _ assms(4), of "\<lambda>e. latencyKey e = k"] assms(1)
    by (simp_all add: p_def s1 sum_hits sum_durationAt conv)
  have ranges: "in64 (counterOf (mx_pendingCounters p) k)" "in64 (lat_Count (latencyOf (mx_pendingLatency p) k))"
    "in64 (lat_SumMS (latencyOf (mx_pendingLatency p) k))" for k
    unfolding vals using count_in64 [OF assms(3)] sum_in64 [OF _ assms(4), of "\<lambda>e. latencyKey e = k"] assms(1) by simp_all
  have ok: "batchOK (mx_pendingCounters p, mx_pendingLatency p)"
    unfolding p_def by (rule pending_distinct) (simp add: s1 batchOK_def)
  from flushed_store [OF assms(7) [folded p_def] ok ranges]
  have m: "err = None" "set (mkeys (mem_counters m)) = counterKey ` set es" "set (mkeys (mem_lat m)) = latencyKey ` set es"
    "distinct (mkeys (mem_counters m))" "distinct (mkeys (mem_lat m))"
    "\<And>k. counterOf (mem_counters m) k = counterOf (mx_pendingCounters p) k"
    "\<And>k. latencyOf (mem_lat m) k = latencyOf (mx_pendingLatency p) k"
    unfolding p_def pending_keys same by (simp_all add: s1 del: set_map)
  have "0 < length (filter (\<lambda>e. latencyKey e = k) es)" if "k \<in> latencyKey ` set es" for k
    using that by (auto simp: filter_empty_conv)
  then have "buildSnapshot F (mem_counters m) (mem_lat m) = exactSnapshot F es"
    unfolding buildSnapshot_def exactSnapshot_def sort_keys [OF m(4)] sort_keys [OF m(5)] m(2,3)
    by (auto simp: m(6,7) vals Let_def intro!: map_cong)
  with m(1) show ?thesis by (simp add: getMetrics_def memoryMetrics_def memStore_Snapshot_def)
qed

end
