(* ===== verification/MetricsStores.thy ===== *)
theory MetricsStores
  imports Metrics
begin

text \<open>
  The two metric stores of \<open>internal/metricscollector/service.go\<close> agree: parsing what Redis prints,
  the documented behaviour of Redis hashes, and the simulation of the in-memory store by the hashes.
\<close>

section \<open>Reading back a printed integer\<close>

lemma digitChar_nonzero: "0 < d \<Longrightarrow> d < 10 \<Longrightarrow> digitChar d \<noteq> CHR ''0''"
  using digitVal_digitChar [of d] by (auto simp: digitVal_def)

lemma fmtNat_hd: "0 < n \<Longrightarrow> \<exists>c cs. fmtNat n = c # cs \<and> isDigit c \<and> c \<noteq> CHR ''0''"
proof (induction n rule: fmtNat.induct)
  case (1 n)
  show ?case
  proof (cases "n < 10")
    case True
    then show ?thesis using 1(2) digitChar_digit digitChar_nonzero by (subst fmtNat.simps) simp
  next
    case False
    with 1(1) obtain c cs where "fmtNat (n div 10) = c # cs" "isDigit c" "c \<noteq> CHR ''0''" by fastforce
    then show ?thesis using False by (subst fmtNat.simps) simp
  qed
qed

lemma digit_facts:
  assumes "isDigit c"
  shows "digitOf c = Some (digitVal c)" "digitVal c < 10" "c \<noteq> CHR ''_''" "c \<noteq> CHR ''-''" "c \<noteq> CHR ''+''" "baseChar 10 c"
  using assms by (auto simp: digitOf_def digitVal_def isDigit_def baseChar_def)

lemma digitsIn_digits:
  assumes "list_all isDigit s"
  shows "digitsIn 10 s = digitsVal s"
proof -
  have "filter (\<lambda>c. c \<noteq> CHR ''_'') s = s" using assms digit_facts(3) by (induction s) auto
  moreover have "foldl (\<lambda>n c. n * 10 + (case digitOf c of None \<Rightarrow> 0 | Some d \<Rightarrow> d)) a s = foldl (\<lambda>a c. 10 * a + digitVal c) a s" for a
    using assms by (induction s arbitrary: a) (simp_all add: digit_facts(1) mult.commute)
  ultimately show ?thesis by (simp add: digitsIn_def digitsVal_def)
qed

lemma underscores_digits: "list_all isDigit s \<Longrightarrow> underscoresOK a False s"
  using digit_facts(3) by (induction s arbitrary: a) auto

lemma stripLeft_trimmed: "trimSpace s = s \<Longrightarrow> stripLeft goSpaces s = s"
proof -
  assume "trimSpace s = s"
  with trimSpace_prefix [of s] have "length s \<le> length (stripLeft goSpaces s)" by (simp add: prefix_length_le)
  moreover obtain u where "s = u @ stripLeft goSpaces s" using stripLeft_suffix by blast
  ultimately show ?thesis by (metis append_eq_append_conv append_self_conv2 length_append le_add_same_cancel2 le_zero_eq
        length_0_conv add_le_same_cancel2)
qed

lemma fmtNat_zero: "fmtNat 0 = ''0''"
  by code_simp

lemma basePrefix_fmtNat:
  "basePrefix (fmtNat n) = (if n = 0 then Some (8, 1) else None)"
proof (cases "n = 0")
  case True
  show ?thesis using True by (simp add: basePrefix_def fmtNat_zero)
next
  case False
  with fmtNat_hd [of n] obtain c cs where "fmtNat n = c # cs" "c \<noteq> CHR ''0''" by auto
  then show ?thesis using False by (simp add: basePrefix_def split: list.split)
qed

lemma sscan_fmtNat:
  assumes "signOf (stripLeft goSpaces raw) = (neg, fmtNat n)" and "in64 (if neg then - int n else int n)"
  shows "sscanInt64 raw = Some (if neg then - int n else int n)"
proof (cases "n = 0")
  case True
  show ?thesis using assms True by (simp add: sscanInt64_def basePrefix_def digitsIn_def fmtNat_zero)
next
  case False
  have all: "takeWhile (baseChar 10) (fmtNat n) = fmtNat n"
    using fmtNat_digits [of n] by (auto simp: takeWhile_eq_all_conv list_all_iff digit_facts(6))
  show ?thesis using assms False
    by (cases neg) (simp_all add: sscanInt64_def basePrefix_fmtNat all fmtNat_nonempty underscores_digits fmtNat_digits
        digitsIn_digits digitsVal_fmtNat Let_def)
qed

lemma parseInt64_fmtD: "in64 i \<Longrightarrow> parseInt64 (fmtD i) = Some i"
proof -
  assume i: "in64 i"
  obtain c cs where hd: "fmtNat (nat i) = c # cs" "isDigit c" using hd_fmtNat by blast
  have s: "stripLeft goSpaces (fmtD i) = fmtD i" by (rule stripLeft_trimmed) simp
  show ?thesis
  proof (cases "i < 0")
    case True
    then have "signOf (stripLeft goSpaces (fmtD i)) = (True, fmtNat (nat (- i)))"
      unfolding s by (simp add: fmtD_def signOf_def)
    from sscan_fmtNat [OF this] True i show ?thesis by (simp add: parseInt64_def)
  next
    case False
    then have "signOf (stripLeft goSpaces (fmtD i)) = (False, fmtNat (nat i))"
      unfolding s using hd digit_facts(4,5) by (auto simp: fmtD_def signOf_def)
    from sscan_fmtNat [OF this] False i show ?thesis by (simp add: parseInt64_def)
  qed
qed

section \<open>Redis hashes\<close>

text \<open>
  Documented behaviour: a pipeline that reports no error has executed its \<open>HINCRBY\<close> commands in
  order, a missing field counting as zero and no result leaving the 64-bit range; \<open>HGETALL\<close>
  returns every field once with its decimal rendering. \<open>hashOf w key f\<close> is the value of a field.
\<close>

type_synonym hashes = "string \<Rightarrow> string \<Rightarrow> int64 option"

definition hincrby :: "string \<times> string \<times> int64 \<Rightarrow> hashes \<Rightarrow> hashes" where
  "hincrby cmd h = (case cmd of (key, f, v) \<Rightarrow>
     h(key := (h key)(f \<mapsto> (case h key f of None \<Rightarrow> 0 | Some x \<Rightarrow> x) + v)))"

definition hashLaws :: "'c hashClient \<Rightarrow> ('c \<Rightarrow> hashes) \<Rightarrow> bool" where
  "hashLaws client hashOf \<longleftrightarrow>
     (\<forall>cmds w w'. hc_Exec client cmds w = (None, w') \<longrightarrow> hashOf w' = fold hincrby cmds (hashOf w)) \<and>
     (\<forall>key w res w'. hc_HGetAll client key w = (res, w') \<longrightarrow> hashOf w' = hashOf w \<and>
        (case res of Inl e \<Rightarrow> True
         | Inr m \<Rightarrow> distinct (mkeys m) \<and> map_of m = (\<lambda>f. map_option fmtD (hashOf w key f)))) \<and>
     (\<forall>w key f n. hashOf w key f = Some n \<longrightarrow> in64 n)"

lemma hashLaws_exec:
  "hashLaws client hashOf \<Longrightarrow> hc_Exec client cmds w = (None, w') \<Longrightarrow> hashOf w' = fold hincrby cmds (hashOf w)"
  unfolding hashLaws_def by blast

lemma hashLaws_read:
  assumes "hashLaws client hashOf" and "hc_HGetAll client key w = (Inr m, w')"
  shows "hashOf w' = hashOf w" "distinct (mkeys m)" "map_of m = (\<lambda>f. map_option fmtD (hashOf w key f))"
proof -
  have "hashOf w' = hashOf w \<and>
      (case Inr m :: string + (string, string) gomap of Inl e \<Rightarrow> True
       | Inr m \<Rightarrow> distinct (mkeys m) \<and> map_of m = (\<lambda>f. map_option fmtD (hashOf w key f)))"
    using assms(1) [unfolded hashLaws_def, THEN conjunct2, THEN conjunct1, rule_format, OF assms(2)] .
  then show "hashOf w' = hashOf w" "distinct (mkeys m)" "map_of m = (\<lambda>f. map_option fmtD (hashOf w key f))" by simp_all
qed

lemma hashLaws_range: "hashLaws client hashOf \<Longrightarrow> hashOf w key f = Some n \<Longrightarrow> in64 n"
  unfolding hashLaws_def by blast

lemma hincrby_frame: "\<forall>c \<in> set cmds. fst c \<noteq> key \<Longrightarrow> fold hincrby cmds h key = h key"
  by (induction cmds arbitrary: h) (auto simp: hincrby_def split: prod.splits)

section \<open>Both stores show the same\<close>

definition addStep :: "(int64 \<Rightarrow> latencyAgg \<Rightarrow> latencyAgg) \<Rightarrow> string \<times> string \<Rightarrow> latencyMap \<Rightarrow> latencyMap" where
  "addStep upd kv acc = (case kv of (k, v) \<Rightarrow> (case parseInt64 v of None \<Rightarrow> acc
     | Some n \<Rightarrow> mput k (upd n (latencyOf acc k)) acc))"

lemma map_of_fst: "map_of m k = Some v \<Longrightarrow> k \<in> fst ` set m"
  by (auto dest: map_of_SomeD intro: rev_image_eqI)

lemma parsedCounters_map:
  assumes "distinct (mkeys raw)"
  shows "map_of (parsedCounters raw) k = (case map_of raw k of None \<Rightarrow> None | Some v \<Rightarrow> parseInt64 v)"
    and "distinct (mkeys (parsedCounters raw))"
proof -
  let ?f = "\<lambda>(k, v) acc. case parseInt64 v of None \<Rightarrow> acc | Some n \<Rightarrow> mput k n acc"
  have "map_of (fold ?f raw acc) k = (case map_of raw k of None \<Rightarrow> map_of acc k
      | Some v \<Rightarrow> (case parseInt64 v of None \<Rightarrow> map_of acc k | Some n \<Rightarrow> Some n))" for acc
    using assms by (induction raw arbitrary: acc) (auto split: option.splits dest: map_of_fst)
  then show "map_of (parsedCounters raw) k = (case map_of raw k of None \<Rightarrow> None | Some v \<Rightarrow> parseInt64 v)"
    by (simp add: parsedCounters_def split: option.splits)
  have "distinct (mkeys acc) \<Longrightarrow> distinct (mkeys (fold ?f raw acc))" for acc
    by (induction raw arbitrary: acc) (auto simp: distinct_mput split: option.splits)
  then show "distinct (mkeys (parsedCounters raw))" by (simp add: parsedCounters_def)
qed

lemma addStep_fold:
  assumes "distinct (mkeys raw)"
  shows "map_of (fold (addStep upd) raw acc) k = (case map_of raw k of None \<Rightarrow> map_of acc k
     | Some v \<Rightarrow> (case parseInt64 v of None \<Rightarrow> map_of acc k | Some n \<Rightarrow> Some (upd n (latencyOf acc k))))"
    and "distinct (mkeys acc) \<Longrightarrow> distinct (mkeys (fold (addStep upd) raw acc))"
proof -
  show "map_of (fold (addStep upd) raw acc) k = (case map_of raw k of None \<Rightarrow> map_of acc k
      | Some v \<Rightarrow> (case parseInt64 v of None \<Rightarrow> map_of acc k | Some n \<Rightarrow> Some (upd n (latencyOf acc k))))"
    using assms
    by (induction raw arbitrary: acc) (auto simp: addStep_def split: option.splits dest: map_of_fst)
  show "distinct (mkeys acc) \<Longrightarrow> distinct (mkeys (fold (addStep upd) raw acc))"
    by (induction raw arbitrary: acc) (auto simp: addStep_def distinct_mput split: option.splits)
qed

lemma parsedLatency_steps: "parsedLatency sumRaw countRaw =
    fold (addStep (\<lambda>n a. a\<lparr>lat_Count := n\<rparr>)) countRaw (fold (addStep (\<lambda>n a. a\<lparr>lat_SumMS := n\<rparr>)) sumRaw [])"
proof -
  have "addStep upd = (\<lambda>(k, v) acc. case parseInt64 v of None \<Rightarrow> acc | Some n \<Rightarrow> mput k (upd n (latencyOf acc k)) acc)" for upd
    by (intro ext) (simp add: addStep_def split: prod.split)
  then show ?thesis by (simp add: parsedLatency_def)
qed

lemma buildSnapshot_cong:
  assumes "map_of cs = map_of cs'" and "map_of ls = map_of ls'" and "distinct (mkeys cs)" and "distinct (mkeys cs')"
    and "distinct (mkeys ls)" and "distinct (mkeys ls')"
  shows "buildSnapshot F cs ls = buildSnapshot F cs' ls'"
proof -
  have "set (mkeys cs) = set (mkeys cs')" "set (mkeys ls) = set (mkeys ls')"
    using assms(1,2) by (metis dom_map_of_conv_image_fst set_map)+
  then have "sort (mkeys cs) = sort (mkeys cs')" "sort (mkeys ls) = sort (mkeys ls')"
    using assms(3-6) by (simp_all only: sort_keys)
  moreover have "counterOf cs = counterOf cs'" "latencyOf ls = latencyOf ls'"
    using assms(1,2) by (simp_all add: counterOf_def latencyOf_def fun_eq_iff)
  ultimately show ?thesis by (simp only: buildSnapshot_def)
qed

text \<open>
  The simulation. While a batch is applied the memory holds the 64-bit reduction of what the
  hashes hold; afterwards, the hashes being in range, the two are equal.
\<close>

abbreviation "hCounters \<equiv> ''metrics:counters''"
abbreviation "hSum \<equiv> ''metrics:latency:sum''"
abbreviation "hCount \<equiv> ''metrics:latency:count''"

definition storeSim :: "memoryStore \<Rightarrow> hashes \<Rightarrow> bool" where
  "storeSim m h \<longleftrightarrow> distinct (mkeys (mem_counters m)) \<and> distinct (mkeys (mem_lat m)) \<and>
     (\<forall>k. map_of (mem_counters m) k = map_option wrap64 (h hCounters k)) \<and>
     (\<forall>k. map_option lat_SumMS (map_of (mem_lat m) k) = map_option wrap64 (h hSum k)) \<and>
     (\<forall>k. map_option lat_Count (map_of (mem_lat m) k) = map_option wrap64 (h hCount k))"

lemma addCounters_sim:
  "(\<And>k. map_of m k = map_option wrap64 (h key k)) \<Longrightarrow>
     map_of (addCounters cs m) k = map_option wrap64 (fold hincrby (map (\<lambda>(k, v). (key, k, v)) cs) h key k)"
proof (induction cs arbitrary: m h)
  case (Cons x cs)
  obtain a v where x: "x = (a, v)" by fastforce
  have "map_of (mput a (wrap64 (counterOf m a + v)) m) k = map_option wrap64 (hincrby (key, a, v) h key k)" for k
    using Cons.prems by (simp add: hincrby_def counterOf_def split: option.split)
  then show ?case
    using Cons.IH [of "mput a (wrap64 (counterOf m a + v)) m" "hincrby (key, a, v) h"] by (simp add: x)
qed simp

abbreviation latencyCmds :: "latencyMap \<Rightarrow> (string \<times> string \<times> int64) list" where
  "latencyCmds ls \<equiv> concat (map (\<lambda>(k, v). [(hSum, k, lat_SumMS v), (hCount, k, lat_Count v)]) ls)"

lemma addLatency_sim:
  assumes "\<And>k. map_option lat_SumMS (map_of m k) = map_option wrap64 (h hSum k)"
    and "\<And>k. map_option lat_Count (map_of m k) = map_option wrap64 (h hCount k)"
  shows "map_option lat_SumMS (map_of (addLatency ls m) k) = map_option wrap64 (fold hincrby (latencyCmds ls) h hSum k) \<and>
     map_option lat_Count (map_of (addLatency ls m) k) = map_option wrap64 (fold hincrby (latencyCmds ls) h hCount k)"
  using assms
proof (induction ls arbitrary: m h)
  case (Cons x ls)
  obtain a v where x: "x = (a, v)" by fastforce
  let ?m = "mput a \<lparr>lat_SumMS = wrap64 (lat_SumMS (latencyOf m a) + lat_SumMS v),
      lat_Count = wrap64 (lat_Count (latencyOf m a) + lat_Count v)\<rparr> m"
  let ?h = "hincrby (hCount, a, lat_Count v) (hincrby (hSum, a, lat_SumMS v) h)"
  have old: "lat_SumMS (latencyOf m a) = wrap64 (case h hSum a of None \<Rightarrow> 0 | Some x \<Rightarrow> x)"
    "lat_Count (latencyOf m a) = wrap64 (case h hCount a of None \<Rightarrow> 0 | Some x \<Rightarrow> x)"
    using Cons.prems(1) [of a] Cons.prems(2) [of a]
    by (auto simp: latencyOf_def split: option.splits)
  have "map_option lat_SumMS (map_of ?m k) = map_option wrap64 (?h hSum k)"
    "map_option lat_Count (map_of ?m k) = map_option wrap64 (?h hCount k)" for k
    using Cons.prems by (simp_all add: hincrby_def old)
  then show ?case using Cons.IH [of ?m ?h] by (simp add: x)
qed simp

lemma apply_sim:
  assumes "hashLaws client hashOf" and "storeSim m (hashOf w)"
    and "mst_Apply (redisMetrics F client) cs ls w = (None, w')"
    and "mst_Apply (memoryMetrics F) cs ls m = (e, m')"
  shows "e = None \<and> storeSim m' (hashOf w')"
proof -
  let ?c = "map (\<lambda>(k, v). (hCounters, k, v)) cs"
  let ?h1 = "fold hincrby ?c (hashOf w)"
  have h: "hashOf w' = fold hincrby (latencyCmds ls) ?h1"
    using hashLaws_exec [OF assms(1)] assms(3) by (simp add: redisMetrics_def redisStore_Apply_def)
  have m': "e = None" "mem_counters m' = addCounters cs (mem_counters m)" "mem_lat m' = addLatency ls (mem_lat m)"
    using assms(4) by (auto simp: memoryMetrics_def memStore_Apply_def)
  have c: "hashOf w' hCounters = ?h1 hCounters" unfolding h by (rule hincrby_frame) auto
  have s: "?h1 hSum = hashOf w hSum" "?h1 hCount = hashOf w hCount" by (rule hincrby_frame, fastforce)+
  note sim = assms(2) [unfolded storeSim_def]
  have "map_of (mem_counters m') k = map_option wrap64 (hashOf w' hCounters k)" for k
    unfolding m' c by (rule addCounters_sim) (use sim in blast)
  moreover have "map_option lat_SumMS (map_of (mem_lat m') k) = map_option wrap64 (hashOf w' hSum k) \<and>
      map_option lat_Count (map_of (mem_lat m') k) = map_option wrap64 (hashOf w' hCount k)" for k
    unfolding m' h by (rule addLatency_sim) (use sim s in simp_all)
  ultimately show ?thesis
    using sim by (simp add: storeSim_def m' addCounters_distinct addLatency_distinct)
qed

fun applyAll :: "('f, 's) metricsStore \<Rightarrow> (counterMap \<times> latencyMap) list \<Rightarrow> 's \<Rightarrow> string option \<times> 's" where
  "applyAll store [] w = (None, w)"
| "applyAll store ((cs, ls) # bs) w = (case mst_Apply store cs ls w of
       (Some e, w1) \<Rightarrow> (Some e, w1) | (None, w1) \<Rightarrow> applyAll store bs w1)"

lemma applyAll_sim:
  assumes "hashLaws client hashOf" and "storeSim m (hashOf w)"
    and "applyAll (redisMetrics F client) bs w = (None, w')"
  shows "\<exists>m'. applyAll (memoryMetrics F) bs m = (None, m') \<and> storeSim m' (hashOf w')"
  using assms(2,3)
proof (induction bs arbitrary: m w)
  case (Cons b bs)
  obtain cs ls where b: "b = (cs, ls)" by fastforce
  obtain w1 where w1: "mst_Apply (redisMetrics F client) cs ls w = (None, w1)"
    "applyAll (redisMetrics F client) bs w1 = (None, w')"
    using Cons.prems(2) b by (auto split: prod.splits option.splits)
  obtain e m1 where m1: "mst_Apply (memoryMetrics F) cs ls m = (e, m1)" by fastforce
  from apply_sim [OF assms(1) Cons.prems(1) w1(1) m1] have "e = None" "storeSim m1 (hashOf w1)" by simp_all
  with Cons.IH [OF _ w1(2)] m1 b show ?case by simp
qed auto

lemma parsed_field:
  assumes "hashLaws client hashOf"
  shows "(case map_option fmtD (hashOf w key k) of None \<Rightarrow> None | Some v \<Rightarrow> parseInt64 v) = hashOf w key k"
  using hashLaws_range [OF assms] parseInt64_fmtD by (auto split: option.split)

lemma wrapped_field: "hashLaws client hashOf \<Longrightarrow> map_option wrap64 (hashOf w key k) = hashOf w key k"
  by (cases "hashOf w key k") (simp_all add: hashLaws_range)

lemma parsedLatency_map:
  assumes "hashLaws client hashOf" and "distinct (mkeys srows)" and "distinct (mkeys crows)"
    and "map_of srows = (\<lambda>f. map_option fmtD (hashOf w hSum f))"
    and "map_of crows = (\<lambda>f. map_option fmtD (hashOf w hCount f))"
    and "map_option lat_SumMS (map_of lat k) = hashOf w hSum k"
    and "map_option lat_Count (map_of lat k) = hashOf w hCount k"
  shows "map_of (parsedLatency srows crows) k = map_of lat k"
proof (cases "map_of lat k")
  case None
  with assms(6,7) have "hashOf w hSum k = None" "hashOf w hCount k = None" by simp_all
  with None show ?thesis
    unfolding parsedLatency_steps addStep_fold(1) [OF assms(3)] addStep_fold(1) [OF assms(2)] assms(4,5) by simp
next
  case (Some a)
  let ?upd = "\<lambda>n a. a\<lparr>lat_SumMS := n\<rparr> :: latencyAgg"
  have "hashOf w hSum k = Some (lat_SumMS a)" "hashOf w hCount k = Some (lat_Count a)"
    using Some assms(6,7) by simp_all
  then have p: "parseInt64 (fmtD (lat_SumMS a)) = Some (lat_SumMS a)" "parseInt64 (fmtD (lat_Count a)) = Some (lat_Count a)"
    "map_of srows k = Some (fmtD (lat_SumMS a))" "map_of crows k = Some (fmtD (lat_Count a))"
    using hashLaws_range [OF assms(1)] assms(4,5) by (auto intro: parseInt64_fmtD)
  have "map_of (fold (addStep ?upd) srows []) k = Some \<lparr>lat_SumMS = lat_SumMS a, lat_Count = 0\<rparr>"
    unfolding addStep_fold(1) [OF assms(2)] by (simp add: p latencyOf_def)
  then show ?thesis
    unfolding parsedLatency_steps addStep_fold(1) [OF assms(3)] by (simp add: p latencyOf_def Some)
qed

text \<open>
  C10: the two metric stores are interchangeable. Flush the same batches into an empty in-memory
  store and into empty Redis hashes; if Redis reported no error, neither did the memory, and a
  snapshot read from Redis is the snapshot of the memory: the same counters and latencies, sorted
  the same way, parsed back from decimal without loss.
\<close>

theorem metric_stores_equivalent:
  assumes "hashLaws client hashOf"
    and "\<forall>key \<in> {hCounters, hSum, hCount}. \<forall>f. hashOf w0 key f = None"
    and "applyAll (redisMetrics F client) bs w0 = (None, w)"
    and "mst_Snapshot (redisMetrics F client) w = (Inr snap, w')"
  shows "\<exists>m. applyAll (memoryMetrics F) bs newMemoryStore = (None, m) \<and>
     mst_Snapshot (memoryMetrics F) m = (Inr snap, m)"
proof -
  have "storeSim newMemoryStore (hashOf w0)"
    using assms(2) by (simp add: storeSim_def newMemoryStore_def)
  from applyAll_sim [OF assms(1) this assms(3)] obtain m
    where m: "applyAll (memoryMetrics F) bs newMemoryStore = (None, m)" "storeSim m (hashOf w)" by blast
  note sim = m(2) [unfolded storeSim_def wrapped_field [OF assms(1)]]
  obtain c w1 s w2 n where r: "hc_HGetAll client hCounters w = (Inr c, w1)" "hc_HGetAll client hSum w1 = (Inr s, w2)"
    "hc_HGetAll client hCount w2 = (Inr n, w')" "snap = buildSnapshot F (parsedCounters c) (parsedLatency s n)"
    using assms(4) by (auto simp: redisMetrics_def redisStore_Snapshot_def split: prod.splits sum.splits)
  note r1 = hashLaws_read [OF assms(1) r(1)] and r2 = hashLaws_read [OF assms(1) r(2)] and r3 = hashLaws_read [OF assms(1) r(3)]
  have same: "hashOf w1 = hashOf w" "hashOf w2 = hashOf w" using r1(1) r2(1) by simp_all
  have "map_of (parsedCounters c) = map_of (mem_counters m)"
    unfolding fun_eq_iff parsedCounters_map(1) [OF r1(2)] r1(3) parsed_field [OF assms(1)] using sim by simp
  moreover have "map_of (parsedLatency s n) = map_of (mem_lat m)"
    using parsedLatency_map [OF assms(1) r2(2) r3(2), of w] r2(3) r3(3) sim unfolding same by (intro ext) blast
  moreover have "distinct (mkeys (parsedLatency s n))"
    unfolding parsedLatency_steps by (intro addStep_fold(2) r2(2) r3(2)) simp
  ultimately have "snap = buildSnapshot F (mem_counters m) (mem_lat m)"
    unfolding r(4) by (intro buildSnapshot_cong parsedCounters_map(2) r1(2)) (use sim in simp_all)
  then show ?thesis using m(1) by (simp add: memoryMetrics_def memStore_Snapshot_def)
qed

section \<open>Witnesses\<close>

definition demoFloats :: "int floatOps" where
  "demoFloats = \<lparr>fo_zero = 0, fo_quot = (\<lambda>s n. s div n)\<rparr>"

definition demoEvent :: "string \<Rightarrow> int64 \<Rightarrow> metricEvent" where
  "demoEvent st d = \<lparr>ev_Source = ''http'', ev_Name = ''GET:/hello'', ev_Status = st, ev_DurationMS = d\<rparr>"

definition demoMetricsCfg :: metricsConfig where
  "demoMetricsCfg = \<lparr>mc_Workers = 1, mc_QueueSize = 4, mc_FlushInterval = 0\<rparr>"

text \<open>
  Hashes over one list. A field crows only while its value is in range, and an increment that
  would leave the range fails.
\<close>

type_synonym demoHashes = "(string \<times> string, int64) gomap"

definition demoHash :: "demoHashes \<Rightarrow> hashes" where
  "demoHash w key f = (case map_of w (key, f) of None \<Rightarrow> None | Some n \<Rightarrow> if in64 n then Some n else None)"

fun demoExec :: "(string \<times> string \<times> int64) list \<Rightarrow> demoHashes \<Rightarrow> string option \<times> demoHashes" where
  "demoExec [] w = (None, w)"
| "demoExec ((key, f, v) # cmds) w = (let n = (case demoHash w key f of None \<Rightarrow> 0 | Some x \<Rightarrow> x) + v in
     if in64 n then demoExec cmds (mput (key, f) n w) else (Some ''increment or decrement would overflow'', w))"

definition demoFields :: "demoHashes \<Rightarrow> string \<Rightarrow> string list" where
  "demoFields w key = filter (\<lambda>f. demoHash w key f \<noteq> None) (remdups (map snd (filter (\<lambda>kf. fst kf = key) (mkeys w))))"

definition demoHashClient :: "demoHashes hashClient" where
  "demoHashClient = \<lparr>hc_Exec = demoExec,
     hc_HGetAll = (\<lambda>key w. (Inr (map (\<lambda>f. (f, fmtD (the (demoHash w key f)))) (demoFields w key)), w))\<rparr>"

lemma demoHash_put: "in64 n \<Longrightarrow> demoHash (mput (key, f) n w) = (demoHash w)(key := (demoHash w key)(f \<mapsto> n))"
  by (intro ext) (simp add: demoHash_def)

lemma demoExec_ok: "demoExec cmds w = (None, w') \<Longrightarrow> demoHash w' = fold hincrby cmds (demoHash w)"
proof (induction cmds w rule: demoExec.induct)
  case (2 key f v cmds w)
  let ?n = "(case demoHash w key f of None \<Rightarrow> 0 | Some x \<Rightarrow> x) + v"
  have n: "in64 ?n" "demoExec cmds (mput (key, f) ?n w) = (None, w')"
    using 2(2) by (simp_all add: Let_def split: if_splits)
  have "demoHash (mput (key, f) ?n w) = hincrby (key, f, v) (demoHash w)"
    unfolding demoHash_put [OF n(1)] by (simp only: hincrby_def prod.case)
  with 2(1) [OF refl n] show ?case by (simp only: fold_Cons comp_apply)
qed simp

lemma demoFields_set: "f \<in> set (demoFields w key) \<longleftrightarrow> demoHash w key f \<noteq> None"
proof -
  have "f \<in> snd ` {kf \<in> set (mkeys w). fst kf = key}" if "demoHash w key f \<noteq> None"
  proof -
    from that have "map_of w (key, f) \<noteq> None" by (auto simp: demoHash_def split: option.splits)
    then have "(key, f) \<in> set (mkeys w)" by (simp add: map_of_eq_None_iff)
    then show ?thesis by force
  qed
  then show ?thesis by (auto simp: demoFields_def)
qed

lemma map_of_graph: "map_of (map (\<lambda>x. (x, g x)) xs) y = (if y \<in> set xs then Some (g y) else None)"
  by (induction xs) auto

lemma demo_hash_laws: "hashLaws demoHashClient demoHash"
  unfolding hashLaws_def
proof (intro conjI allI impI)
  fix cmds w w' assume "hc_Exec demoHashClient cmds w = (None, w')"
  then show "demoHash w' = fold hincrby cmds (demoHash w)" by (simp add: demoHashClient_def demoExec_ok)
next
  fix key w res w' assume r: "hc_HGetAll demoHashClient key w = (res, w')"
  then show "demoHash w' = demoHash w" by (simp add: demoHashClient_def)
  have "distinct (demoFields w key)" by (simp add: demoFields_def)
  with r show "case res of Inl e \<Rightarrow> True
      | Inr m \<Rightarrow> distinct (mkeys m) \<and> map_of m = (\<lambda>f. map_option fmtD (demoHash w key f))"
    by (auto simp: demoHashClient_def comp_def map_of_graph demoFields_set fun_eq_iff)
qed (auto simp: demoHash_def split: option.splits if_splits)

definition demoBatches :: "(counterMap \<times> latencyMap) list" where
  "demoBatches = [([(''http.GET:/hello.200'', 2)], [(''http.GET:/hello'', \<lparr>lat_SumMS = 7, lat_Count = 2\<rparr>)]),
     ([(''http.GET:/hello.200'', 1)], [(''http.GET:/hello'', \<lparr>lat_SumMS = 5, lat_Count = 1\<rparr>)])]"

theorem metric_stores_equivalent_witness:
  "snd (applyAll (memoryMetrics demoFloats) demoBatches newMemoryStore) =
     \<lparr>mem_counters = [(''http.GET:/hello.200'', 3)], mem_lat = [(''http.GET:/hello'', \<lparr>lat_SumMS = 12, lat_Count = 3\<rparr>)]\<rparr>
   \<and> fst (mst_Snapshot (redisMetrics demoFloats demoHashClient)
        (snd (applyAll (redisMetrics demoFloats demoHashClient) demoBatches []))) =
     Inr \<lparr>snap_Counters = [\<lparr>ctr_Name = ''http.GET:/hello.200'', ctr_Value = 3\<rparr>],
       snap_Latency = [\<lparr>lm_Name = ''http.GET:/hello'', lm_Count = 3, lm_SumMS = 12, lm_AvgMS = 4\<rparr>]\<rparr>"
proof -
  have mem: "applyAll (memoryMetrics demoFloats) demoBatches newMemoryStore = (None,
      \<lparr>mem_counters = [(''http.GET:/hello.200'', 3)], mem_lat = [(''http.GET:/hello'', \<lparr>lat_SumMS = 12, lat_Count = 3\<rparr>)]\<rparr>)"
    by code_simp
  have redis: "fst (applyAll (redisMetrics demoFloats demoHashClient) demoBatches []) = None" by code_simp
  then obtain w where w: "applyAll (redisMetrics demoFloats demoHashClient) demoBatches [] = (None, w)"
    by (metis prod.collapse)
  obtain snap w' where s: "mst_Snapshot (redisMetrics demoFloats demoHashClient) w = (Inr snap, w')"
    by (simp add: redisMetrics_def redisStore_Snapshot_def demoHashClient_def)
  have "\<forall>key \<in> {hCounters, hSum, hCount}. \<forall>f. demoHash [] key f = None" by (simp add: demoHash_def)
  from metric_stores_equivalent [OF demo_hash_laws this w s]
  have "mst_Snapshot (memoryMetrics demoFloats) (snd (applyAll (memoryMetrics demoFloats) demoBatches newMemoryStore)) =
      (Inr snap, snd (applyAll (memoryMetrics demoFloats) demoBatches newMemoryStore))" by auto
  moreover have "fst (mst_Snapshot (memoryMetrics demoFloats) (snd (applyAll (memoryMetrics demoFloats) demoBatches newMemoryStore))) =
      Inr \<lparr>snap_Counters = [\<lparr>ctr_Name = ''http.GET:/hello.200'', ctr_Value = 3\<rparr>],
       snap_Latency = [\<lparr>lm_Name = ''http.GET:/hello'', lm_Count = 3, lm_SumMS = 12, lm_AvgMS = 4\<rparr>]\<rparr>" by code_simp
  ultimately show ?thesis using mem w s by simp
qed

theorem metrics_snapshot_exact_witness:
  "fst (getMetrics (memoryMetrics demoFloats) (snd (snd (metricsFlush (memoryMetrics demoFloats)
      (fold processEvent [demoEvent ''500'' 4, demoEvent ''200'' 2]
        ((fold (\<lambda>e s. snd (metricsIngest e s)) [demoEvent ''200'' 2, demoEvent ''500'' 4]
          (snd (metricsStart (newMetrics demoMetricsCfg))))\<lparr>mx_queue := []\<rparr>), newMemoryStore))))) =
   writeJSON 200 (MetricsSnap (exactSnapshot demoFloats [demoEvent ''200'' 2, demoEvent ''500'' 4]))"
proof -
  let ?es = "[demoEvent ''200'' 2, demoEvent ''500'' 4]" and ?qs = "[demoEvent ''500'' 4, demoEvent ''200'' 2]"
  define s1 where "s1 = fold (\<lambda>e s. snd (metricsIngest e s)) ?es (snd (metricsStart (newMetrics demoMetricsCfg)))"
  obtain err s2 m where f: "metricsFlush (memoryMetrics demoFloats)
      (fold processEvent ?qs (s1\<lparr>mx_queue := []\<rparr>), newMemoryStore) = (err, s2, m)" by (metis prod.exhaust)
  have valid: "\<forall>e \<in> set ?es. ev_Source e \<noteq> '''' \<and> ev_Name e \<noteq> '''' \<and> ev_Status e \<noteq> '''' \<and> 0 \<le> ev_DurationMS e"
    by (simp add: demoEvent_def)
  have room: "int (length ?es) \<le> mc_QueueSize (mx_cfg (newMetrics demoMetricsCfg))"
    by (simp add: newMetrics_def demoMetricsCfg_def)
  have small: "int (length ?es) \<le> maxInt64" "sum_list (map ev_DurationMS ?es) \<le> maxInt64"
    by (simp_all add: maxInt64_def demoEvent_def)
  have "mx_queue s1 = ?es" unfolding s1_def using valid room by (subst ingest_all) simp_all
  then have perm: "mset ?qs = mset (mx_queue s1)" by simp
  from metrics_snapshot_exact [OF valid room small s1_def perm f] f show ?thesis
    unfolding s1_def by simp
qed

theorem metrics_conserved_witness:
  "\<exists>S :: metricsSys. length (sy_accepted S) = 1 \<and> wrap64 1 = wrap64 (counterOf (mx_pendingCounters (sy_svc S)) ''http.GET:/hello.200'')"
proof -
  let ?e = "demoEvent ''200'' 2"
  let ?S0 = "newMetricsSys demoMetricsCfg"
  let ?S1 = "?S0\<lparr>sy_svc := snd (metricsStart (sy_svc ?S0))\<rparr>"
  let ?S2 = "?S1\<lparr>sy_checked := ?e # sy_checked ?S1\<rparr>"
  let ?S3 = "afterMetricsSend ?e ?S2"
  let ?S4 = "?S3\<lparr>sy_svc := snd (workerTake (sy_svc ?S3)), sy_hand := ?e # sy_hand ?S3\<rparr>"
  let ?S5 = "?S4\<lparr>sy_svc := processEvent ?e (sy_svc ?S4), sy_hand := remove1 ?e (sy_hand ?S4)\<rparr>"
  have "metricsReach demoMetricsCfg ?S1" by (rule r_into_rtranclp, rule mt_start)
  also have "metricsStep ?S1 ?S2" by (rule mt_check) code_simp
  also have "metricsStep ?S2 ?S3" by (rule mt_send) simp
  also have "metricsStep ?S3 ?S4" by (rule mt_take) code_simp
  also have "metricsStep ?S4 ?S5" by (rule mt_process) simp
  finally have reach: "metricsReach demoMetricsCfg ?S5" .
  have facts: "length (sy_accepted ?S5) = 1" "filter (\<lambda>e. counterKey e = ''http.GET:/hello.200'') (sy_accepted ?S5) = [?e]"
    "mx_queue (sy_svc ?S5) @ sy_hand ?S5 = []" "sy_batches ?S5 = []" "mem_counters (sy_store ?S5) = []"
    by code_simp+
  from metrics_conserved [OF reach, of "''http.GET:/hello.200''"] facts
  have "wrap64 1 = wrap64 (counterOf (mx_pendingCounters (sy_svc ?S5)) ''http.GET:/hello.200'')" by simp
  with facts(1) show ?thesis by (intro exI [of _ ?S5] conjI)
qed

end
