(* ===== verification/Chat.thy ===== *)
theory Chat
  imports Tasks
begin

text \<open>
  The chat hub of \<open>internal/httpapp/chat_ws.go\<close>: rooms, clients with a buffered channel each, and
  the goroutines that read from and write to a connection.

  A client is a pointer in the code and a number here. A channel is its buffer and whether it is
  closed; sending on a closed channel and closing it twice panic, so the operations of the hub
  return \<open>Inl\<close> with the panic message there. The operations that run under the mutex are single
  steps; the goroutines of a connection interleave between them, which the step relation
  \<open>chatStep\<close> models with a program counter per client. The WebSocket library is not modelled: an
  upgrade, a read or a write may succeed or fail at any time.
\<close>

section \<open>State\<close>

record chatOutgoingMessage =
  msg_Type :: string
  msg_Room :: string
  msg_From :: string
  msg_Text :: string
  msg_Timestamp :: string

record chatClient =
  cl_room :: string
  cl_user :: string
  cl_buf :: "chatOutgoingMessage list"
  cl_closed :: bool
  cl_connOpen :: bool

record chatHub =
  hub_rooms :: "(string, nat list) gomap"
  hub_clients :: "(nat, chatClient) gomap"

definition chatDefaultRoom :: string where
  "chatDefaultRoom = ''lobby''"

definition chatSendBuffer :: nat where
  "chatSendBuffer = 16"

definition newChatHub :: chatHub where
  "newChatHub = \<lparr>hub_rooms = [], hub_clients = []\<rparr>"

definition roomClients :: "chatHub \<Rightarrow> string \<Rightarrow> nat list" where
  "roomClients h room = (case map_of (hub_rooms h) room of None \<Rightarrow> [] | Some cs \<Rightarrow> cs)"

lemma roomClients_clients [simp]: "roomClients (h\<lparr>hub_clients := x\<rparr>) = roomClients h"
  by (simp add: roomClients_def fun_eq_iff)

definition dropEmptyRoom :: "string \<Rightarrow> chatHub \<Rightarrow> chatHub" where
  "dropEmptyRoom room h =
     (if roomClients h room = [] then h\<lparr>hub_rooms := mdel room (hub_rooms h)\<rparr> else h)"

section \<open>Operations\<close>

definition resolveUser :: "authEnv \<Rightarrow> time \<Rightarrow> request \<Rightarrow> uint64 \<Rightarrow> string \<times> uint64" where
  "resolveUser env now r seq =
     (let authHeader = lookupStr (req_Header r) ''Authorization'';
          token = (if authHeader \<noteq> '''' then
              (case parseBearerToken authHeader of
                 Inl _ \<Rightarrow> None
               | Inr tok \<Rightarrow> (case validateAccessToken env now tok of
                     Inl _ \<Rightarrow> None | Inr (uid, _) \<Rightarrow> Some (''user-'' @ fmtD uid)))
            else None);
          q = trimSpace (lookupStr (req_Query r) ''user'')
      in (case token of
            Some u \<Rightarrow> (u, seq)
          | None \<Rightarrow> if q \<noteq> '''' then (q, seq)
                    else let i = seq + 1 in (''anon-'' @ fmtNat (unat i), i)))"

definition addClient :: "nat \<Rightarrow> chatHub \<Rightarrow> chatHub" where
  "addClient c h = (case map_of (hub_clients h) c of
       None \<Rightarrow> h
     | Some cl \<Rightarrow> h\<lparr>hub_rooms := mput (cl_room cl) (List.insert c (roomClients h (cl_room cl))) (hub_rooms h)\<rparr>)"

definition closeSend :: "nat \<Rightarrow> chatHub \<Rightarrow> string + chatHub" where
  "closeSend c h = (case map_of (hub_clients h) c of
       None \<Rightarrow> Inl ''close of nil channel''
     | Some cl \<Rightarrow> if cl_closed cl then Inl ''close of closed channel''
                  else Inr (h\<lparr>hub_clients := mput c (cl\<lparr>cl_closed := True\<rparr>) (hub_clients h)\<rparr>))"

definition safeCloseConn :: "nat \<Rightarrow> chatHub \<Rightarrow> chatHub" where
  "safeCloseConn c h = (case map_of (hub_clients h) c of
       None \<Rightarrow> h
     | Some cl \<Rightarrow> h\<lparr>hub_clients := mput c (cl\<lparr>cl_connOpen := False\<rparr>) (hub_clients h)\<rparr>)"

definition deleteFromRoom :: "string \<Rightarrow> nat \<Rightarrow> chatHub \<Rightarrow> chatHub" where
  "deleteFromRoom room c h = h\<lparr>hub_rooms := mput room (remove1 c (roomClients h room)) (hub_rooms h)\<rparr>"

definition removeClient :: "nat \<Rightarrow> chatHub \<Rightarrow> string + chatHub" where
  "removeClient c h = (case map_of (hub_clients h) c of
       None \<Rightarrow> Inr h
     | Some cl \<Rightarrow> (case map_of (hub_rooms h) (cl_room cl) of
           None \<Rightarrow> Inr h
         | Some cs \<Rightarrow>
             (case (if c \<in> set cs then closeSend c (deleteFromRoom (cl_room cl) c h) else Inr h) of
                Inl p \<Rightarrow> Inl p
              | Inr h' \<Rightarrow> Inr (dropEmptyRoom (cl_room cl) h'))))"

text \<open>The \<open>select\<close> of the broadcast loop for one client: send, or drop a client that is too slow.\<close>

definition offer :: "string \<Rightarrow> chatOutgoingMessage \<Rightarrow> nat \<Rightarrow> chatHub \<Rightarrow> string + chatHub" where
  "offer room msg c h = (case map_of (hub_clients h) c of
       None \<Rightarrow> Inl ''send on nil channel''
     | Some cl \<Rightarrow>
         if cl_closed cl then Inl ''send on closed channel''
         else if length (cl_buf cl) < chatSendBuffer
         then Inr (h\<lparr>hub_clients := mput c (cl\<lparr>cl_buf := cl_buf cl @ [msg]\<rparr>) (hub_clients h)\<rparr>)
         else (case closeSend c (deleteFromRoom room c h) of
             Inl p \<Rightarrow> Inl p | Inr h' \<Rightarrow> Inr (safeCloseConn c h')))"

fun offerAll :: "string \<Rightarrow> chatOutgoingMessage \<Rightarrow> nat list \<Rightarrow> chatHub \<Rightarrow> string + chatHub" where
  "offerAll room msg [] h = Inr h"
| "offerAll room msg (c # cs) h = (case offer room msg c h of
       Inl p \<Rightarrow> Inl p | Inr h' \<Rightarrow> offerAll room msg cs h')"

definition broadcast :: "string \<Rightarrow> chatOutgoingMessage \<Rightarrow> chatHub \<Rightarrow> string + chatHub" where
  "broadcast room msg h = (case offerAll room msg (roomClients h room) h of
       Inl p \<Rightarrow> Inl p | Inr h' \<Rightarrow> Inr (dropEmptyRoom room h'))"

definition systemMessage :: "time \<Rightarrow> string \<Rightarrow> string \<Rightarrow> chatOutgoingMessage" where
  "systemMessage now room text' = \<lparr>msg_Type = ''system'', msg_Room = room, msg_From = ''system'',
     msg_Text = text', msg_Timestamp = fmtRFC3339 now\<rparr>"

text \<open>
  \<open>serveWS\<close> up to \<open>addClient\<close>, and the broadcast that follows it. \<open>c\<close> is the fresh client.
\<close>

definition serveWS_register :: "authEnv \<Rightarrow> time \<Rightarrow> request \<Rightarrow> nat \<Rightarrow> uint64 \<times> chatHub \<Rightarrow> uint64 \<times> chatHub" where
  "serveWS_register env now r c st =
     (let (seq, h) = st;
          room0 = trimSpace (lookupStr (req_Query r) ''room'');
          room = (if room0 = '''' then chatDefaultRoom else room0);
          (user, seq') = resolveUser env now r seq;
          cl = \<lparr>cl_room = room, cl_user = user, cl_buf = [], cl_closed = False, cl_connOpen = True\<rparr>
      in (seq', addClient c (h\<lparr>hub_clients := mput c cl (hub_clients h)\<rparr>)))"

definition serveWS_announce :: "time \<Rightarrow> nat \<Rightarrow> chatHub \<Rightarrow> string + chatHub" where
  "serveWS_announce now c h = (case map_of (hub_clients h) c of
       None \<Rightarrow> Inr h
     | Some cl \<Rightarrow> broadcast (cl_room cl) (systemMessage now (cl_room cl) (cl_user cl @ '' joined'')) h)"

text \<open>One round of the read loop: the payload is what \<open>json.Unmarshal\<close> yields on it.\<close>

definition readMessage :: "time \<Rightarrow> nat \<Rightarrow> string option \<Rightarrow> chatHub \<Rightarrow> string + chatHub" where
  "readMessage now c payload h = (case map_of (hub_clients h) c of
       None \<Rightarrow> Inr h
     | Some cl \<Rightarrow> (case payload of
           None \<Rightarrow> Inr h
         | Some text0 \<Rightarrow>
             let text' = trimSpace text0
             in if text' = '''' then Inr h
                else broadcast (cl_room cl)
                  \<lparr>msg_Type = ''message'', msg_Room = cl_room cl, msg_From = cl_user cl, msg_Text = text',
                   msg_Timestamp = fmtRFC3339 now\<rparr> h))"

text \<open>The deferred function of the read loop, after \<open>removeClient\<close>.\<close>

definition readLoop_leave :: "time \<Rightarrow> nat \<Rightarrow> chatHub \<Rightarrow> string + chatHub" where
  "readLoop_leave now c h = (case map_of (hub_clients h) c of
       None \<Rightarrow> Inr h
     | Some cl \<Rightarrow> broadcast (cl_room cl) (systemMessage now (cl_room cl) (cl_user cl @ '' left''))
         (safeCloseConn c h))"

text \<open>One round of the write loop: the next message, taken from the channel.\<close>

definition writeLoop_take :: "nat \<Rightarrow> chatHub \<Rightarrow> (chatOutgoingMessage \<times> chatHub) option" where
  "writeLoop_take c h = (case map_of (hub_clients h) c of
       None \<Rightarrow> None
     | Some cl \<Rightarrow> (case cl_buf cl of
           [] \<Rightarrow> None
         | m # ms \<Rightarrow> Some (m, h\<lparr>hub_clients := mput c (cl\<lparr>cl_buf := ms\<rparr>) (hub_clients h)\<rparr>)))"

section \<open>Goroutines\<close>

datatype readerPC = Registered | Reading | Removed | Gone

record chatState =
  ch_seq :: uint64
  ch_hub :: chatHub
  ch_pc :: "(nat, readerPC) gomap"
  ch_writers :: "nat list"
  ch_panic :: "string option"

definition withHub :: "chatState \<Rightarrow> nat \<Rightarrow> readerPC \<Rightarrow> string + chatHub \<Rightarrow> chatState" where
  "withHub s c pc res = (case res of
       Inl p \<Rightarrow> s\<lparr>ch_panic := Some p\<rparr>
     | Inr h \<Rightarrow> s\<lparr>ch_hub := h, ch_pc := mput c pc (ch_pc s)\<rparr>)"

definition newChatState :: chatState where
  "newChatState = \<lparr>ch_seq = 0, ch_hub = newChatHub, ch_pc = [], ch_writers = [], ch_panic = None\<rparr>"

inductive chatStep :: "authEnv \<Rightarrow> chatState \<Rightarrow> chatState \<Rightarrow> bool" for env :: authEnv where
  chat_connect: "map_of (ch_pc s) c = None \<Longrightarrow> serveWS_register env now r c (ch_seq s, ch_hub s) = (seq', h') \<Longrightarrow>
     chatStep env s (s\<lparr>ch_seq := seq', ch_hub := h', ch_pc := mput c Registered (ch_pc s)\<rparr>)"
| chat_announce: "map_of (ch_pc s) c = Some Registered \<Longrightarrow>
     chatStep env s ((withHub s c Reading (serveWS_announce now c (ch_hub s)))\<lparr>ch_writers := c # ch_writers s\<rparr>)"
| chat_read: "map_of (ch_pc s) c = Some Reading \<Longrightarrow>
     chatStep env s (withHub s c Reading (readMessage now c payload (ch_hub s)))"
| chat_disconnect: "map_of (ch_pc s) c = Some Reading \<Longrightarrow>
     chatStep env s (withHub s c Removed (removeClient c (ch_hub s)))"
| chat_leave: "map_of (ch_pc s) c = Some Removed \<Longrightarrow>
     chatStep env s (withHub s c Gone (readLoop_leave now c (ch_hub s)))"
| chat_write: "c \<in> set (ch_writers s) \<Longrightarrow> writeLoop_take c (ch_hub s) = Some (m, h') \<Longrightarrow>
     chatStep env s (s\<lparr>ch_hub := h'\<rparr>)"
| chat_write_error: "c \<in> set (ch_writers s) \<Longrightarrow> writeLoop_take c (ch_hub s) = Some (m, h') \<Longrightarrow>
     chatStep env s (s\<lparr>ch_hub := h', ch_writers := remove1 c (ch_writers s)\<rparr>)"
| chat_write_end: "c \<in> set (ch_writers s) \<Longrightarrow> map_of (hub_clients (ch_hub s)) c = Some cl \<Longrightarrow>
     cl_closed cl \<Longrightarrow> cl_buf cl = [] \<Longrightarrow> chatStep env s (s\<lparr>ch_writers := remove1 c (ch_writers s)\<rparr>)"

inductive_cases chatStep_elim: "chatStep env s s'"

abbreviation chatReach :: "authEnv \<Rightarrow> chatState \<Rightarrow> bool" where
  "chatReach env \<equiv> (chatStep env)\<^sup>*\<^sup>* newChatState"

section \<open>The hub invariant\<close>

text \<open>
  Members of a room are open clients of that room; buffers are bounded and hold messages of the
  client's room only. Between two operations no room is empty.
\<close>

definition hubOK :: "chatHub \<Rightarrow> bool" where
  [inv_defs]: "hubOK h \<longleftrightarrow>
     (\<forall>room cs. map_of (hub_rooms h) room = Some cs \<longrightarrow> distinct cs \<and>
        (\<forall>c \<in> set cs. \<exists>cl. map_of (hub_clients h) c = Some cl \<and> cl_room cl = room \<and> \<not> cl_closed cl)) \<and>
     (\<forall>c cl. map_of (hub_clients h) c = Some cl \<longrightarrow> length (cl_buf cl) \<le> chatSendBuffer \<and>
        (\<forall>m \<in> set (cl_buf cl). msg_Room m = cl_room cl))"

definition hubInv :: "chatHub \<Rightarrow> bool" where
  [inv_defs]: "hubInv h \<longleftrightarrow> hubOK h \<and> (\<forall>room. map_of (hub_rooms h) room \<noteq> Some [])"

lemma hubOK_member: "hubOK h \<Longrightarrow> c \<in> set (roomClients h room) \<Longrightarrow>
    \<exists>cl. map_of (hub_clients h) c = Some cl \<and> cl_room cl = room \<and> \<not> cl_closed cl"
  by (cases "map_of (hub_rooms h) room") (simp_all add: hubOK_def roomClients_def)

lemma hubOK_distinct: "hubOK h \<Longrightarrow> distinct (roomClients h room)"
  by (auto simp: hubOK_def roomClients_def split: option.splits)

lemma hubOK_client: "hubOK h \<Longrightarrow> map_of (hub_clients h) c = Some cl \<Longrightarrow>
    length (cl_buf cl) \<le> chatSendBuffer \<and> (\<forall>m \<in> set (cl_buf cl). msg_Room m = cl_room cl)"
  by (auto simp: hubOK_def)

lemma hubOK_intro:
  assumes "\<And>room. distinct (roomClients h room)"
    and "\<And>room c. c \<in> set (roomClients h room) \<Longrightarrow>
      \<exists>cl. map_of (hub_clients h) c = Some cl \<and> cl_room cl = room \<and> \<not> cl_closed cl"
    and "\<And>c cl. map_of (hub_clients h) c = Some cl \<Longrightarrow>
      length (cl_buf cl) \<le> chatSendBuffer \<and> (\<forall>m \<in> set (cl_buf cl). msg_Room m = cl_room cl)"
  shows "hubOK h"
  unfolding hubOK_def
proof (intro conjI allI impI ballI)
  fix room cs
  assume "map_of (hub_rooms h) room = Some cs"
  then have cs: "roomClients h room = cs" by (simp add: roomClients_def)
  show "distinct cs" using assms(1) [of room] cs by simp
  show "\<exists>cl. map_of (hub_clients h) c = Some cl \<and> cl_room cl = room \<and> \<not> cl_closed cl" if "c \<in> set cs" for c
    using assms(2) [of c room] cs that by simp
qed (use assms(3) in auto)

text \<open>What one offer does to a client.\<close>

definition deliver :: "chatOutgoingMessage \<Rightarrow> chatClient \<Rightarrow> chatClient" where
  "deliver msg cl = (if length (cl_buf cl) < chatSendBuffer then cl\<lparr>cl_buf := cl_buf cl @ [msg]\<rparr>
     else cl\<lparr>cl_closed := True, cl_connOpen := False\<rparr>)"

definition hasSpace :: "chatHub \<Rightarrow> nat \<Rightarrow> bool" where
  "hasSpace h c = (case map_of (hub_clients h) c of
       None \<Rightarrow> False | Some cl \<Rightarrow> length (cl_buf cl) < chatSendBuffer)"

lemma offer_spec:
  assumes "map_of (hub_clients h) c = Some cl" and "\<not> cl_closed cl"
  shows "\<exists>h'. offer room msg c h = Inr h' \<and>
     map_of (hub_clients h') = (map_of (hub_clients h))(c \<mapsto> deliver msg cl) \<and>
     roomClients h' = (if hasSpace h c then roomClients h
        else (roomClients h)(room := remove1 c (roomClients h room))) \<and>
     (\<forall>r. r \<noteq> room \<longrightarrow> map_of (hub_rooms h') r = map_of (hub_rooms h) r)"
  using assms
  by (auto simp: offer_def deliver_def hasSpace_def closeSend_def deleteFromRoom_def safeCloseConn_def
      roomClients_def fun_eq_iff)

lemma offerAll_spec:
  assumes "distinct cs" and "\<And>c. c \<in> set cs \<Longrightarrow> \<exists>cl. map_of (hub_clients h) c = Some cl \<and> \<not> cl_closed cl"
  shows "\<exists>h'. offerAll room msg cs h = Inr h' \<and>
     map_of (hub_clients h') = (\<lambda>c. if c \<in> set cs then map_option (deliver msg) (map_of (hub_clients h) c)
        else map_of (hub_clients h) c) \<and>
     roomClients h' room = fold (\<lambda>c xs. if hasSpace h c then xs else remove1 c xs) cs (roomClients h room) \<and>
     (\<forall>r. r \<noteq> room \<longrightarrow> map_of (hub_rooms h') r = map_of (hub_rooms h) r)"
  using assms
proof (induction cs arbitrary: h)
  case Nil
  then show ?case by (simp add: fun_eq_iff)
next
  case (Cons c cs)
  obtain cl where cl: "map_of (hub_clients h) c = Some cl" "\<not> cl_closed cl" using Cons.prems(2) by auto
  obtain h1 where h1: "offer room msg c h = Inr h1"
      "map_of (hub_clients h1) = (map_of (hub_clients h))(c \<mapsto> deliver msg cl)"
      "roomClients h1 = (if hasSpace h c then roomClients h else (roomClients h)(room := remove1 c (roomClients h room)))"
      "\<forall>r. r \<noteq> room \<longrightarrow> map_of (hub_rooms h1) r = map_of (hub_rooms h) r"
    using offer_spec [OF cl] by blast
  have "distinct cs" and nc: "c \<notin> set cs" using Cons.prems(1) by auto
  moreover have "\<exists>cl. map_of (hub_clients h1) d = Some cl \<and> \<not> cl_closed cl" if "d \<in> set cs" for d
    using that nc Cons.prems(2) [of d] h1(2) by auto
  ultimately obtain h' where h': "offerAll room msg cs h1 = Inr h'"
      "map_of (hub_clients h') = (\<lambda>c. if c \<in> set cs then map_option (deliver msg) (map_of (hub_clients h1) c)
        else map_of (hub_clients h1) c)"
      "roomClients h' room = fold (\<lambda>c xs. if hasSpace h1 c then xs else remove1 c xs) cs (roomClients h1 room)"
      "\<forall>r. r \<noteq> room \<longrightarrow> map_of (hub_rooms h') r = map_of (hub_rooms h1) r"
    using Cons.IH [of h1] by blast
  have "fold (\<lambda>c xs. if hasSpace h1 c then xs else remove1 c xs) cs ys
      = fold (\<lambda>c xs. if hasSpace h c then xs else remove1 c xs) cs ys" for ys
    by (rule fold_cong) (use nc h1(2) in \<open>auto simp: hasSpace_def fun_eq_iff\<close>)
  with h1 h' nc cl show ?case by (intro exI [of _ h']) (auto simp: fun_eq_iff)
qed

lemma fold_remove1:
  "distinct ys \<Longrightarrow> fold (\<lambda>c xs. if P c then xs else remove1 c xs) cs ys = filter (\<lambda>c. c \<in> set cs \<longrightarrow> P c) ys"
  by (induction cs arbitrary: ys)
    (auto simp: distinct_remove1_removeAll removeAll_filter_not_eq intro!: filter_cong)

lemma broadcast_spec:
  assumes "hubInv h" and "msg_Room msg = room"
  shows "\<exists>h'. broadcast room msg h = Inr h' \<and> hubInv h' \<and>
     map_of (hub_clients h') = (\<lambda>c. if c \<in> set (roomClients h room)
        then map_option (deliver msg) (map_of (hub_clients h) c) else map_of (hub_clients h) c) \<and>
     roomClients h' = (roomClients h)(room := filter (hasSpace h) (roomClients h room))"
proof -
  have ok: "hubOK h" using assms(1) by (simp add: hubInv_def)
  note dist = hubOK_distinct [OF ok, of room]
  obtain h1 where h1: "offerAll room msg (roomClients h room) h = Inr h1"
     "map_of (hub_clients h1) = (\<lambda>c. if c \<in> set (roomClients h room)
        then map_option (deliver msg) (map_of (hub_clients h) c) else map_of (hub_clients h) c)"
     "roomClients h1 room = filter (hasSpace h) (roomClients h room)"
     "\<forall>r. r \<noteq> room \<longrightarrow> map_of (hub_rooms h1) r = map_of (hub_rooms h) r"
  proof -
    have "\<And>c. c \<in> set (roomClients h room) \<Longrightarrow> \<exists>cl. map_of (hub_clients h) c = Some cl \<and> \<not> cl_closed cl"
      using hubOK_member [OF ok] by blast
    moreover have "filter (\<lambda>c. c \<in> set (roomClients h room) \<longrightarrow> hasSpace h c) (roomClients h room)
        = filter (hasSpace h) (roomClients h room)"
      by (rule filter_cong) auto
    ultimately show ?thesis
      using offerAll_spec [OF dist, of h room msg] that unfolding fold_remove1 [OF dist] by auto
  qed
  define h' where "h' = dropEmptyRoom room h1"
  have cl: "hub_clients h' = hub_clients h1" by (simp add: h'_def dropEmptyRoom_def)
  have rooms: "roomClients h' = (roomClients h)(room := filter (hasSpace h) (roomClients h room))"
    using h1(3,4) by (auto simp: h'_def dropEmptyRoom_def roomClients_def fun_eq_iff)
  have none: "map_of (hub_rooms h') r \<noteq> Some []" for r
    using assms(1) h1(4) by (cases "r = room") (auto simp: h'_def dropEmptyRoom_def roomClients_def hubInv_def)
  have "hubOK h'"
  proof (rule hubOK_intro)
    show "distinct (roomClients h' r)" for r using hubOK_distinct [OF ok] by (simp add: rooms)
    fix r c
    assume "c \<in> set (roomClients h' r)"
    then have c: "c \<in> set (roomClients h r)" "r = room \<Longrightarrow> hasSpace h c" by (auto simp: rooms split: if_splits)
    obtain x where x: "map_of (hub_clients h) c = Some x" "cl_room x = r" "\<not> cl_closed x"
      using hubOK_member [OF ok c(1)] by blast
    show "\<exists>cl. map_of (hub_clients h') c = Some cl \<and> cl_room cl = r \<and> \<not> cl_closed cl"
    proof (cases "c \<in> set (roomClients h room)")
      case True
      then have "r = room" using hubOK_member [OF ok True] x by auto
      with c(2) x True show ?thesis by (simp add: cl h1(2) hasSpace_def deliver_def)
    qed (use x in \<open>simp add: cl h1(2)\<close>)
  next
    fix c x
    assume "map_of (hub_clients h') c = Some x"
    then show "length (cl_buf x) \<le> chatSendBuffer \<and> (\<forall>m \<in> set (cl_buf x). msg_Room m = cl_room x)"
      using hubOK_client [OF ok, of c] hubOK_member [OF ok, of c room] assms(2)
      by (auto simp: cl h1(2) deliver_def split: if_splits)
  qed
  with none h1 cl rooms show ?thesis
    by (intro exI [of _ h']) (simp add: broadcast_def hubInv_def h'_def)
qed

section \<open>Every operation keeps the invariant and does not panic\<close>

lemma hubInv_hubOK: "hubInv h \<Longrightarrow> hubOK h"
  by (simp add: hubInv_def)

lemma safeCloseConn_inv: "hubInv h \<Longrightarrow> hubInv (safeCloseConn c h)"
proof -
  assume inv: "hubInv h"
  have rooms: "hub_rooms (safeCloseConn c h) = hub_rooms h"
    by (simp add: safeCloseConn_def split: option.splits)
  then have rc: "roomClients (safeCloseConn c h) = roomClients h" by (simp add: roomClients_def fun_eq_iff)
  have "hubOK (safeCloseConn c h)"
  proof (rule hubOK_intro)
    show "distinct (roomClients (safeCloseConn c h) room)" for room
      using hubOK_distinct [OF hubInv_hubOK [OF inv]] by (simp add: rc)
    show "\<exists>cl. map_of (hub_clients (safeCloseConn c h)) d = Some cl \<and> cl_room cl = room \<and> \<not> cl_closed cl"
      if "d \<in> set (roomClients (safeCloseConn c h) room)" for room d
      using hubOK_member [OF hubInv_hubOK [OF inv], of d room] that
      by (auto simp: rc safeCloseConn_def split: option.splits)
    show "length (cl_buf cl) \<le> chatSendBuffer \<and> (\<forall>m \<in> set (cl_buf cl). msg_Room m = cl_room cl)"
      if "map_of (hub_clients (safeCloseConn c h)) d = Some cl" for d cl
      using hubOK_client [OF hubInv_hubOK [OF inv]] that
      by (auto simp: safeCloseConn_def split: option.splits if_splits)
  qed
  with inv rooms show ?thesis by (simp add: hubInv_def)
qed

lemma addClient_inv:
  assumes "hubInv h" and "map_of (hub_clients h) c = None"
  shows "hubInv (addClient c (h\<lparr>hub_clients := mput c \<lparr>cl_room = room, cl_user = u, cl_buf = [],
     cl_closed = False, cl_connOpen = True\<rparr> (hub_clients h)\<rparr>))" (is "hubInv ?h")
proof -
  note ok = hubInv_hubOK [OF assms(1)]
  have fresh: "c \<notin> set (roomClients h r)" for r using hubOK_member [OF ok, of c r] assms(2) by auto
  have rc: "roomClients ?h = (roomClients h)(room := List.insert c (roomClients h room))"
    by (auto simp: addClient_def roomClients_def fun_eq_iff)
  have cl: "map_of (hub_clients ?h) = (map_of (hub_clients h))(c \<mapsto> \<lparr>cl_room = room, cl_user = u, cl_buf = [],
     cl_closed = False, cl_connOpen = True\<rparr>)"
    by (auto simp: addClient_def fun_eq_iff)
  have "hubOK ?h"
  proof (rule hubOK_intro)
    show "distinct (roomClients ?h r)" for r using hubOK_distinct [OF ok] by (simp add: rc)
    show "\<exists>x. map_of (hub_clients ?h) d = Some x \<and> cl_room x = r \<and> \<not> cl_closed x"
      if "d \<in> set (roomClients ?h r)" for r d
      using that hubOK_member [OF ok, of d r] fresh [of r] unfolding rc cl by (auto split: if_splits)
    show "length (cl_buf x) \<le> chatSendBuffer \<and> (\<forall>m \<in> set (cl_buf x). msg_Room m = cl_room x)"
      if "map_of (hub_clients ?h) d = Some x" for d x
      using that hubOK_client [OF ok, of d x] unfolding cl by (auto split: if_splits)
  qed
  moreover have "map_of (hub_rooms ?h) r \<noteq> Some []" for r
    using assms(1) by (auto simp: addClient_def hubInv_def List.insert_def)
  ultimately show ?thesis by (simp add: hubInv_def)
qed

lemma removeClient_spec:
  assumes "hubInv h"
  shows "\<exists>h'. removeClient c h = Inr h' \<and> hubInv h' \<and>
     dom (map_of (hub_clients h')) = dom (map_of (hub_clients h)) \<and>
     (\<forall>cl. map_of (hub_clients h) c = Some cl \<longrightarrow> c \<in> set (roomClients h (cl_room cl)) \<longrightarrow>
        map_of (hub_clients h') = (map_of (hub_clients h))(c \<mapsto> cl\<lparr>cl_closed := True\<rparr>) \<and>
        roomClients h' = (roomClients h)(cl_room cl := remove1 c (roomClients h (cl_room cl))))"
proof (cases "\<exists>cl. map_of (hub_clients h) c = Some cl \<and> c \<in> set (roomClients h (cl_room cl))")
  case False
  then have "removeClient c h = Inr h"
    using assms by (auto simp: removeClient_def roomClients_def dropEmptyRoom_def hubInv_def
        split: option.splits)
  with False assms show ?thesis by auto
next
  case True
  then obtain cl where cl: "map_of (hub_clients h) c = Some cl" and m: "c \<in> set (roomClients h (cl_room cl))"
    by blast
  note ok = hubInv_hubOK [OF assms]
  let ?room = "cl_room cl"
  obtain cs where cs: "map_of (hub_rooms h) ?room = Some cs" "roomClients h ?room = cs"
    using m by (cases "map_of (hub_rooms h) ?room") (auto simp: roomClients_def)
  have open': "\<not> cl_closed cl" using hubOK_member [OF ok m] cl by auto
  define h1 where "h1 = (deleteFromRoom ?room c h)\<lparr>hub_clients := mput c (cl\<lparr>cl_closed := True\<rparr>) (hub_clients h)\<rparr>"
  define h' where "h' = dropEmptyRoom ?room h1"
  have rem: "removeClient c h = Inr h'"
    using cl cs m open' by (simp add: removeClient_def closeSend_def deleteFromRoom_def h'_def h1_def)
  have clients: "map_of (hub_clients h') = (map_of (hub_clients h))(c \<mapsto> cl\<lparr>cl_closed := True\<rparr>)"
    by (auto simp: h'_def h1_def dropEmptyRoom_def fun_eq_iff)
  have rooms: "roomClients h' = (roomClients h)(?room := remove1 c (roomClients h ?room))"
    by (auto simp: h'_def h1_def dropEmptyRoom_def deleteFromRoom_def roomClients_def fun_eq_iff)
  have "hubOK h'"
  proof (rule hubOK_intro)
    show "distinct (roomClients h' r)" for r using hubOK_distinct [OF ok] by (simp add: rooms)
    show "\<exists>x. map_of (hub_clients h') d = Some x \<and> cl_room x = r \<and> \<not> cl_closed x"
      if "d \<in> set (roomClients h' r)" for r d
    proof -
      have d: "d \<in> set (roomClients h r)" "d \<noteq> c"
        using that hubOK_distinct [OF ok] hubOK_member [OF ok, of d r] cl
        by (auto simp: rooms set_remove1_eq split: if_splits)
      then show ?thesis using hubOK_member [OF ok d(1)] by (simp add: clients)
    qed
    show "length (cl_buf x) \<le> chatSendBuffer \<and> (\<forall>m \<in> set (cl_buf x). msg_Room m = cl_room x)"
      if "map_of (hub_clients h') d = Some x" for d x
      using that hubOK_client [OF ok, of c cl] hubOK_client [OF ok, of d x] cl
      by (auto simp: clients split: if_splits)
  qed
  moreover have "map_of (hub_rooms h') r \<noteq> Some []" for r
    using assms by (auto simp: h'_def h1_def dropEmptyRoom_def deleteFromRoom_def roomClients_def hubInv_def)
  ultimately have "hubInv h'" by (simp add: hubInv_def)
  with rem clients rooms cl show ?thesis by auto
qed

lemma writeLoop_take_inv: "hubInv h \<Longrightarrow> writeLoop_take c h = Some (m, h') \<Longrightarrow> hubInv h'"
proof -
  assume inv: "hubInv h" and "writeLoop_take c h = Some (m, h')"
  then obtain cl ms where cl: "map_of (hub_clients h) c = Some cl" "cl_buf cl = m # ms"
    and h': "h' = h\<lparr>hub_clients := mput c (cl\<lparr>cl_buf := ms\<rparr>) (hub_clients h)\<rparr>"
    by (auto simp: writeLoop_take_def split: option.splits list.splits)
  note ok = hubInv_hubOK [OF inv]
  have rc: "roomClients h' = roomClients h" by (simp add: h' roomClients_def fun_eq_iff)
  have "hubOK h'"
  proof (rule hubOK_intro)
    show "distinct (roomClients h' r)" for r using hubOK_distinct [OF ok] by (simp add: rc)
    show "\<exists>x. map_of (hub_clients h') d = Some x \<and> cl_room x = r \<and> \<not> cl_closed x"
      if "d \<in> set (roomClients h' r)" for r d
      using that hubOK_member [OF ok, of d r] cl by (auto simp: rc h')
    show "length (cl_buf x) \<le> chatSendBuffer \<and> (\<forall>m \<in> set (cl_buf x). msg_Room m = cl_room x)"
      if "map_of (hub_clients h') d = Some x" for d x
      using that hubOK_client [OF ok, of c cl] hubOK_client [OF ok, of d x] cl
      by (auto simp: h' split: if_splits)
  qed
  with inv show ?thesis by (simp add: hubInv_def h')
qed

section \<open>Reachable states\<close>

definition chatInv :: "chatState \<Rightarrow> bool" where
  [inv_defs]: "chatInv s \<longleftrightarrow> ch_panic s = None \<and> hubInv (ch_hub s) \<and>
     (\<forall>c. map_of (ch_pc s) c = None \<longrightarrow> map_of (hub_clients (ch_hub s)) c = None)"

definition opOK :: "chatHub \<Rightarrow> string + chatHub \<Rightarrow> bool" where
  "opOK h res \<longleftrightarrow> (\<exists>h'. res = Inr h' \<and> hubInv h' \<and> dom (map_of (hub_clients h')) = dom (map_of (hub_clients h)))"

lemma opOK_refl [simp]: "hubInv h \<Longrightarrow> opOK h (Inr h)"
  by (simp add: opOK_def)

lemma broadcast_opOK:
  assumes "hubInv h" and "msg_Room msg = room"
  shows "opOK h (broadcast room msg h)"
proof -
  obtain h' where "broadcast room msg h = Inr h'" "hubInv h'"
     "map_of (hub_clients h') = (\<lambda>c. if c \<in> set (roomClients h room)
        then map_option (deliver msg) (map_of (hub_clients h) c) else map_of (hub_clients h) c)"
    using broadcast_spec [OF assms] by blast
  then show ?thesis by (auto simp: opOK_def dom_def)
qed

lemma removeClient_opOK: "hubInv h \<Longrightarrow> opOK h (removeClient c h)"
  using removeClient_spec [of h c] by (auto simp: opOK_def)

lemma announce_opOK: "hubInv h \<Longrightarrow> opOK h (serveWS_announce now c h)"
  by (auto simp: serveWS_announce_def systemMessage_def intro!: broadcast_opOK split: option.splits)

lemma readMessage_opOK: "hubInv h \<Longrightarrow> opOK h (readMessage now c payload h)"
  by (auto simp: readMessage_def Let_def intro!: broadcast_opOK split: option.splits)

lemma leave_opOK: "hubInv h \<Longrightarrow> opOK h (readLoop_leave now c h)"
proof (cases "map_of (hub_clients h) c")
  case (Some cl)
  assume "hubInv h"
  then have "opOK (safeCloseConn c h) (broadcast (cl_room cl) (systemMessage now (cl_room cl) (cl_user cl @ '' left''))
      (safeCloseConn c h))"
    by (intro broadcast_opOK safeCloseConn_inv) (simp_all add: systemMessage_def)
  moreover have "dom (map_of (hub_clients (safeCloseConn c h))) = dom (map_of (hub_clients h))"
    using Some by (auto simp: safeCloseConn_def dom_def)
  ultimately show ?thesis using Some by (simp add: readLoop_leave_def opOK_def)
qed (simp add: readLoop_leave_def)

lemma withHub_inv:
  assumes "chatInv s" and "opOK (ch_hub s) res" and "map_of (ch_pc s) c \<noteq> None"
  shows "chatInv (withHub s c pc res)"
proof -
  obtain h' where h': "res = Inr h'" "hubInv h'" "dom (map_of (hub_clients h')) = dom (map_of (hub_clients (ch_hub s)))"
    using assms(2) by (auto simp: opOK_def)
  have "map_of (hub_clients h') d = None" if "map_of (ch_pc s) d = None" for d
    using assms(1) h'(3) that unfolding chatInv_def by (metis domIff)
  with assms(1) h' show ?thesis by (auto simp: chatInv_def withHub_def)
qed

lemma chatInv_writers [simp]: "chatInv (s\<lparr>ch_writers := ws\<rparr>) = chatInv s"
  by (simp add: chatInv_def)

lemma writeLoop_take_keeps:
  assumes "chatInv s" and "writeLoop_take c (ch_hub s) = Some (m, h')"
  shows "chatInv (s\<lparr>ch_hub := h'\<rparr>)"
proof -
  have "map_of (hub_clients h') d = None" if "map_of (ch_pc s) d = None" for d
    using assms that by (auto simp: chatInv_def writeLoop_take_def split: option.splits list.splits)
  with assms writeLoop_take_inv [OF _ assms(2)] show ?thesis by (simp add: chatInv_def)
qed

lemma chatStep_inv:
  assumes "chatStep env s s'" and "chatInv s"
  shows "chatInv s'"
  using assms(1)
proof (cases rule: chatStep.cases)
  case (chat_connect c now r seq' h')
  have "map_of (hub_clients (ch_hub s)) c = None" using assms(2) chat_connect(2) by (simp add: chatInv_def)
  from addClient_inv [OF _ this] assms(2) have inv: "hubInv h'"
    using chat_connect(3) by (auto simp: serveWS_register_def chatInv_def Let_def split: prod.splits)
  have "map_of (hub_clients h') d = None" if "map_of (ch_pc s) d = None" "d \<noteq> c" for d
    using chat_connect(3) that assms(2)
    by (auto simp: serveWS_register_def chatInv_def addClient_def Let_def split: prod.splits)
  with inv assms(2) show ?thesis by (simp add: chat_connect(1) chatInv_def)
qed (use assms(2) in \<open>auto simp: chatInv_def [of s] dest: writeLoop_take_keeps [OF assms(2)]
      intro!: withHub_inv [OF assms(2)] announce_opOK readMessage_opOK removeClient_opOK leave_opOK\<close>)

lemma chatReach_inv: "chatReach env s \<Longrightarrow> chatInv s"
proof (induction rule: rtranclp_induct)
  case base
  show ?case by (simp add: chatInv_def newChatState_def newChatHub_def hubInv_def hubOK_def)
next
  case (step s s')
  then show ?case using chatStep_inv by blast
qed

text \<open>
  C28: the chat never panics and its memory per client is bounded. In every state that connections,
  messages, disconnects, slow readers and failing writers can reach, in any interleaving of their
  goroutines, no operation has sent on a closed channel or closed a channel twice, no room is empty,
  every member of a room is an open client of that room, and every buffer holds at most 16 messages,
  all of the client's own room.
\<close>

theorem chat_never_panics:
  assumes "chatReach env s"
  shows "ch_panic s = None
     \<and> (\<forall>room. map_of (hub_rooms (ch_hub s)) room \<noteq> Some [])
     \<and> (\<forall>room c. c \<in> set (roomClients (ch_hub s) room) \<longrightarrow>
          (\<exists>cl. map_of (hub_clients (ch_hub s)) c = Some cl \<and> cl_room cl = room \<and> \<not> cl_closed cl))
     \<and> (\<forall>c cl. map_of (hub_clients (ch_hub s)) c = Some cl \<longrightarrow>
          length (cl_buf cl) \<le> 16 \<and> (\<forall>m \<in> set (cl_buf cl). msg_Room m = cl_room cl))"
  using chatReach_inv [OF assms] hubOK_member hubOK_client
  unfolding chatInv_def hubInv_def chatSendBuffer_def by metis

text \<open>
  C38: a message reaches every member of the room, at once and in order. In a reachable state a
  broadcast appends the message to the queue of each member that has space, disconnects exactly
  the members whose queue of 16 is full, and changes no other client and no other room.
\<close>

theorem broadcast_exact:
  assumes "chatReach env s" and "msg_Room msg = room"
  shows "\<exists>h'. broadcast room msg (ch_hub s) = Inr h'
     \<and> (\<forall>c cl. map_of (hub_clients (ch_hub s)) c = Some cl \<longrightarrow> map_of (hub_clients h') c = Some
          (if c \<notin> set (roomClients (ch_hub s) room) then cl
           else if length (cl_buf cl) < 16 then cl\<lparr>cl_buf := cl_buf cl @ [msg]\<rparr>
           else cl\<lparr>cl_closed := True, cl_connOpen := False\<rparr>))
     \<and> (\<forall>r. roomClients h' r = (if r = room then filter (hasSpace (ch_hub s)) (roomClients (ch_hub s) room)
          else roomClients (ch_hub s) r))"
proof -
  have "hubInv (ch_hub s)" using chatReach_inv [OF assms(1)] by (simp add: chatInv_def)
  from broadcast_spec [OF this assms(2)] show ?thesis
    by (auto simp: deliver_def chatSendBuffer_def)
qed

text \<open>
  Names of registered users can be taken. A connection without a token that asks for the name
  \<open>user-7\<close> gets exactly the name of the connections that prove to be user 7.
\<close>

theorem chat_name_not_authenticated:
  assumes "lookupStr (req_Header r) ''Authorization'' = ''''"
    and "lookupStr (req_Query r) ''user'' = ''user-'' @ fmtD uid"
    and "parseBearerToken (lookupStr (req_Header q) ''Authorization'') = Inr tok"
    and "validateAccessToken env now tok = Inr (uid, role)"
  shows "fst (resolveUser env now r seq) = fst (resolveUser env now q seq')"
proof -
  have "trimSpace (''user-'' @ fmtD uid) = ''user-'' @ fmtD uid"
    by (rule trimSpace_plain) (auto simp: isDigit_def dest!: fmtD_set)
  moreover have "lookupStr (req_Header q) ''Authorization'' \<noteq> ''''"
  proof
    assume "lookupStr (req_Header q) ''Authorization'' = ''''"
    with assms(3) show False by (simp add: parseBearerToken_def)
  qed
  ultimately show ?thesis using assms by (simp add: resolveUser_def Let_def)
qed

text \<open>One visitor enters the lobby.\<close>

definition demoChat :: chatState where
  "demoChat = \<lparr>ch_seq = 1, ch_hub = \<lparr>hub_rooms = [(''lobby'', [0])],
     hub_clients = [(0, \<lparr>cl_room = ''lobby'', cl_user = ''anon-1'', cl_buf = [], cl_closed = False, cl_connOpen = True\<rparr>)]\<rparr>,
     ch_pc = [(0, Registered)], ch_writers = [], ch_panic = None\<rparr>"

lemma demoChat_reached: "chatReach demoEnv demoChat"
proof -
  have "fmtNat (Suc 0) = ''1''" by code_simp
  then have "serveWS_register demoEnv 0 demoGet 0 (0, newChatHub) = (1, ch_hub demoChat)"
    by (simp add: serveWS_register_def resolveUser_def demoGet_def lookupStr_def Let_def chatDefaultRoom_def
        addClient_def newChatHub_def demoChat_def roomClients_def)
  then have "chatStep demoEnv newChatState (newChatState\<lparr>ch_seq := 1, ch_hub := ch_hub demoChat,
      ch_pc := mput 0 Registered (ch_pc newChatState)\<rparr>)"
    by (intro chat_connect [of _ _ _ 0 demoGet]) (simp_all add: newChatState_def)
  then show ?thesis by (intro r_into_rtranclp) (simp add: newChatState_def demoChat_def)
qed

theorem chat_never_panics_witness:
  "ch_panic demoChat = None \<and> length (cl_buf (snd (hd (hub_clients (ch_hub demoChat))))) \<le> 16"
  using chat_never_panics [OF demoChat_reached] by (simp add: demoChat_def)

theorem broadcast_exact_witness:
  "\<exists>h'. broadcast ''lobby'' (systemMessage 0 ''lobby'' ''hi'') (ch_hub demoChat) = Inr h'
     \<and> (\<exists>cl. map_of (hub_clients h') 0 = Some cl \<and> map msg_Text (cl_buf cl) = [''hi''])"
  using broadcast_exact [OF demoChat_reached, of "systemMessage 0 ''lobby'' ''hi''" "''lobby''"]
  by (auto simp: systemMessage_def demoChat_def roomClients_def)

theorem chat_name_not_authenticated_witness:
  "fst (resolveUser demoEnv 0 (demoGet\<lparr>req_Query := [(''user'', ''user-1'')]\<rparr>) 0)
     = fst (resolveUser demoEnv 0 (demoGet\<lparr>req_Header := [(''Authorization'', ''bearer  jwt '')]\<rparr>) 5)"
proof (rule chat_name_not_authenticated)
  show "validateAccessToken demoEnv 0 ''jwt'' = Inr (1, ''user'')"
    by (simp add: validateAccessToken_def demoClaims_def accessClaims_def int64OfFloat_def)
  have "fmtD 1 = ''1''" by code_simp
  then show "lookupStr (req_Query (demoGet\<lparr>req_Query := [(''user'', ''user-1'')]\<rparr>)) ''user'' = ''user-'' @ fmtD 1"
    by (simp add: lookupStr_def)
  have "parseBearerToken ''bearer  jwt '' = Inr ''jwt''" by code_simp
  then show "parseBearerToken (lookupStr (req_Header (demoGet\<lparr>req_Header :=
      [(''Authorization'', ''bearer  jwt '')]\<rparr>)) ''Authorization'') = Inr ''jwt''"
    by (simp add: lookupStr_def)
qed (simp add: demoGet_def lookupStr_def)

end
