(* ===== verification/JobWorker.thy ===== *)
theory JobWorker
  imports GoTime
begin

text \<open>
  The in-process job worker of \<open>internal/jobworker/worker.go\<close>: a bounded queue, a pool of workers
  with retries and a dead-job list, and a scheduler.

  The service is a record; the queue channel is its buffer with its capacity and whether it is
  closed. A send on a closed channel and a second close panic and are \<open>Inl\<close> results. \<open>Enqueue\<close>
  releases the mutex before it sends, so it is two steps; the goroutines interleave in the step
  relation \<open>workerStep\<close>. The scheduling loop advances \<open>nextRun\<close> until it lies in the future: it
  would not end for an interval that is not positive, so it is a partial function, and
  \<open>runDue_total\<close> shows that it returns for every schedule that \<open>RegisterSchedule\<close> accepts.
\<close>

section \<open>Data\<close>

record job =
  job_ID :: string
  job_Type :: string
  job_Payload :: "(string, string) gomap"
  job_Attempts :: int

record deadJob =
  dj_Job :: job
  dj_LastError :: string
  dj_FailedAt :: time

record scheduleSpec =
  ss_ID :: string
  ss_Every :: duration
  ss_JobType :: string
  ss_Payload :: "(string, string) gomap"

record config =
  cfg_Workers :: int
  cfg_QueueSize :: int
  cfg_RetryLimit :: int
  cfg_SchedulerTick :: duration

record scheduleState =
  sst_spec :: scheduleSpec
  sst_nextRun :: time

record service =
  jw_cfg :: config
  jw_started :: bool
  jw_seq :: int64
  jw_queue :: "job list"
  jw_queueClosed :: bool
  jw_deadQueue :: "deadJob list"
  jw_schedules :: "(string, scheduleState) gomap"

datatype jobError = ErrQueueFull | ErrNotRunning | JobError string

definition cloneMap :: "(string, string) gomap \<Rightarrow> (string, string) gomap" where
  "cloneMap m = (if length m = 0 then [] else fold (\<lambda>(k, v) out. mput k v out) m [])"

definition newService :: "config \<Rightarrow> service" where
  "newService cfg =
     (let c1 = (if cfg_Workers cfg \<le> 0 then cfg\<lparr>cfg_Workers := 1\<rparr> else cfg);
          c2 = (if cfg_QueueSize c1 \<le> 0 then c1\<lparr>cfg_QueueSize := 64\<rparr> else c1);
          c3 = (if cfg_RetryLimit c2 < 0 then c2\<lparr>cfg_RetryLimit := 0\<rparr> else c2);
          c4 = (if cfg_SchedulerTick c3 \<le> 0 then c3\<lparr>cfg_SchedulerTick := 500 * millisecond\<rparr> else c3)
      in \<lparr>jw_cfg = c4, jw_started = False, jw_seq = 0, jw_queue = [], jw_queueClosed = False,
          jw_deadQueue = [], jw_schedules = []\<rparr>)"

definition newID :: "service \<Rightarrow> string" where
  "newID s = ''job-'' @ fmtD (jw_seq s)"

section \<open>Queue and life cycle\<close>

text \<open>The non-blocking send: whether the job was taken, or the panic of a closed channel.\<close>

definition trySend :: "job \<Rightarrow> service \<Rightarrow> string + bool \<times> service" where
  "trySend j s =
     (if jw_queueClosed s then Inl ''send on closed channel''
      else if int (length (jw_queue s)) < cfg_QueueSize (jw_cfg s)
      then Inr (True, s\<lparr>jw_queue := jw_queue s @ [j]\<rparr>)
      else Inr (False, s))"

definition start :: "service \<Rightarrow> nat \<times> service" where
  "start s = (if jw_started s then (0, s) else (nat (cfg_Workers (jw_cfg s)), s\<lparr>jw_started := True\<rparr>))"

definition stop :: "service \<Rightarrow> string + service" where
  "stop s =
     (if \<not> jw_started s then Inr s
      else if jw_queueClosed s then Inl ''close of closed channel''
      else Inr (s\<lparr>jw_started := False, jw_queueClosed := True\<rparr>))"

text \<open>\<open>Enqueue\<close> under the mutex: the new job, or an error; the send follows without it.\<close>

definition enqueueLocked ::
  "string \<Rightarrow> (string, string) gomap \<Rightarrow> service \<Rightarrow> (jobError + job) \<times> service" where
  "enqueueLocked jobType payload s =
     (if jobType = '''' then (Inl (JobError ''job type is required''), s)
      else if \<not> jw_started s then (Inl ErrNotRunning, s)
      else let s' = s\<lparr>jw_seq := wrap64 (jw_seq s + 1)\<rparr>
           in (Inr \<lparr>job_ID = newID s', job_Type = jobType, job_Payload = cloneMap payload, job_Attempts = 0\<rparr>, s'))"

definition enqueueSend :: "job \<Rightarrow> service \<Rightarrow> string + (jobError + job) \<times> service" where
  "enqueueSend j s = (case trySend j s of
       Inl p \<Rightarrow> Inl p
     | Inr (sent, s') \<Rightarrow> Inr (if sent then Inr j else Inl ErrQueueFull, s'))"

definition registerSchedule :: "scheduleSpec \<Rightarrow> time \<Rightarrow> service \<Rightarrow> (string + unit) \<times> service" where
  "registerSchedule spec now s =
     (if ss_ID spec = '''' then (Inl ''schedule id is required'', s)
      else if ss_Every spec \<le> 0 then (Inl ''schedule interval must be greater than zero'', s)
      else if ss_JobType spec = '''' then (Inl ''schedule job type is required'', s)
      else (Inr (), s\<lparr>jw_schedules := mput (ss_ID spec)
              \<lparr>sst_spec = spec, sst_nextRun = now + ss_Every spec\<rparr> (jw_schedules s)\<rparr>))"

definition deadJobs :: "service \<Rightarrow> deadJob list" where
  "deadJobs s = jw_deadQueue s"

section \<open>Retries\<close>

text \<open>
  The processor may do anything: it maps a job and the state \<open>w\<close> of the outside world to an
  optional error and the next state.
\<close>

type_synonym 'w processor = "job \<Rightarrow> 'w \<Rightarrow> string option \<times> 'w"

function retryLoop :: "int \<Rightarrow> 'w processor \<Rightarrow> job \<Rightarrow> 'w \<Rightarrow> (job \<times> string) option \<times> 'w" where
  "retryLoop limit proc j w = (case proc j w of
       (None, w') \<Rightarrow> (None, w')
     | (Some e, w') \<Rightarrow>
         if limit \<le> job_Attempts j then (Some (j, e), w')
         else retryLoop limit proc (j\<lparr>job_Attempts := job_Attempts j + 1\<rparr>) w')"
  by pat_completeness auto
termination
  by (relation "measure (\<lambda>(limit, proc, j, w). nat (limit - job_Attempts j))") auto

declare retryLoop.simps [simp del]

definition processWithRetry :: "'w processor \<Rightarrow> time \<Rightarrow> job \<Rightarrow> service \<times> 'w \<Rightarrow> service \<times> 'w" where
  "processWithRetry proc now j sw =
     (let (s, w) = sw in
      (case retryLoop (cfg_RetryLimit (jw_cfg s)) proc j w of
         (None, w') \<Rightarrow> (s, w')
       | (Some (j', e), w') \<Rightarrow>
           (s\<lparr>jw_deadQueue := jw_deadQueue s @ [\<lparr>dj_Job = j', dj_LastError = e, dj_FailedAt = now\<rparr>]\<rparr>, w')))"

section \<open>Scheduling\<close>

text \<open>The inner loop over one schedule: jobs created so far, the schedule, the service.\<close>

partial_function (option) runDue ::
  "time \<Rightarrow> int \<Rightarrow> scheduleState \<Rightarrow> service \<Rightarrow> (string + int \<times> scheduleState \<times> service) option" where
  "runDue now created sch s =
     (if now < sst_nextRun sch then Some (Inr (created, sch, s))
      else let s1 = s\<lparr>jw_seq := wrap64 (jw_seq s + 1)\<rparr>;
               j = \<lparr>job_ID = newID s1, job_Type = ss_JobType (sst_spec sch),
                    job_Payload = cloneMap (ss_Payload (sst_spec sch)), job_Attempts = 0\<rparr>
           in (case trySend j s1 of
                 Inl p \<Rightarrow> Some (Inl p)
               | Inr r \<Rightarrow>
                   runDue now (if fst r then created + 1 else created)
                     (sch\<lparr>sst_nextRun := sst_nextRun sch + ss_Every (sst_spec sch)\<rparr>) (snd r)))"

declare runDue.simps [code]

fun runSchedules ::
  "time \<Rightarrow> int \<Rightarrow> (string \<times> scheduleState) list \<Rightarrow> service \<Rightarrow> (string + int \<times> service) option" where
  "runSchedules now created [] s = Some (Inr (created, s))"
| "runSchedules now created ((i, sch) # rest) s = (case runDue now created sch s of
       None \<Rightarrow> None
     | Some (Inl p) \<Rightarrow> Some (Inl p)
     | Some (Inr (created', sch', s')) \<Rightarrow>
         runSchedules now created' rest (s'\<lparr>jw_schedules := mput i sch' (jw_schedules s')\<rparr>))"

definition runScheduledLocked :: "time \<Rightarrow> service \<Rightarrow> (string + int \<times> service) option" where
  "runScheduledLocked now s =
     (if \<not> jw_started s then Some (Inr (0, s)) else runSchedules now 0 (jw_schedules s) s)"

section \<open>The retry loop\<close>

text \<open>The calls the loop makes: each with its attempt number, until one succeeds or the limit is hit.\<close>

fun attempts :: "'w processor \<Rightarrow> job \<Rightarrow> nat \<Rightarrow> 'w \<Rightarrow> (string option \<times> 'w) list" where
  "attempts proc j n w = (case proc j w of
       (None, w') \<Rightarrow> [(None, w')]
     | (Some e, w') \<Rightarrow> (Some e, w') # (case n of 0 \<Rightarrow> [] | Suc m \<Rightarrow>
          attempts proc (j\<lparr>job_Attempts := job_Attempts j + 1\<rparr>) m w'))"

declare attempts.simps [simp del]

lemma attempts_length: "length (attempts proc j n w) \<le> n + 1" "attempts proc j n w \<noteq> []"
proof -
  show "length (attempts proc j n w) \<le> n + 1"
    by (induction n arbitrary: j w; subst attempts.simps)
      (auto split: prod.splits option.splits nat.splits)
  show "attempts proc j n w \<noteq> []"
    by (subst attempts.simps) (auto split: prod.splits option.splits)
qed

lemma retryLoop_attempts:
  assumes "job_Attempts j \<le> limit"
  shows "retryLoop limit proc j w = (let as = attempts proc j (nat (limit - job_Attempts j)) w in
     case last as of (None, w') \<Rightarrow> (None, w') | (Some e, w') \<Rightarrow> (Some (j\<lparr>job_Attempts := limit\<rparr>, e), w'))"
  using assms
proof (induction limit proc j w rule: retryLoop.induct)
  case (1 limit proc j w)
  obtain res w' where p: "proc j w = (res, w')" by fastforce
  show ?case
  proof (cases res)
    case None
    then show ?thesis by (subst retryLoop.simps, subst attempts.simps) (simp add: p)
  next
    case (Some e)
    show ?thesis
    proof (cases "limit \<le> job_Attempts j")
      case True
      with 1(2) have lim: "job_Attempts j = limit" by simp
      then have j: "j\<lparr>job_Attempts := limit\<rparr> = j" by (cases j) simp
      have "retryLoop limit proc j w = (Some (j, e), w')"
        using True by (subst retryLoop.simps) (simp add: p Some)
      moreover have "attempts proc j (nat (limit - job_Attempts j)) w = [(Some e, w')]"
        using lim by (subst attempts.simps) (simp add: p Some)
      ultimately show ?thesis by (simp add: j)
    next
      case False
      let ?j = "j\<lparr>job_Attempts := job_Attempts j + 1\<rparr>"
      have n: "nat (limit - job_Attempts j) = Suc (nat (limit - (job_Attempts j + 1)))" using False by simp
      have IH: "retryLoop limit proc ?j w' = (let as = attempts proc ?j (nat (limit - (job_Attempts j + 1))) w' in
         case last as of (None, w') \<Rightarrow> (None, w') | (Some e, w') \<Rightarrow> (Some (j\<lparr>job_Attempts := limit\<rparr>, e), w'))"
        using 1(1) [OF p [symmetric] Some False] False by (simp split: prod.splits option.splits)
      have "attempts proc j (nat (limit - job_Attempts j)) w
          = (Some e, w') # attempts proc ?j (nat (limit - (job_Attempts j + 1))) w'"
        by (subst attempts.simps) (simp add: p Some n)
      moreover have "retryLoop limit proc j w = retryLoop limit proc ?j w'"
        using False by (subst retryLoop.simps) (simp add: p Some)
      ultimately show ?thesis using IH by (simp add: attempts_length(2))
    qed
  qed
qed

text \<open>
  C37: retries are bounded and exact. Processing a fresh job always returns; the processor is
  called at least once and at most \<open>RetryLimit + 1\<close> times, with increasing attempt numbers; the
  job is added to the dead jobs, with the last error, exactly when the last call failed, and the
  rest of the service is untouched.
\<close>

theorem process_with_retry_exact:
  assumes "job_Attempts j = 0" and "0 \<le> cfg_RetryLimit (jw_cfg s)"
  shows "\<exists>as. as = attempts proc j (nat (cfg_RetryLimit (jw_cfg s))) w
     \<and> as \<noteq> [] \<and> int (length as) \<le> cfg_RetryLimit (jw_cfg s) + 1
     \<and> processWithRetry proc now j (s, w) = (case last as of
          (None, w') \<Rightarrow> (s, w')
        | (Some e, w') \<Rightarrow> (s\<lparr>jw_deadQueue := jw_deadQueue s @
            [\<lparr>dj_Job = j\<lparr>job_Attempts := cfg_RetryLimit (jw_cfg s)\<rparr>, dj_LastError = e, dj_FailedAt = now\<rparr>]\<rparr>, w'))"
proof -
  let ?as = "attempts proc j (nat (cfg_RetryLimit (jw_cfg s))) w"
  have "int (length ?as) \<le> cfg_RetryLimit (jw_cfg s) + 1"
    using attempts_length(1) [of proc j "nat (cfg_RetryLimit (jw_cfg s))" w] assms(2) by linarith
  moreover have "retryLoop (cfg_RetryLimit (jw_cfg s)) proc j w = (case last ?as of
      (None, w') \<Rightarrow> (None, w') | (Some e, w') \<Rightarrow> (Some (j\<lparr>job_Attempts := cfg_RetryLimit (jw_cfg s)\<rparr>, e), w'))"
    using retryLoop_attempts [of j "cfg_RetryLimit (jw_cfg s)" proc w] assms by simp
  ultimately show ?thesis
    using attempts_length(2) [of proc j "nat (cfg_RetryLimit (jw_cfg s))" w]
    by (cases "last ?as"; cases "fst (last ?as)") (auto simp: processWithRetry_def)
qed

section \<open>The scheduler\<close>

definition dueCount :: "time \<Rightarrow> scheduleState \<Rightarrow> int" where
  "dueCount now sch = (if now < sst_nextRun sch then 0
     else (now - sst_nextRun sch) div ss_Every (sst_spec sch) + 1)"

lemma dueCount_step:
  assumes "0 < ss_Every (sst_spec sch)" and "\<not> now < sst_nextRun sch"
  shows "dueCount now sch
     = dueCount now (sch\<lparr>sst_nextRun := sst_nextRun sch + ss_Every (sst_spec sch)\<rparr>) + 1"
proof -
  let ?e = "ss_Every (sst_spec sch)" and ?d = "now - sst_nextRun sch"
  have d: "now - (sst_nextRun sch + ?e) = ?d - ?e" by simp
  show ?thesis
  proof (cases "?d < ?e")
    case True
    then show ?thesis using assms by (simp add: dueCount_def)
  next
    case False
    have "(?d - ?e) div ?e + 1 = ?d div ?e"
      using assms(1) div_add_self2 [of ?e "?d - ?e"] by simp
    with False assms show ?thesis by (simp add: dueCount_def d)
  qed
qed

lemma dueCount_nonneg: "0 < ss_Every (sst_spec sch) \<Longrightarrow> 0 \<le> dueCount now sch"
  by (simp add: dueCount_def pos_imp_zdiv_nonneg_iff)

text \<open>Everything of a service but its queue, its counter and its schedules is kept.\<close>

definition sameBut :: "service \<Rightarrow> service \<Rightarrow> bool" where
  "sameBut s s' \<longleftrightarrow> jw_cfg s' = jw_cfg s \<and> jw_started s' = jw_started s \<and> jw_queueClosed s' = jw_queueClosed s \<and>
     jw_deadQueue s' = jw_deadQueue s"

lemma runDue_total:
  assumes "0 < ss_Every (sst_spec sch)" and "\<not> jw_queueClosed s"
    and "int (length (jw_queue s)) \<le> cfg_QueueSize (jw_cfg s)"
  shows "\<exists>sch' s' new. runDue now created sch s = Some (Inr (created + int (length new), sch', s')) \<and>
     now < sst_nextRun sch' \<and> sst_spec sch' = sst_spec sch \<and>
     sst_nextRun sch' = sst_nextRun sch + dueCount now sch * ss_Every (sst_spec sch) \<and>
     jw_queue s' = jw_queue s @ new \<and>
     int (length new) = min (dueCount now sch) (cfg_QueueSize (jw_cfg s) - int (length (jw_queue s))) \<and>
     (\<forall>j \<in> set new. job_Type j = ss_JobType (sst_spec sch) \<and> job_Attempts j = 0) \<and>
     sameBut s s' \<and> jw_schedules s' = jw_schedules s"
  using assms
proof (induction "nat (dueCount now sch)" arbitrary: created sch s)
  case 0
  then have due: "now < sst_nextRun sch"
    using dueCount_step [of sch now] dueCount_nonneg [of "sch\<lparr>sst_nextRun := sst_nextRun sch + ss_Every (sst_spec sch)\<rparr>" now]
    by fastforce
  show ?case
    by (rule exI [of _ sch], rule exI [of _ s], rule exI [of _ "[]"], subst runDue.simps)
      (use due 0(4) in \<open>simp add: dueCount_def sameBut_def\<close>)
next
  case (Suc n)
  let ?e = "ss_Every (sst_spec sch)"
  let ?sch = "sch\<lparr>sst_nextRun := sst_nextRun sch + ?e\<rparr>"
  have due: "\<not> now < sst_nextRun sch" using Suc.hyps(2) by (auto simp: dueCount_def)
  have cnt: "dueCount now sch = dueCount now ?sch + 1" by (rule dueCount_step [OF Suc.prems(1) due])
  define s1 where "s1 = s\<lparr>jw_seq := wrap64 (jw_seq s + 1)\<rparr>"
  define j where "j = \<lparr>job_ID = newID s1, job_Type = ss_JobType (sst_spec sch),
      job_Payload = cloneMap (ss_Payload (sst_spec sch)), job_Attempts = 0\<rparr>"
  define full where "full \<longleftrightarrow> int (length (jw_queue s)) = cfg_QueueSize (jw_cfg s)"
  define s2 where "s2 = (if full then s1 else s1\<lparr>jw_queue := jw_queue s @ [j]\<rparr>)"
  have send: "trySend j s1 = Inr (\<not> full, s2)"
    using Suc.prems(2,3) by (auto simp: trySend_def s2_def full_def s1_def)
  have step: "runDue now created sch s = runDue now (if full then created else created + 1) ?sch s2"
    by (subst runDue.simps) (simp add: due send Let_def flip: s1_def j_def)
  have s2: "\<not> jw_queueClosed s2" "int (length (jw_queue s2)) \<le> cfg_QueueSize (jw_cfg s2)"
      "sameBut s s2" "jw_schedules s2 = jw_schedules s" "jw_cfg s2 = jw_cfg s"
    using Suc.prems(2,3) by (auto simp: s2_def s1_def full_def sameBut_def)
  have "n = nat (dueCount now ?sch)" using Suc.hyps(2) cnt by simp
  from Suc.hyps(1) [OF this, of s2 "if full then created else created + 1"] s2 Suc.prems(1)
  obtain sch' s' new where ih: "runDue now (if full then created else created + 1) ?sch s2
      = Some (Inr ((if full then created else created + 1) + int (length new), sch', s'))"
    "now < sst_nextRun sch'" "sst_spec sch' = sst_spec sch"
    "sst_nextRun sch' = sst_nextRun sch + ?e + dueCount now ?sch * ?e"
    "jw_queue s' = jw_queue s2 @ new"
    "int (length new) = min (dueCount now ?sch) (cfg_QueueSize (jw_cfg s) - int (length (jw_queue s2)))"
    "\<forall>j \<in> set new. job_Type j = ss_JobType (sst_spec sch) \<and> job_Attempts j = 0"
    "sameBut s2 s'" "jw_schedules s' = jw_schedules s"
    by auto
  have pos: "0 \<le> dueCount now ?sch" by (rule dueCount_nonneg) (simp add: Suc.prems(1))
  let ?new = "(if full then [] else [j]) @ new"
  show ?case
  proof (intro exI conjI)
    show "runDue now created sch s = Some (Inr (created + int (length ?new), sch', s'))"
      using step ih(1) by simp
    show "sst_nextRun sch' = sst_nextRun sch + dueCount now sch * ?e"
      using ih(4) cnt by (simp add: algebra_simps)
    show "jw_queue s' = jw_queue s @ ?new" using ih(5) by (simp add: s2_def s1_def)
    show "int (length ?new) = min (dueCount now sch) (cfg_QueueSize (jw_cfg s) - int (length (jw_queue s)))"
      using ih(6) cnt pos Suc.prems(3) by (auto simp: s2_def s1_def full_def min_def)
    show "\<forall>j \<in> set ?new. job_Type j = ss_JobType (sst_spec sch) \<and> job_Attempts j = 0"
      using ih(7) by (auto simp: j_def)
    show "sameBut s s'" using ih(8) s2(3) by (simp add: sameBut_def)
  qed (use ih in simp_all)
qed

lemma runDue_closed:
  assumes "jw_queueClosed s"
  shows "runDue now created sch s = (if now < sst_nextRun sch then Some (Inr (created, sch, s))
     else Some (Inl ''send on closed channel''))"
  using assms by (subst runDue.simps) (simp add: trySend_def Let_def)

definition schedulesOK :: "service \<Rightarrow> bool" where
  "schedulesOK s \<longleftrightarrow> (\<forall>i sch. map_of (jw_schedules s) i = Some sch \<longrightarrow> 0 < ss_Every (sst_spec sch))"

lemma runSchedules_total:
  assumes "\<forall>sch \<in> set (mvals todo). 0 < ss_Every (sst_spec sch)" and "schedulesOK s"
    and "\<not> jw_queueClosed s" and "int (length (jw_queue s)) \<le> cfg_QueueSize (jw_cfg s)"
    and "distinct (mkeys todo)"
  shows "\<exists>s' new. runSchedules now created todo s = Some (Inr (created + int (length new), s')) \<and>
     jw_queue s' = jw_queue s @ new \<and> (\<forall>j \<in> set new. job_Attempts j = 0) \<and>
     int (length (jw_queue s')) \<le> cfg_QueueSize (jw_cfg s) \<and> sameBut s s' \<and> schedulesOK s' \<and>
     (distinct (mkeys (jw_schedules s)) \<longrightarrow> distinct (mkeys (jw_schedules s'))) \<and>
     (\<forall>i sch. (i, sch) \<in> set todo \<longrightarrow> (\<exists>sch'. map_of (jw_schedules s') i = Some sch' \<and>
        now < sst_nextRun sch' \<and> sst_spec sch' = sst_spec sch)) \<and>
     (\<forall>i. i \<notin> set (mkeys todo) \<longrightarrow> map_of (jw_schedules s') i = map_of (jw_schedules s) i)"
  using assms
proof (induction now created todo s rule: runSchedules.induct)
  case (1 now created s)
  then show ?case by (intro exI [of _ s] exI [of _ "[]"]) (simp add: sameBut_def)
next
  case (2 now created i sch rest s)
  obtain sch1 s1 new1 where d: "runDue now created sch s = Some (Inr (created + int (length new1), sch1, s1))"
      "now < sst_nextRun sch1" "sst_spec sch1 = sst_spec sch" "jw_queue s1 = jw_queue s @ new1"
      "int (length new1) = min (dueCount now sch) (cfg_QueueSize (jw_cfg s) - int (length (jw_queue s)))"
      "\<forall>j \<in> set new1. job_Attempts j = 0" "sameBut s s1" "jw_schedules s1 = jw_schedules s"
    using runDue_total [of sch s now created] 2(2,4,5) by auto
  define s2 where "s2 = s1\<lparr>jw_schedules := mput i sch1 (jw_schedules s1)\<rparr>"
  have ev: "0 < ss_Every (sst_spec sch)" and ev_rest: "\<forall>sch \<in> set (mvals rest). 0 < ss_Every (sst_spec sch)"
    using 2(2) by auto
  have "schedulesOK s2" using 2(3) d(3,8) ev by (simp add: schedulesOK_def s2_def)
  moreover have "\<not> jw_queueClosed s2" "int (length (jw_queue s2)) \<le> cfg_QueueSize (jw_cfg s2)"
    using 2(4,5) d(4,5,7) by (auto simp: s2_def sameBut_def)
  moreover have "distinct (mkeys rest)" "i \<notin> set (mkeys rest)" using 2(6) by auto
  ultimately obtain s' new2 where r: "runSchedules now (created + int (length new1)) rest s2
        = Some (Inr (created + int (length new1) + int (length new2), s'))"
      "jw_queue s' = jw_queue s2 @ new2" "\<forall>j \<in> set new2. job_Attempts j = 0"
      "int (length (jw_queue s')) \<le> cfg_QueueSize (jw_cfg s2)" "sameBut s2 s'" "schedulesOK s'"
      and dk: "distinct (mkeys (jw_schedules s2)) \<longrightarrow> distinct (mkeys (jw_schedules s'))"
      and r': "\<forall>i sch. (i, sch) \<in> set rest \<longrightarrow> (\<exists>sch'. map_of (jw_schedules s') i = Some sch' \<and>
        now < sst_nextRun sch' \<and> sst_spec sch' = sst_spec sch)"
      "\<forall>i. i \<notin> set (mkeys rest) \<longrightarrow> map_of (jw_schedules s') i = map_of (jw_schedules s2) i"
    using 2(1) [OF d(1) refl refl refl, folded s2_def, OF ev_rest] by blast
  show ?case
  proof (intro exI conjI)
    show "runSchedules now created ((i, sch) # rest) s = Some (Inr (created + int (length (new1 @ new2)), s'))"
      using d(1) r(1) by (simp add: s2_def add.assoc)
    show "jw_queue s' = jw_queue s @ new1 @ new2" using r(2) d(4) by (simp add: s2_def)
    show "sameBut s s'" using r(5) d(7) by (simp add: sameBut_def s2_def)
    show "int (length (jw_queue s')) \<le> cfg_QueueSize (jw_cfg s)" using r(4) d(7) by (simp add: sameBut_def s2_def)
    show "\<forall>k x. (k, x) \<in> set ((i, sch) # rest) \<longrightarrow> (\<exists>sch'. map_of (jw_schedules s') k = Some sch' \<and>
        now < sst_nextRun sch' \<and> sst_spec sch' = sst_spec x)"
      using r' \<open>i \<notin> set (mkeys rest)\<close> d(2,3) by (auto simp: s2_def)
    show "\<forall>k. k \<notin> set (mkeys ((i, sch) # rest)) \<longrightarrow> map_of (jw_schedules s') k = map_of (jw_schedules s) k"
      using r'(2) d(8) by (auto simp: s2_def)
    show "distinct (mkeys (jw_schedules s)) \<longrightarrow> distinct (mkeys (jw_schedules s'))"
      using dk d(8) by (simp add: s2_def distinct_mput)
  qed (use r d in auto)
qed

text \<open>
  A scheduler tick always returns and leaves nothing overdue. On a running service whose
  schedules have positive intervals, a tick returns the number of jobs it queued; these jobs are
  appended to the queue, which stays within its capacity, and afterwards every schedule has its
  next run in the future. Nothing else of the service changes, the retry list included.
\<close>

theorem scheduler_tick_exact:
  assumes "jw_started s" and "schedulesOK s" and "distinct (mkeys (jw_schedules s))"
    and "\<not> jw_queueClosed s" and "int (length (jw_queue s)) \<le> cfg_QueueSize (jw_cfg s)"
  shows "\<exists>new s'. runScheduledLocked now s = Some (Inr (int (length new), s'))
     \<and> jw_queue s' = jw_queue s @ new \<and> int (length (jw_queue s')) \<le> cfg_QueueSize (jw_cfg s)
     \<and> (\<forall>i. map_of (jw_schedules s) i \<noteq> None \<longrightarrow>
          (\<exists>sch. map_of (jw_schedules s') i = Some sch \<and> now < sst_nextRun sch))
     \<and> jw_deadQueue s' = jw_deadQueue s \<and> jw_started s'"
proof -
  have ev: "\<forall>sch \<in> set (mvals (jw_schedules s)). 0 < ss_Every (sst_spec sch)"
    using assms(2,3) by (auto simp: schedulesOK_def map_of_eq_Some_iff)
  obtain s' new where r: "runSchedules now 0 (jw_schedules s) s = Some (Inr (0 + int (length new), s'))"
      "jw_queue s' = jw_queue s @ new" "int (length (jw_queue s')) \<le> cfg_QueueSize (jw_cfg s)" "sameBut s s'"
      "\<forall>i sch. (i, sch) \<in> set (jw_schedules s) \<longrightarrow> (\<exists>sch'. map_of (jw_schedules s') i = Some sch' \<and>
        now < sst_nextRun sch' \<and> sst_spec sch' = sst_spec sch)"
    using runSchedules_total [OF ev assms(2,4,5,3), of now 0] by blast
  have "\<exists>sch. map_of (jw_schedules s') i = Some sch \<and> now < sst_nextRun sch"
    if "map_of (jw_schedules s) i \<noteq> None" for i
    using r(5) that map_of_SomeD by fastforce
  with r assms(1) show ?thesis by (auto simp: runScheduledLocked_def sameBut_def)
qed

section \<open>Goroutines\<close>

text \<open>
  The running system: the service, the calls of \<open>Enqueue\<close> between unlock and send, the idle
  workers, the jobs in the hands of workers, the jobs finished, and, as bookkeeping, the jobs the
  queue has accepted. One step of a worker is one call of the processor.
\<close>

record workerSys =
  ws_service :: service
  ws_pending :: "job list"
  ws_idle :: nat
  ws_busy :: "job list"
  ws_done :: "job list"
  ws_accepted :: "job list"
  ws_panic :: "string option"

definition newSys :: "config \<Rightarrow> workerSys" where
  "newSys cfg = \<lparr>ws_service = newService cfg, ws_pending = [], ws_idle = 0, ws_busy = [], ws_done = [],
     ws_accepted = [], ws_panic = None\<rparr>"

definition newDead :: "job \<Rightarrow> string \<Rightarrow> time \<Rightarrow> deadJob" where
  "newDead j e now = \<lparr>dj_Job = j, dj_LastError = e, dj_FailedAt = now\<rparr>"

text \<open>The steps of the workers.\<close>

inductive drainStep :: "workerSys \<Rightarrow> workerSys \<Rightarrow> bool" where
  worker_take: "ws_idle S = Suc n \<Longrightarrow> jw_queue (ws_service S) = j # q \<Longrightarrow>
     drainStep S (S\<lparr>ws_idle := n, ws_service := (ws_service S)\<lparr>jw_queue := q\<rparr>, ws_busy := j # ws_busy S\<rparr>)"
| worker_success: "j \<in> set (ws_busy S) \<Longrightarrow>
     drainStep S (S\<lparr>ws_busy := remove1 j (ws_busy S), ws_idle := Suc (ws_idle S), ws_done := j # ws_done S\<rparr>)"
| worker_dead: "j \<in> set (ws_busy S) \<Longrightarrow> cfg_RetryLimit (jw_cfg (ws_service S)) \<le> job_Attempts j \<Longrightarrow>
     drainStep S (S\<lparr>ws_busy := remove1 j (ws_busy S), ws_idle := Suc (ws_idle S),
       ws_service := (ws_service S)\<lparr>jw_deadQueue := jw_deadQueue (ws_service S) @ [newDead j e now]\<rparr>\<rparr>)"
| worker_retry: "j \<in> set (ws_busy S) \<Longrightarrow> job_Attempts j < cfg_RetryLimit (jw_cfg (ws_service S)) \<Longrightarrow>
     drainStep S (S\<lparr>ws_busy := j\<lparr>job_Attempts := job_Attempts j + 1\<rparr> # remove1 j (ws_busy S)\<rparr>)"
| worker_exit: "ws_idle S = Suc n \<Longrightarrow> jw_queue (ws_service S) = [] \<Longrightarrow> jw_queueClosed (ws_service S) \<Longrightarrow>
     drainStep S (S\<lparr>ws_idle := n\<rparr>)"

definition afterTick :: "workerSys \<Rightarrow> string + int \<times> service \<Rightarrow> workerSys" where
  "afterTick S res = (case res of
       Inl p \<Rightarrow> S\<lparr>ws_panic := Some p\<rparr>
     | Inr (_, s') \<Rightarrow> S\<lparr>ws_service := s',
         ws_accepted := drop (length (jw_queue (ws_service S))) (jw_queue s') @ ws_accepted S\<rparr>)"

definition afterSend :: "workerSys \<Rightarrow> job \<Rightarrow> string + (jobError + job) \<times> service \<Rightarrow> workerSys" where
  "afterSend S j res = (case res of
       Inl p \<Rightarrow> S\<lparr>ws_panic := Some p\<rparr>
     | Inr (r, s') \<Rightarrow> S\<lparr>ws_service := s', ws_pending := remove1 j (ws_pending S),
         ws_accepted := (case r of Inl _ \<Rightarrow> ws_accepted S | Inr j' \<Rightarrow> j' # ws_accepted S)\<rparr>)"

inductive workerStep :: "workerSys \<Rightarrow> workerSys \<Rightarrow> bool" where
  ws_start: "ws_panic S = None \<Longrightarrow> start (ws_service S) = (n, s') \<Longrightarrow>
     workerStep S (S\<lparr>ws_service := s', ws_idle := ws_idle S + n\<rparr>)"
| ws_stop: "ws_panic S = None \<Longrightarrow> stop (ws_service S) = Inr s' \<Longrightarrow> workerStep S (S\<lparr>ws_service := s'\<rparr>)"
| ws_stop_panic: "ws_panic S = None \<Longrightarrow> stop (ws_service S) = Inl p \<Longrightarrow> workerStep S (S\<lparr>ws_panic := Some p\<rparr>)"
| ws_enqueue: "ws_panic S = None \<Longrightarrow> enqueueLocked jobType payload (ws_service S) = (Inr j, s') \<Longrightarrow>
     workerStep S (S\<lparr>ws_service := s', ws_pending := j # ws_pending S\<rparr>)"
| ws_send: "ws_panic S = None \<Longrightarrow> j \<in> set (ws_pending S) \<Longrightarrow>
     workerStep S (afterSend S j (enqueueSend j (ws_service S)))"
| ws_register: "ws_panic S = None \<Longrightarrow> registerSchedule spec now (ws_service S) = (Inr (), s') \<Longrightarrow>
     workerStep S (S\<lparr>ws_service := s'\<rparr>)"
| ws_tick: "ws_panic S = None \<Longrightarrow> runScheduledLocked now (ws_service S) = Some res \<Longrightarrow>
     workerStep S (afterTick S res)"
| ws_drain: "ws_panic S = None \<Longrightarrow> drainStep S S' \<Longrightarrow> workerStep S S'"

abbreviation workerReach :: "config \<Rightarrow> workerSys \<Rightarrow> bool" where
  "workerReach cfg \<equiv> workerStep\<^sup>*\<^sup>* (newSys cfg)"

abbreviation ids :: "job list \<Rightarrow> string multiset" where
  "ids js \<equiv> mset (map job_ID js)"

definition sysInv :: "workerSys \<Rightarrow> bool" where
  [inv_defs]: "sysInv S \<longleftrightarrow>
     ids (ws_accepted S) = ids (jw_queue (ws_service S)) + ids (ws_busy S) + ids (ws_done S)
        + ids (map dj_Job (jw_deadQueue (ws_service S))) \<and>
     int (length (jw_queue (ws_service S))) \<le> cfg_QueueSize (jw_cfg (ws_service S)) \<and>
     0 \<le> cfg_RetryLimit (jw_cfg (ws_service S)) \<and>
     (\<forall>j \<in> set (ws_pending S) \<union> set (jw_queue (ws_service S)). job_Attempts j = 0) \<and>
     (\<forall>j \<in> set (ws_busy S) \<union> set (ws_done S). job_Attempts j \<le> cfg_RetryLimit (jw_cfg (ws_service S))) \<and>
     (\<forall>d \<in> set (jw_deadQueue (ws_service S)).
        job_Attempts (dj_Job d) = cfg_RetryLimit (jw_cfg (ws_service S))) \<and>
     schedulesOK (ws_service S) \<and> distinct (mkeys (jw_schedules (ws_service S))) \<and>
     (jw_queueClosed (ws_service S) \<or> ws_panic S = None)"

lemma runSchedules_closed:
  assumes "jw_queueClosed s" and "runSchedules now created todo s = Some (Inr (n, s'))"
    and "schedulesOK s" and "\<forall>sch \<in> set (mvals todo). 0 < ss_Every (sst_spec sch)"
    and "distinct (mkeys (jw_schedules s))"
  shows "jw_queue s' = jw_queue s \<and> sameBut s s' \<and> schedulesOK s' \<and> distinct (mkeys (jw_schedules s'))"
  using assms
proof (induction now created todo s rule: runSchedules.induct)
  case (2 now created i sch rest s)
  then have nd: "runDue now created sch s = Some (Inr (created, sch, s))"
    using runDue_closed [OF 2(2)] by (auto split: if_splits)
  let ?s = "s\<lparr>jw_schedules := mput i sch (jw_schedules s)\<rparr>"
  have "runSchedules now created rest ?s = Some (Inr (n, s'))" using 2(3) nd by simp
  moreover have "schedulesOK ?s" using 2(4,5) by (simp add: schedulesOK_def)
  moreover have "distinct (mkeys (jw_schedules ?s))" using 2(6) by (simp add: distinct_mput)
  ultimately have "jw_queue s' = jw_queue ?s \<and> sameBut ?s s' \<and> schedulesOK s' \<and> distinct (mkeys (jw_schedules s'))"
    by (intro 2(1) [OF nd refl refl refl]) (use 2(2,5) in simp_all)
  then show ?case by (simp add: sameBut_def)
qed (simp add: sameBut_def)

lemma ids_remove1: "j \<in> set js \<Longrightarrow> ids js = add_mset (job_ID j) (ids (remove1 j js))"
  by (metis image_mset_add_mset insert_DiffM mset_map mset_remove1 set_mset_mset)

lemma drainStep_inv:
  assumes "drainStep S S'" and "sysInv S"
  shows "sysInv S'"
  using assms(1)
proof (cases rule: drainStep.cases)
  case (worker_take n j q)
  then show ?thesis using assms(2) by (auto simp: sysInv_def schedulesOK_def)
next
  case (worker_success j)
  then show ?thesis using assms(2) ids_remove1 [of j "ws_busy S"]
    by (auto simp: sysInv_def dest: set_remove1_subset [THEN subsetD])
next
  case (worker_dead j e now)
  then have "job_Attempts j = cfg_RetryLimit (jw_cfg (ws_service S))"
    using assms(2) by (intro order_antisym) (simp_all add: sysInv_def)
  with worker_dead assms(2) ids_remove1 [of j "ws_busy S"] show ?thesis
    by (auto simp: sysInv_def schedulesOK_def newDead_def dest: set_remove1_subset [THEN subsetD])
next
  case (worker_retry j)
  then show ?thesis using assms(2) ids_remove1 [of j "ws_busy S"]
    by (auto simp: sysInv_def dest: set_remove1_subset [THEN subsetD])
next
  case (worker_exit n)
  then show ?thesis using assms(2) by (simp add: sysInv_def)
qed

lemma tick_inv:
  assumes "sysInv S" and "ws_panic S = None" and "runScheduledLocked now (ws_service S) = Some res"
  shows "sysInv (afterTick S res)"
proof -
  let ?s = "ws_service S"
  have ev: "\<forall>sch \<in> set (mvals (jw_schedules ?s)). 0 < ss_Every (sst_spec sch)"
    using assms(1) by (auto simp: sysInv_def schedulesOK_def map_of_eq_Some_iff)
  have inv: "schedulesOK ?s" "distinct (mkeys (jw_schedules ?s))"
      "int (length (jw_queue ?s)) \<le> cfg_QueueSize (jw_cfg ?s)"
    using assms(1) by (simp_all add: sysInv_def)
  consider (idle) "\<not> jw_started ?s" | (running) "jw_started ?s" "\<not> jw_queueClosed ?s"
    | (closed) "jw_started ?s" "jw_queueClosed ?s" by blast
  then show ?thesis
  proof cases
    case idle
    then have "res = Inr (0, ?s)" using assms(3) by (simp add: runScheduledLocked_def)
    then show ?thesis using assms(1) by (simp add: afterTick_def sysInv_def)
  next
    case running
    obtain s' new where r: "res = Inr (int (length new), s')"
        "jw_queue s' = jw_queue ?s @ new" "\<forall>j \<in> set new. job_Attempts j = 0"
        "int (length (jw_queue s')) \<le> cfg_QueueSize (jw_cfg ?s)" "sameBut ?s s'" "schedulesOK s'"
        "distinct (mkeys (jw_schedules s'))"
      using runSchedules_total [OF ev inv(1) running(2) inv(3,2), of now 0] assms(3) running(1) inv(2)
      by (auto simp: runScheduledLocked_def)
    then show ?thesis using assms(1) by (auto simp: afterTick_def sysInv_def sameBut_def)
  next
    case closed
    show ?thesis
    proof (cases res)
      case (Inl p)
      then show ?thesis using assms(1) closed by (simp add: afterTick_def sysInv_def)
    next
      case (Inr r)
      then obtain n s' where r: "res = Inr (n, s')" by (cases r) simp
      have "jw_queue s' = jw_queue ?s \<and> sameBut ?s s' \<and> schedulesOK s' \<and> distinct (mkeys (jw_schedules s'))"
        by (rule runSchedules_closed [OF closed(2) _ inv(1) ev inv(2), of now 0 n])
          (use assms(3) closed(1) r in \<open>simp add: runScheduledLocked_def\<close>)
      then show ?thesis using assms(1) r by (auto simp: afterTick_def sysInv_def sameBut_def)
    qed
  qed
qed

lemma workerStep_inv:
  assumes "workerStep S S'" and "sysInv S"
  shows "sysInv S'"
  using assms(1)
proof (cases rule: workerStep.cases)
  case (ws_send j)
  then show ?thesis using assms(2)
    by (auto simp: afterSend_def enqueueSend_def trySend_def sysInv_def schedulesOK_def
        dest: set_remove1_subset [THEN subsetD] split: sum.splits if_splits)
next
  case (ws_tick now res)
  then show ?thesis using tick_inv assms(2) by blast
next
  case ws_drain
  then show ?thesis using drainStep_inv assms(2) by blast
qed (use assms(2) in \<open>auto simp: sysInv_def schedulesOK_def start_def stop_def enqueueLocked_def
    registerSchedule_def Let_def distinct_mput split: if_splits\<close>)

lemma newSys_inv: "sysInv (newSys cfg)"
  by (simp add: sysInv_def newSys_def newService_def Let_def schedulesOK_def)

lemma workerReach_inv: "workerReach cfg S \<Longrightarrow> sysInv S"
proof (induction rule: rtranclp_induct)
  case base
  show ?case by (rule newSys_inv)
next
  case (step S S')
  then show ?case using workerStep_inv by blast
qed

text \<open>
  C29: no job is lost or done twice. In every reachable state of the worker, the jobs that the queue
  has ever accepted are exactly the queued ones, those being processed, the finished ones and the
  dead ones, counted with multiplicity; the queue is within its capacity; no job was tried more
  often than \<open>RetryLimit + 1\<close> times and every dead job exactly that often. A panic is possible only
  after \<open>Stop\<close> has closed the queue.
\<close>

theorem jobs_conserved:
  assumes "workerReach cfg S"
  shows "ids (ws_accepted S) = ids (jw_queue (ws_service S)) + ids (ws_busy S) + ids (ws_done S)
        + ids (map dj_Job (jw_deadQueue (ws_service S)))
     \<and> int (length (jw_queue (ws_service S))) \<le> cfg_QueueSize (jw_cfg (ws_service S))
     \<and> (\<forall>j \<in> set (ws_busy S). job_Attempts j \<le> cfg_RetryLimit (jw_cfg (ws_service S)))
     \<and> (\<forall>d \<in> set (jw_deadQueue (ws_service S)).
          job_Attempts (dj_Job d) = cfg_RetryLimit (jw_cfg (ws_service S)))
     \<and> (ws_panic S \<noteq> None \<longrightarrow> jw_queueClosed (ws_service S))"
  using workerReach_inv [OF assms] unfolding sysInv_def by auto

section \<open>Shutdown\<close>

definition jobWork :: "workerSys \<Rightarrow> job \<Rightarrow> nat" where
  "jobWork S j = nat (cfg_RetryLimit (jw_cfg (ws_service S)) - job_Attempts j)"

definition drainMeasure :: "workerSys \<Rightarrow> nat" where
  "drainMeasure S = sum_list (map (\<lambda>j. jobWork S j + 3) (jw_queue (ws_service S)))
     + sum_list (map (\<lambda>j. jobWork S j + 2) (ws_busy S)) + ws_idle S"

lemma sum_list_remove1:
  "j \<in> set js \<Longrightarrow> sum_list (map f js) = f j + sum_list (map (f :: _ \<Rightarrow> nat) (remove1 j js))"
  by (induction js) auto

lemma drainStep_decreases:
  assumes "drainStep S S'"
  shows "drainMeasure S' < drainMeasure S"
  using assms
proof (cases rule: drainStep.cases)
  case (worker_success j)
  then show ?thesis using sum_list_remove1 [of j "ws_busy S" "\<lambda>j. jobWork S j + 2"]
    by (simp add: drainMeasure_def jobWork_def)
next
  case (worker_dead j e now)
  then show ?thesis using sum_list_remove1 [of j "ws_busy S" "\<lambda>j. jobWork S j + 2"]
    by (simp add: drainMeasure_def jobWork_def)
next
  case (worker_retry j)
  have "jobWork S (j\<lparr>job_Attempts := job_Attempts j + 1\<rparr>) < jobWork S j"
    using worker_retry by (simp add: jobWork_def)
  with worker_retry show ?thesis using sum_list_remove1 [of j "ws_busy S" "\<lambda>j. jobWork S j + 2"]
    by (simp add: drainMeasure_def jobWork_def)
qed (auto simp: drainMeasure_def jobWork_def)

text \<open>While the queue has jobs, at least one worker is alive.\<close>

lemma drainStep_alive:
  assumes "drainStep S S'" and "jw_queueClosed (ws_service S)"
    and "jw_queue (ws_service S) = [] \<or> 0 < ws_idle S + length (ws_busy S)"
  shows "jw_queueClosed (ws_service S') \<and>
     (jw_queue (ws_service S') = [] \<or> 0 < ws_idle S' + length (ws_busy S'))"
  using assms by (cases rule: drainStep.cases) auto

lemma drainRun_alive:
  assumes "drainStep\<^sup>*\<^sup>* S S'" and "jw_queueClosed (ws_service S)"
    and "jw_queue (ws_service S) = [] \<or> 0 < ws_idle S + length (ws_busy S)"
  shows "jw_queueClosed (ws_service S') \<and>
     (jw_queue (ws_service S') = [] \<or> 0 < ws_idle S' + length (ws_busy S'))"
  using assms
proof (induction rule: rtranclp_induct)
  case (step y z)
  then show ?case using drainStep_alive [of y z] by simp
qed simp

lemma drainStep_enabled:
  assumes "jw_queueClosed (ws_service S)" and "0 < ws_idle S + length (ws_busy S)"
  shows "\<exists>S'. drainStep S S'"
proof (cases "ws_busy S")
  case (Cons j js)
  then show ?thesis using worker_success [of j S] by auto
next
  case Nil
  then obtain n where n: "ws_idle S = Suc n" using assms(2) by (cases "ws_idle S") auto
  show ?thesis
    by (cases "jw_queue (ws_service S)") (use n assms(1) worker_exit worker_take in blast)+
qed

text \<open>
  C36: \<open>Stop\<close> drains the queue and ends. Once the queue is closed and a worker is alive, the workers
  cannot run forever, each of their steps making progress, and when none of them can step any more
  the queue is empty, no job is in the hands of a worker and all workers have returned.
\<close>

theorem stop_drains:
  assumes "jw_queueClosed (ws_service S)" and "0 < ws_idle S + length (ws_busy S)"
    and "drainStep\<^sup>*\<^sup>* S S'"
  shows "drainMeasure S' \<le> drainMeasure S
     \<and> (\<forall>S''. drainStep S' S'' \<longrightarrow> drainMeasure S'' < drainMeasure S')
     \<and> ((\<nexists>S''. drainStep S' S'') \<longrightarrow> jw_queue (ws_service S') = [] \<and> ws_busy S' = [] \<and> ws_idle S' = 0)"
proof -
  have "drainMeasure S' \<le> drainMeasure S"
    using assms(3)
  proof (induction rule: rtranclp_induct)
    case (step y z)
    then show ?case using drainStep_decreases [of y z] by simp
  qed simp
  moreover have "jw_queue (ws_service S') = [] \<and> ws_busy S' = [] \<and> ws_idle S' = 0"
    if "\<nexists>S''. drainStep S' S''"
  proof -
    have alive: "jw_queueClosed (ws_service S')" "jw_queue (ws_service S') = [] \<or> 0 < ws_idle S' + length (ws_busy S')"
      using drainRun_alive [OF assms(3,1) disjI2 [OF assms(2)]] by simp_all
    then have "\<not> 0 < ws_idle S' + length (ws_busy S')" using drainStep_enabled [of S'] that by blast
    with alive(2) show ?thesis by simp
  qed
  ultimately show ?thesis using drainStep_decreases by blast
qed

section \<open>Two ways to panic\<close>

definition demoCfg :: config where
  "demoCfg = \<lparr>cfg_Workers = 1, cfg_QueueSize = 2, cfg_RetryLimit = 1, cfg_SchedulerTick = second\<rparr>"

definition demoJob :: job where
  "demoJob = \<lparr>job_ID = ''job-1'', job_Type = ''mail'', job_Payload = [], job_Attempts = 0\<rparr>"

definition demoSys :: "bool \<Rightarrow> bool \<Rightarrow> job list \<Rightarrow> job list \<Rightarrow> workerSys" where
  "demoSys running shut ps q = \<lparr>ws_service = \<lparr>jw_cfg = demoCfg, jw_started = running,
      jw_seq = int (length (ps @ q)), jw_queue = q, jw_queueClosed = shut, jw_deadQueue = [],
      jw_schedules = []\<rparr>, ws_pending = ps, ws_idle = 1, ws_busy = [], ws_done = [],
      ws_accepted = q, ws_panic = None\<rparr>"

lemma demo_newID: "fmtD 1 = ''1''"
  by code_simp

lemma demo_started: "workerReach demoCfg (demoSys True False [] [])"
proof -
  have "workerStep (newSys demoCfg) ((newSys demoCfg)\<lparr>ws_service := (newService demoCfg)\<lparr>jw_started := True\<rparr>,
      ws_idle := ws_idle (newSys demoCfg) + 1\<rparr>)"
    by (rule ws_start) (simp_all add: start_def newSys_def newService_def demoCfg_def Let_def)
  then show ?thesis
    by (intro r_into_rtranclp)
      (simp add: newSys_def newService_def demoCfg_def demoSys_def second_def Let_def)
qed

lemma demo_locked: "workerReach demoCfg (demoSys True False [demoJob] [])"
proof (rule rtranclp.rtrancl_into_rtrancl [OF demo_started])
  have "enqueueLocked ''mail'' [] (ws_service (demoSys True False [] []))
      = (Inr demoJob, (ws_service (demoSys True False [] []))\<lparr>jw_seq := 1\<rparr>)"
    by (simp add: enqueueLocked_def demoSys_def newID_def Let_def demo_newID cloneMap_def demoJob_def)
  from ws_enqueue [OF _ this] show "workerStep (demoSys True False [] []) (demoSys True False [demoJob] [])"
    by (simp add: demoSys_def)
qed

lemma demo_queued: "workerReach demoCfg (demoSys True False [] [demoJob])"
proof (rule rtranclp.rtrancl_into_rtrancl [OF demo_locked])
  show "workerStep (demoSys True False [demoJob] []) (demoSys True False [] [demoJob])"
    using ws_send [of "demoSys True False [demoJob] []" demoJob]
    by (simp add: afterSend_def enqueueSend_def trySend_def demoSys_def demoCfg_def)
qed

lemma demo_stop: "workerStep (demoSys True False p q) (demoSys False True p q)"
  using ws_stop [of "demoSys True False p q"] by (simp add: stop_def demoSys_def)

text \<open>
  \<open>Stop\<close> races with \<open>Enqueue\<close>. The mutex is released between the check that the worker runs and
  the send, so a \<open>Stop\<close> in between closes the queue and the send panics.
\<close>

theorem enqueue_stop_race:
  "\<exists>S. workerReach demoCfg S \<and> ws_panic S = Some ''send on closed channel''"
proof (intro exI conjI)
  let ?S = "demoSys False True [demoJob] []"
  show "workerReach demoCfg (afterSend ?S demoJob (enqueueSend demoJob (ws_service ?S)))"
    by (rule rtranclp.rtrancl_into_rtrancl [OF rtranclp.rtrancl_into_rtrancl [OF demo_locked demo_stop]])
      (rule ws_send, simp_all add: demoSys_def)
  show "ws_panic (afterSend ?S demoJob (enqueueSend demoJob (ws_service ?S))) = Some ''send on closed channel''"
    by (simp add: afterSend_def enqueueSend_def trySend_def demoSys_def)
qed

text \<open>
  A stopped worker cannot be used again. \<open>Start\<close> after \<open>Stop\<close> reports a running worker but does
  not make a new queue: every accepted \<open>Enqueue\<close> then panics, and so does the next \<open>Stop\<close>.
\<close>

theorem restart_panics:
  assumes "stop s = Inr s1" and "jw_started s" and "start s1 = (n, s2)"
    and "enqueueLocked jobType payload s2 = (Inr j, s3)"
  shows "jw_started s2 \<and> enqueueSend j s3 = Inl ''send on closed channel''
     \<and> stop s3 = Inl ''close of closed channel''"
  using assms
  by (auto simp: stop_def start_def enqueueLocked_def enqueueSend_def trySend_def Let_def split: if_splits)

section \<open>Witnesses\<close>

definition demoProc :: "nat processor" where
  "demoProc j w = (Some ''down'', w + 1)"

theorem process_with_retry_exact_witness:
  "processWithRetry demoProc 5 demoJob (ws_service (demoSys True False [] []), 0)
     = ((ws_service (demoSys True False [] []))\<lparr>jw_deadQueue := [newDead (demoJob\<lparr>job_Attempts := 1\<rparr>) ''down'' 5]\<rparr>, 2)"
proof -
  have "attempts demoProc demoJob 1 0 = [(Some ''down'', 1), (Some ''down'', 2)]"
    by (subst attempts.simps, simp add: demoProc_def, subst attempts.simps, simp add: demoProc_def)
  then show ?thesis
    using process_with_retry_exact [of demoJob "ws_service (demoSys True False [] [])" demoProc 0 5]
    by (simp add: demoJob_def demoSys_def demoCfg_def newDead_def)
qed

theorem scheduler_tick_exact_witness:
  "\<exists>n s'. runScheduledLocked 7 (snd (registerSchedule \<lparr>ss_ID = ''a'', ss_Every = 3, ss_JobType = ''t'', ss_Payload = []\<rparr> 0
       (ws_service (demoSys True False [] [])))) = Some (Inr (n, s')) \<and> int (length (jw_queue s')) \<le> 2"
proof -
  let ?s = "snd (registerSchedule \<lparr>ss_ID = ''a'', ss_Every = 3, ss_JobType = ''t'', ss_Payload = []\<rparr> 0
       (ws_service (demoSys True False [] [])))"
  have s: "jw_started ?s" "schedulesOK ?s" "distinct (mkeys (jw_schedules ?s))" "\<not> jw_queueClosed ?s"
      "int (length (jw_queue ?s)) \<le> cfg_QueueSize (jw_cfg ?s)" "cfg_QueueSize (jw_cfg ?s) = 2"
    by (simp_all add: registerSchedule_def demoSys_def schedulesOK_def demoCfg_def)
  from scheduler_tick_exact [OF s(1-5), of 7] show ?thesis unfolding s(6) by blast
qed

theorem jobs_conserved_witness:
  "ids (ws_accepted (demoSys True False [] [demoJob])) = {#''job-1''#}
     \<and> ids (jw_queue (ws_service (demoSys True False [] [demoJob]))) = {#''job-1''#}"
  using jobs_conserved [OF demo_queued] by (simp add: demoSys_def demoJob_def)

abbreviation demoDrained :: workerSys where
  "demoDrained \<equiv> (demoSys False True [] [demoJob])\<lparr>ws_idle := 0, ws_done := [demoJob],
     ws_service := (ws_service (demoSys False True [] [demoJob]))\<lparr>jw_queue := []\<rparr>\<rparr>"

lemma demo_drains: "drainStep\<^sup>*\<^sup>* (demoSys False True [] [demoJob]) demoDrained"
proof -
  let ?S = "demoSys False True [] [demoJob]"
  let ?T = "?S\<lparr>ws_idle := 0, ws_service := (ws_service ?S)\<lparr>jw_queue := []\<rparr>, ws_busy := [demoJob]\<rparr>"
  let ?U = "?T\<lparr>ws_busy := [], ws_idle := 1, ws_done := [demoJob]\<rparr>"
  have "drainStep ?S ?T" using worker_take [of ?S 0 demoJob "[]"] by (simp add: demoSys_def)
  moreover have "drainStep ?T ?U" using worker_success [of demoJob ?T] by (simp add: demoSys_def)
  moreover have "drainStep ?U demoDrained" using worker_exit [of ?U 0] by (simp add: demoSys_def)
  ultimately show ?thesis by (meson converse_rtranclp_into_rtranclp rtranclp.rtrancl_refl)
qed

theorem stop_drains_witness:
  "drainMeasure demoDrained \<le> drainMeasure (demoSys False True [] [demoJob])
     \<and> jw_queue (ws_service demoDrained) = [] \<and> ws_busy demoDrained = [] \<and> ws_idle demoDrained = 0"
  using stop_drains [OF _ _ demo_drains] by (auto simp: demoSys_def)

theorem restart_panics_witness:
  "enqueueSend demoJob (ws_service (demoSys True True [demoJob] [])) = Inl ''send on closed channel''"
proof -
  have "stop (ws_service (demoSys True False [] [])) = Inr (ws_service (demoSys False True [] []))"
    and "start (ws_service (demoSys False True [] [])) = (1, ws_service (demoSys True True [] []))"
    and "enqueueLocked ''mail'' [] (ws_service (demoSys True True [] []))
       = (Inr demoJob, ws_service (demoSys True True [demoJob] []))"
    by (simp_all add: stop_def start_def demoSys_def demoCfg_def enqueueLocked_def newID_def demo_newID
        cloneMap_def demoJob_def Let_def)
  from restart_panics [OF this(1) _ this(2,3)] show ?thesis by (simp add: demoSys_def)
qed

end
