(* ===== verification/RedisWorker.thy ===== *)
theory RedisWorker
  imports RedisBroker
begin

text \<open>
  \<open>internal/redisworker/worker.go\<close>: a pool of workers on a Redis list or stream. The Redis client
  and the processor are parameters over their own states \<open>'c\<close> and \<open>'p\<close>; \<open>queueLaws\<close> states what is
  documented of the commands. One call of \<open>consumeList\<close> or \<open>consumeStream\<close> is a function; the pool is
  a step relation whose steps are the Redis commands and processor calls of the workers, of the
  producers and of \<open>Stop\<close>, in any order.
\<close>

section \<open>Client, messages and configuration\<close>

text \<open>\<open>CtxCanceled\<close> and \<open>CtxDeadline\<close> stand for every error that \<open>errors.Is\<close> finds to be one of them.\<close>

datatype workerErr = NilReply | CtxCanceled | CtxDeadline | WorkerErr string

fun errText :: "workerErr \<Rightarrow> string" where
  "errText NilReply = ''redis: nil''"
| "errText CtxCanceled = ''context canceled''"
| "errText CtxDeadline = ''context deadline exceeded''"
| "errText (WorkerErr e) = e"

record 'c workerClient =
  wc_BLPop :: "duration \<Rightarrow> string list \<Rightarrow> 'c \<Rightarrow> (workerErr + string list) \<times> 'c"
  wc_LPush :: "string \<Rightarrow> string \<Rightarrow> 'c \<Rightarrow> workerErr option \<times> 'c"
  wc_XAdd :: "string \<Rightarrow> fieldMap \<Rightarrow> 'c \<Rightarrow> workerErr option \<times> 'c"
  wc_XGroupCreateMkStream :: "string \<Rightarrow> string \<Rightarrow> string \<Rightarrow> 'c \<Rightarrow> workerErr option \<times> 'c"
  wc_XReadGroup :: "string \<Rightarrow> string \<Rightarrow> string list \<Rightarrow> int64 \<Rightarrow> duration \<Rightarrow> 'c
     \<Rightarrow> (workerErr + (string \<times> streamEntry list) list) \<times> 'c"
  wc_XAck :: "string \<Rightarrow> string \<Rightarrow> string list \<Rightarrow> 'c \<Rightarrow> workerErr option \<times> 'c"
  wc_Close :: "'c \<Rightarrow> workerErr option \<times> 'c"

text \<open>\<open>Mode\<close> is a string, so that a configuration can hold any other.\<close>

definition modeList :: string where "modeList = ''list''"
definition modeStream :: string where "modeStream = ''stream''"

record workerMessage =
  wm_Queue :: string
  wm_Raw :: string
  wm_StreamID :: string
  wm_Fields :: "(string, string) gomap"

type_synonym 'p processor = "workerMessage \<Rightarrow> 'p \<Rightarrow> workerErr option \<times> 'p"

record redisWorkerConfig =
  rw_Addr :: string
  rw_Password :: string
  rw_DB :: int64
  rw_Mode :: string
  rw_QueueKey :: string
  rw_Workers :: int64
  rw_BlockTimeout :: duration
  rw_Group :: string
  rw_ConsumerPrefix :: string

text \<open>\<open>New\<close>: the checks in their order and the defaults. The client is made from the configuration.\<close>

definition newRedisWorker :: "redisWorkerConfig \<Rightarrow> 'p processor option \<Rightarrow> string + redisWorkerConfig" where
  "newRedisWorker cfg processor =
     (if processor = None then Inl ''processor is required''
      else if rw_Addr cfg = '''' then Inl ''redis addr is required''
      else if rw_QueueKey cfg = '''' then Inl ''queue key is required''
      else if rw_Mode cfg \<noteq> modeList \<and> rw_Mode cfg \<noteq> modeStream then Inl ''mode must be list or stream''
      else
        let cfg1 = (if rw_Workers cfg \<le> 0 then cfg\<lparr>rw_Workers := 1\<rparr> else cfg);
            cfg2 = (if rw_BlockTimeout cfg1 \<le> 0 then cfg1\<lparr>rw_BlockTimeout := second\<rparr> else cfg1)
        in if rw_Mode cfg2 = modeStream
           then if rw_Group cfg2 = '''' then Inl ''stream group is required''
                else if rw_ConsumerPrefix cfg2 = '''' then Inr (cfg2\<lparr>rw_ConsumerPrefix := ''consumer''\<rparr>)
                else Inr cfg2
           else Inr cfg2)"

definition isBusyGroup :: "workerErr option \<Rightarrow> bool" where
  "isBusyGroup err \<longleftrightarrow> (case err of None \<Rightarrow> False
     | Some e \<Rightarrow> containsSub ''BUSYGROUP'' (errText e) \<or> containsSub ''Consumer Group name already exists'' (errText e))"

text \<open>\<open>Start\<close>: the error, or the number of workers started.\<close>

definition startWorkers :: "'c workerClient \<Rightarrow> redisWorkerConfig \<Rightarrow> 'c \<Rightarrow> (string + nat) \<times> 'c" where
  "startWorkers client cfg c =
     (let (err, c1) = (if rw_Mode cfg = modeStream
          then wc_XGroupCreateMkStream client (rw_QueueKey cfg) (rw_Group cfg) ''$'' c else (None, c))
      in case err of
           Some e \<Rightarrow> if \<not> isBusyGroup err then (Inl (''create stream group: '' @ errText e), c1)
                      else (Inr (nat (rw_Workers cfg)), c1)
         | None \<Rightarrow> (Inr (nat (rw_Workers cfg)), c1))"

section \<open>Producers\<close>

definition enqueueList :: "'c workerClient \<Rightarrow> redisWorkerConfig \<Rightarrow> string \<Rightarrow> 'c \<Rightarrow> workerErr option \<times> 'c" where
  "enqueueList client cfg payload c =
     (if rw_Mode cfg \<noteq> modeList then (Some (WorkerErr ''service mode is not list''), c)
      else wc_LPush client (rw_QueueKey cfg) payload c)"

definition enqueueStream ::
  "'c workerClient \<Rightarrow> redisWorkerConfig \<Rightarrow> (string, string) gomap \<Rightarrow> 'c \<Rightarrow> workerErr option \<times> 'c" where
  "enqueueStream client cfg flds c =
     (if rw_Mode cfg \<noteq> modeStream then (Some (WorkerErr ''service mode is not stream''), c)
      else wc_XAdd client (rw_QueueKey cfg) (map (\<lambda>(k, v). (k, AnyString v)) flds) c)"

section \<open>One round of a worker\<close>

definition listMessage :: "redisWorkerConfig \<Rightarrow> string \<Rightarrow> workerMessage" where
  "listMessage cfg payload = \<lparr>wm_Queue = rw_QueueKey cfg, wm_Raw = payload, wm_StreamID = '''', wm_Fields = []\<rparr>"

text \<open>
  The fetch of \<open>consumeList\<close>, up to the call of the processor: the result the function returns
  without a message, or the message.
\<close>

definition takeList :: "'c workerClient \<Rightarrow> redisWorkerConfig \<Rightarrow> 'c \<Rightarrow> (workerErr option + workerMessage list) \<times> 'c" where
  "takeList client cfg c = (case wc_BLPop client (rw_BlockTimeout cfg) [rw_QueueKey cfg] c of
       (Inl e, c1) \<Rightarrow> (Inl (if e = NilReply then None else Some e), c1)
     | (Inr res, c1) \<Rightarrow> if length res \<noteq> 2 then (Inl None, c1)
         else (Inr [listMessage cfg (res ! 1)], c1))"

definition consumeList ::
  "'c workerClient \<Rightarrow> redisWorkerConfig \<Rightarrow> 'p processor \<Rightarrow> 'c \<times> 'p \<Rightarrow> workerErr option \<times> 'c \<times> 'p" where
  "consumeList client cfg processor cp = (let (c, p) = cp in case takeList client cfg c of
       (Inl r, c1) \<Rightarrow> (r, c1, p)
     | (Inr ms, c1) \<Rightarrow> (let (e, p1) = processor (hd ms) p in (e, c1, p1)))"

text \<open>\<open>fmt.Sprint\<close> of a field value.\<close>

definition sprint :: "anyVal \<Rightarrow> string" where
  "sprint v = (case v of AnyString s \<Rightarrow> s | AnyOther s \<Rightarrow> s)"

definition streamMessage :: "string \<Rightarrow> streamEntry \<Rightarrow> workerMessage" where
  "streamMessage stream msg = \<lparr>wm_Queue = stream, wm_Raw = '''', wm_StreamID = fst msg,
     wm_Fields = foldl (\<lambda>flds (k, v). mput k (sprint v) flds) [] (snd msg)\<rparr>"

definition consumerName :: "redisWorkerConfig \<Rightarrow> nat \<Rightarrow> uint64 \<Rightarrow> string" where
  "consumerName cfg idx n = rw_ConsumerPrefix cfg @ ''-'' @ fmtNat idx @ ''-'' @ fmtNat (unat n)"

text \<open>The fetch of \<open>consumeStream\<close>; \<open>seq\<close> is the counter of the service.\<close>

definition takeStream :: "'c workerClient \<Rightarrow> redisWorkerConfig \<Rightarrow> nat \<Rightarrow> uint64 \<Rightarrow> 'c
     \<Rightarrow> (workerErr option + workerMessage list) \<times> uint64 \<times> 'c" where
  "takeStream client cfg idx seq c = (let n = seq + 1 in
     case wc_XReadGroup client (rw_Group cfg) (consumerName cfg idx n) [rw_QueueKey cfg, ''>''] 1 (rw_BlockTimeout cfg) c of
       (Inl e, c1) \<Rightarrow> (Inl (if e = NilReply then None else Some e), n, c1)
     | (Inr streams, c1) \<Rightarrow> (Inr (concat (map (\<lambda>(s, msgs). map (streamMessage s) msgs) streams)), n, c1))"

definition ackMessage :: "'c workerClient \<Rightarrow> redisWorkerConfig \<Rightarrow> workerMessage \<Rightarrow> 'c \<Rightarrow> 'c" where
  "ackMessage client cfg m c = snd (wc_XAck client (rw_QueueKey cfg) (rw_Group cfg) [wm_StreamID m] c)"

fun handleStream :: "'c workerClient \<Rightarrow> redisWorkerConfig \<Rightarrow> 'p processor \<Rightarrow> workerMessage list \<Rightarrow> 'c \<times> 'p \<Rightarrow> 'c \<times> 'p" where
  "handleStream client cfg processor [] cp = cp"
| "handleStream client cfg processor (m # ms) cp =
     (let (e, p1) = processor m (snd cp);
          c1 = (if e = None then ackMessage client cfg m (fst cp) else fst cp)
      in handleStream client cfg processor ms (c1, p1))"

definition consumeStream :: "'c workerClient \<Rightarrow> redisWorkerConfig \<Rightarrow> 'p processor \<Rightarrow> nat
     \<Rightarrow> uint64 \<times> 'c \<times> 'p \<Rightarrow> workerErr option \<times> uint64 \<times> 'c \<times> 'p" where
  "consumeStream client cfg processor idx st = (let (seq, c, p) = st in
     case takeStream client cfg idx seq c of
       (Inl r, n, c1) \<Rightarrow> (r, n, c1, p)
     | (Inr ms, n, c1) \<Rightarrow> (None, n, handleStream client cfg processor ms (c1, p)))"

text \<open>
  One turn of \<open>workerLoop\<close>: whether the worker returns, goes on, or goes on after a pause of 25 ms.
  The loop runs one turn per poll of the context, which the list of polls gives.
\<close>

datatype loopStep = LoopReturn | LoopAgain | LoopPause duration

definition workerTurn :: "'c workerClient \<Rightarrow> redisWorkerConfig \<Rightarrow> 'p processor \<Rightarrow> nat \<Rightarrow> bool
     \<Rightarrow> uint64 \<times> 'c \<times> 'p \<Rightarrow> loopStep \<times> uint64 \<times> 'c \<times> 'p" where
  "workerTurn client cfg processor idx ctxDone st =
     (if ctxDone then (LoopReturn, st)
      else let (err, st1) = (if rw_Mode cfg = modeList
                 then (let (seq, cp) = st; (e, cp1) = consumeList client cfg processor cp in (e, seq, cp1))
                 else consumeStream client cfg processor idx st)
           in (case err of None \<Rightarrow> LoopAgain
               | Some e \<Rightarrow> if e = CtxCanceled \<or> e = CtxDeadline then LoopReturn else LoopPause (25 * millisecond), st1))"

fun workerLoop :: "'c workerClient \<Rightarrow> redisWorkerConfig \<Rightarrow> 'p processor \<Rightarrow> nat \<Rightarrow> bool list
     \<Rightarrow> uint64 \<times> 'c \<times> 'p \<Rightarrow> bool \<times> uint64 \<times> 'c \<times> 'p" where
  "workerLoop client cfg processor idx [] st = (False, st)"
| "workerLoop client cfg processor idx (b # polls) st = (let (k, st1) = workerTurn client cfg processor idx b st
     in if k = LoopReturn then (True, st1) else workerLoop client cfg processor idx polls st1)"

section \<open>The pool\<close>

text \<open>
  A worker polls its context, fetches, hands the messages it holds to the processor one after the
  other and, in stream mode, acknowledges each one that was processed without an error.
  \<open>ws_accepted\<close> and \<open>ws_refused\<close> record the messages of the producers whose call returned no error
  or an error, \<open>ws_handled\<close> the calls of the processor and whether they succeeded, \<open>ws_acked\<close> the
  acknowledged ids and \<open>ws_fetchFailed\<close> whether a fetch has ever returned an error.
\<close>

datatype workerPC = Polling | Fetching | Holding "workerMessage list" | Acking workerMessage "workerMessage list" | Exited

record ('c, 'p) workerPool =
  ws_redis :: 'c
  ws_proc :: 'p
  ws_seq :: uint64
  ws_ctxDone :: bool
  ws_pcs :: "workerPC list"
  ws_accepted :: "workerMessage list"
  ws_refused :: "workerMessage list"
  ws_handled :: "(workerMessage \<times> bool) list"
  ws_acked :: "string list"
  ws_fetchFailed :: bool

definition ctxError :: "workerErr \<Rightarrow> bool" where
  "ctxError e \<longleftrightarrow> e = CtxCanceled \<or> e = CtxDeadline"

definition afterError :: "workerErr option \<Rightarrow> workerPC" where
  "afterError err = (case err of Some e \<Rightarrow> if ctxError e then Exited else Polling | None \<Rightarrow> Polling)"

definition holding :: "workerMessage list \<Rightarrow> workerPC" where
  "holding ms = (if ms = [] then Polling else Holding ms)"

definition afterFetch :: "(workerErr option + workerMessage list) \<Rightarrow> workerPC" where
  "afterFetch r = (case r of Inl err \<Rightarrow> afterError err | Inr ms \<Rightarrow> holding ms)"

definition fetchFails :: "(workerErr option + workerMessage list) \<Rightarrow> bool" where
  "fetchFails r \<longleftrightarrow> (case r of Inl err \<Rightarrow> err \<noteq> None | Inr ms \<Rightarrow> False)"

definition afterProcess :: "redisWorkerConfig \<Rightarrow> workerErr option \<Rightarrow> workerMessage \<Rightarrow> workerMessage list \<Rightarrow> workerPC" where
  "afterProcess cfg err m ms =
     (if rw_Mode cfg = modeList then afterError err else if err = None then Acking m ms else holding ms)"

definition produced :: "workerErr option \<Rightarrow> workerMessage \<Rightarrow> ('c, 'p) workerPool \<Rightarrow> ('c, 'p) workerPool" where
  "produced err m S = (if err = None then S\<lparr>ws_accepted := m # ws_accepted S\<rparr> else S\<lparr>ws_refused := m # ws_refused S\<rparr>)"

definition setPC :: "nat \<Rightarrow> workerPC \<Rightarrow> ('c, 'p) workerPool \<Rightarrow> ('c, 'p) workerPool" where
  "setPC i pc S = S\<lparr>ws_pcs := (ws_pcs S)[i := pc]\<rparr>"

definition fetched :: "(workerErr option + workerMessage list) \<Rightarrow> uint64 \<Rightarrow> 'c \<Rightarrow> nat \<Rightarrow> ('c, 'p) workerPool \<Rightarrow> ('c, 'p) workerPool" where
  "fetched r n c i S =
     setPC i (afterFetch r) (S\<lparr>ws_redis := c, ws_seq := n, ws_fetchFailed := (ws_fetchFailed S \<or> fetchFails r)\<rparr>)"

definition processed :: "redisWorkerConfig \<Rightarrow> workerErr option \<Rightarrow> 'p \<Rightarrow> workerMessage \<Rightarrow> workerMessage list \<Rightarrow> nat
     \<Rightarrow> ('c, 'p) workerPool \<Rightarrow> ('c, 'p) workerPool" where
  "processed cfg err p m ms i S =
     setPC i (afterProcess cfg err m ms) (S\<lparr>ws_proc := p, ws_handled := (m, err = None) # ws_handled S\<rparr>)"

definition acked :: "'c \<Rightarrow> workerMessage \<Rightarrow> workerMessage list \<Rightarrow> nat \<Rightarrow> ('c, 'p) workerPool \<Rightarrow> ('c, 'p) workerPool" where
  "acked c m ms i S = setPC i (holding ms) (S\<lparr>ws_redis := c, ws_acked := wm_StreamID m # ws_acked S\<rparr>)"

text \<open>A producer's message in a stream, before the stream gives it an id.\<close>

definition newStreamMessage :: "redisWorkerConfig \<Rightarrow> (string, string) gomap \<Rightarrow> workerMessage" where
  "newStreamMessage cfg flds = streamMessage (rw_QueueKey cfg) ('''', map (\<lambda>(k, v). (k, AnyString v)) flds)"

inductive poolStep ::
  "'c workerClient \<Rightarrow> redisWorkerConfig \<Rightarrow> 'p processor \<Rightarrow> ('c, 'p) workerPool \<Rightarrow> ('c, 'p) workerPool \<Rightarrow> bool"
  for client cfg processor where
  ProduceList: "enqueueList client cfg payload (ws_redis S) = (err, c)
    \<Longrightarrow> poolStep client cfg processor S (produced err (listMessage cfg payload) (S\<lparr>ws_redis := c\<rparr>))"
| ProduceStream: "enqueueStream client cfg flds (ws_redis S) = (err, c)
    \<Longrightarrow> poolStep client cfg processor S (produced err (newStreamMessage cfg flds) (S\<lparr>ws_redis := c\<rparr>))"
| Poll: "\<lbrakk>i < length (ws_pcs S); ws_pcs S ! i = Polling\<rbrakk>
    \<Longrightarrow> poolStep client cfg processor S (setPC i (if ws_ctxDone S then Exited else Fetching) S)"
| FetchList: "\<lbrakk>i < length (ws_pcs S); ws_pcs S ! i = Fetching; rw_Mode cfg = modeList;
     takeList client cfg (ws_redis S) = (r, c)\<rbrakk>
    \<Longrightarrow> poolStep client cfg processor S (fetched r (ws_seq S) c i S)"
| FetchStream: "\<lbrakk>i < length (ws_pcs S); ws_pcs S ! i = Fetching; rw_Mode cfg \<noteq> modeList;
     takeStream client cfg i (ws_seq S) (ws_redis S) = (r, n, c)\<rbrakk>
    \<Longrightarrow> poolStep client cfg processor S (fetched r n c i S)"
| Process: "\<lbrakk>i < length (ws_pcs S); ws_pcs S ! i = Holding (m # ms); processor m (ws_proc S) = (err, p)\<rbrakk>
    \<Longrightarrow> poolStep client cfg processor S (processed cfg err p m ms i S)"
| Acknowledge: "\<lbrakk>i < length (ws_pcs S); ws_pcs S ! i = Acking m ms\<rbrakk>
    \<Longrightarrow> poolStep client cfg processor S (acked (ackMessage client cfg m (ws_redis S)) m ms i S)"
| Cancel: "poolStep client cfg processor S (S\<lparr>ws_ctxDone := True\<rparr>)"

definition newPool :: "nat \<Rightarrow> 'c \<Rightarrow> 'p \<Rightarrow> ('c, 'p) workerPool" where
  "newPool n c p = \<lparr>ws_redis = c, ws_proc = p, ws_seq = 0, ws_ctxDone = False, ws_pcs = replicate n Polling,
     ws_accepted = [], ws_refused = [], ws_handled = [], ws_acked = [], ws_fetchFailed = False\<rparr>"

lemmas pool_defs = setPC_def fetched_def processed_def acked_def produced_def

text \<open>A turn of the worker loop is a sequence of steps of the pool, with no other step in between.\<close>

lemma holding_run:
  assumes "rw_Mode cfg \<noteq> modeList" and "i < length (ws_pcs S)" and "ws_pcs S ! i = holding ms"
    and "handleStream client cfg processor ms (ws_redis S, ws_proc S) = (c, p)"
  shows "\<exists>S'. (poolStep client cfg processor)\<^sup>*\<^sup>* S S' \<and> ws_redis S' = c \<and> ws_proc S' = p \<and> ws_seq S' = ws_seq S \<and>
     ws_pcs S' = (ws_pcs S)[i := Polling]"
  using assms(2-)
proof (induction ms arbitrary: S)
  case Nil
  then show ?case by (intro exI [of _ S]) (simp add: holding_def, metis list_update_id)
next
  case (Cons m ms)
  obtain err p1 where e: "processor m (ws_proc S) = (err, p1)" by fastforce
  let ?S1 = "processed cfg err p1 m ms i S"
  let ?S2 = "if err = None then acked (ackMessage client cfg m (ws_redis ?S1)) m ms i ?S1 else ?S1"
  have "poolStep client cfg processor S ?S1"
    using Cons.prems(1,2) e by (intro Process) (simp_all add: holding_def)
  moreover have "err = None \<Longrightarrow> poolStep client cfg processor ?S1 (acked (ackMessage client cfg m (ws_redis ?S1)) m ms i ?S1)"
    using Cons.prems(1) assms(1) by (intro Acknowledge) (simp_all add: pool_defs afterProcess_def)
  ultimately have steps: "(poolStep client cfg processor)\<^sup>*\<^sup>* S ?S2"
    by (cases "err = None") (auto intro: rtranclp.rtrancl_into_rtrancl)
  have s2: "i < length (ws_pcs ?S2)" "ws_pcs ?S2 ! i = holding ms" "ws_seq ?S2 = ws_seq S"
    "(ws_pcs ?S2)[i := Polling] = (ws_pcs S)[i := Polling]"
    "handleStream client cfg processor ms (ws_redis ?S2, ws_proc ?S2) = (c, p)"
    using Cons.prems assms(1) e by (cases err; simp add: pool_defs afterProcess_def)+
  from Cons.IH [OF s2(1,2,5)] obtain S' where S': "(poolStep client cfg processor)\<^sup>*\<^sup>* ?S2 S'"
    "ws_redis S' = c" "ws_proc S' = p" "ws_seq S' = ws_seq ?S2" "ws_pcs S' = (ws_pcs ?S2)[i := Polling]" by blast
  from rtranclp_trans [OF steps S'(1)] S'(2-) s2(3,4) show ?case by (intro exI [of _ S']) simp
qed

lemma turn_is_steps:
  assumes "i < length (ws_pcs S)" and "ws_pcs S ! i = Polling"
    and "workerTurn client cfg processor i (ws_ctxDone S) (ws_seq S, ws_redis S, ws_proc S) = (k, n, c, p)"
  shows "\<exists>S'. (poolStep client cfg processor)\<^sup>*\<^sup>* S S' \<and> ws_redis S' = c \<and> ws_proc S' = p \<and> ws_seq S' = n \<and>
     ws_pcs S' = (ws_pcs S)[i := if k = LoopReturn then Exited else Polling]"
proof -
  let ?S1 = "setPC i (if ws_ctxDone S then Exited else Fetching) S"
  have poll: "poolStep client cfg processor S ?S1" using assms by (intro Poll) simp_all
  show ?thesis
  proof (cases "ws_ctxDone S")
    case True
    with poll assms(3) show ?thesis by (intro exI [of _ ?S1]) (auto simp: workerTurn_def setPC_def)
  next
    case running: False
    have here: "i < length (ws_pcs ?S1)" "ws_pcs ?S1 ! i = Fetching" "ws_redis ?S1 = ws_redis S" "ws_seq ?S1 = ws_seq S"
      "ws_proc ?S1 = ws_proc S" using assms running by (simp_all add: setPC_def)
    show ?thesis
    proof (cases "rw_Mode cfg = modeList")
      case True
      obtain r c1 where r: "takeList client cfg (ws_redis S) = (r, c1)" by fastforce
      let ?S2 = "fetched r (ws_seq ?S1) c1 i ?S1"
      have fetch: "poolStep client cfg processor ?S1 ?S2" using here True r by (intro FetchList) simp_all
      show ?thesis
      proof (cases r)
        case (Inl err)
        with poll fetch assms True r running show ?thesis
          by (intro exI [of _ ?S2]) (auto simp: workerTurn_def consumeList_def pool_defs afterFetch_def afterError_def ctxError_def
              split: option.splits)
      next
        case (Inr ms)
        then obtain m where ms: "ms = [m]" using r by (auto simp: takeList_def split: sum.splits prod.splits if_splits)
        obtain err p1 where e: "processor m (ws_proc S) = (err, p1)" by fastforce
        let ?S3 = "processed cfg err p1 m [] i ?S2"
        have "poolStep client cfg processor ?S2 ?S3"
          using here e Inr ms by (intro Process) (simp_all add: pool_defs afterFetch_def holding_def)
        with poll fetch assms True r running Inr ms e show ?thesis
          by (intro exI [of _ ?S3])
            (auto simp: workerTurn_def consumeList_def pool_defs afterProcess_def afterError_def ctxError_def split: option.splits)
      qed
    next
      case False
      obtain r n1 c1 where r: "takeStream client cfg i (ws_seq S) (ws_redis S) = (r, n1, c1)" by (metis prod.exhaust)
      let ?S2 = "fetched r n1 c1 i ?S1"
      have fetch: "poolStep client cfg processor ?S1 ?S2" using here False r by (intro FetchStream) simp_all
      show ?thesis
      proof (cases r)
        case (Inl err)
        with poll fetch assms False r running show ?thesis
          by (intro exI [of _ ?S2]) (auto simp: workerTurn_def consumeStream_def pool_defs afterFetch_def afterError_def ctxError_def
              split: option.splits)
      next
        case (Inr ms)
        obtain c2 p2 where h: "handleStream client cfg processor ms (c1, ws_proc S) = (c2, p2)" by fastforce
        have "ws_pcs ?S2 ! i = holding ms" "i < length (ws_pcs ?S2)" "ws_redis ?S2 = c1" "ws_proc ?S2 = ws_proc S"
          using here Inr by (simp_all add: pool_defs afterFetch_def)
        with holding_run [OF False, of i ?S2 ms client processor c2 p2] h
        obtain S' where "(poolStep client cfg processor)\<^sup>*\<^sup>* ?S2 S'" "ws_redis S' = c2" "ws_proc S' = p2"
          "ws_seq S' = ws_seq ?S2" "ws_pcs S' = (ws_pcs ?S2)[i := Polling]" by auto
        with poll fetch assms False r running Inr h show ?thesis
          by (intro exI [of _ S']) (auto simp: workerTurn_def consumeStream_def pool_defs
              intro: converse_rtranclp_into_rtranclp)
      qed
    qed
  qed
qed

section \<open>Documented behaviour of the commands\<close>

text \<open>
  What a Redis server holds: the lists, head first, the entries of the streams, oldest first, and
  how many of them were delivered to each group. \<open>LPUSH\<close> puts a value before the head and \<open>BLPOP\<close>
  takes the head; the stream commands are as for the event broker. A command that returns an error
  may have had its effect on the server.
\<close>

record redisView =
  rv_lists :: "string \<Rightarrow> string list"
  rv_entries :: "string \<Rightarrow> streamEntry list"
  rv_delivered :: "string \<Rightarrow> string \<Rightarrow> nat"

definition withList :: "string \<Rightarrow> string list \<Rightarrow> redisView \<Rightarrow> redisView" where
  "withList k xs v = v\<lparr>rv_lists := (rv_lists v)(k := xs)\<rparr>"

definition withEntries :: "string \<Rightarrow> streamEntry list \<Rightarrow> redisView \<Rightarrow> redisView" where
  "withEntries s es v = v\<lparr>rv_entries := (rv_entries v)(s := es)\<rparr>"

definition withDelivered :: "string \<Rightarrow> string \<Rightarrow> nat \<Rightarrow> redisView \<Rightarrow> redisView" where
  "withDelivered s g n v = v\<lparr>rv_delivered := (rv_delivered v)(s := (rv_delivered v s)(g := n))\<rparr>"

definition blpopLaw :: "string \<Rightarrow> redisView \<Rightarrow> (workerErr + string list) \<Rightarrow> redisView \<Rightarrow> bool" where
  "blpopLaw k v res v' \<longleftrightarrow> (case res of
       Inl NilReply \<Rightarrow> v' = v \<and> rv_lists v k = []
     | Inl _ \<Rightarrow> v' = v \<or> v' = withList k (tl (rv_lists v k)) v
     | Inr vs \<Rightarrow> rv_lists v k \<noteq> [] \<and> vs = [k, hd (rv_lists v k)] \<and> v' = withList k (tl (rv_lists v k)) v)"

definition readLaw :: "string \<Rightarrow> string \<Rightarrow> redisView \<Rightarrow> (workerErr + (string \<times> streamEntry list) list) \<Rightarrow> redisView \<Rightarrow> bool" where
  "readLaw s g v res v' \<longleftrightarrow> (case res of
       Inl NilReply \<Rightarrow> v' = v \<and> rv_delivered v s g = length (rv_entries v s)
     | Inl _ \<Rightarrow> v' = v \<or> (rv_delivered v s g < length (rv_entries v s) \<and> v' = withDelivered s g (rv_delivered v s g + 1) v)
     | Inr rs \<Rightarrow> rv_delivered v s g < length (rv_entries v s) \<and> rs = [(s, [rv_entries v s ! rv_delivered v s g])] \<and>
         v' = withDelivered s g (rv_delivered v s g + 1) v)"

definition queueLaws :: "'c workerClient \<Rightarrow> ('c \<Rightarrow> redisView) \<Rightarrow> bool" where
  "queueLaws client view \<longleftrightarrow>
     (\<forall>k x c e c'. wc_LPush client k x c = (e, c') \<longrightarrow>
        view c' = withList k (x # rv_lists (view c) k) (view c) \<or> (e \<noteq> None \<and> view c' = view c)) \<and>
     (\<forall>t k c res c'. wc_BLPop client t [k] c = (res, c') \<longrightarrow> blpopLaw k (view c) res (view c')) \<and>
     (\<forall>s flds c e c'. wc_XAdd client s flds c = (e, c') \<longrightarrow>
        (\<exists>i. view c' = withEntries s (rv_entries (view c) s @ [(i, flds)]) (view c)) \<or> (e \<noteq> None \<and> view c' = view c)) \<and>
     (\<forall>g name s t c res c'. wc_XReadGroup client g name [s, ''>''] 1 t c = (res, c') \<longrightarrow> readLaw s g (view c) res (view c')) \<and>
     (\<forall>s g is c. view (snd (wc_XAck client s g is c)) = view c) \<and>
     (\<forall>c s. distinct (map fst (rv_entries (view c) s)))"

lemma queueLaws_push:
  "queueLaws client view \<Longrightarrow> wc_LPush client k x c = (e, c') \<Longrightarrow>
     view c' = withList k (x # rv_lists (view c) k) (view c) \<or> (e \<noteq> None \<and> view c' = view c)"
  unfolding queueLaws_def by (elim conjE) metis

lemma queueLaws_pop:
  "queueLaws client view \<Longrightarrow> wc_BLPop client t [k] c = (res, c') \<Longrightarrow> blpopLaw k (view c) res (view c')"
  unfolding queueLaws_def by (elim conjE) metis

lemma queueLaws_add:
  "queueLaws client view \<Longrightarrow> wc_XAdd client s flds c = (e, c') \<Longrightarrow>
     (\<exists>i. view c' = withEntries s (rv_entries (view c) s @ [(i, flds)]) (view c)) \<or> (e \<noteq> None \<and> view c' = view c)"
  unfolding queueLaws_def by (elim conjE) metis

lemma queueLaws_read:
  "queueLaws client view \<Longrightarrow> wc_XReadGroup client g name [s, ''>''] 1 t c = (res, c') \<Longrightarrow> readLaw s g (view c) res (view c')"
  unfolding queueLaws_def by (elim conjE) metis

lemma queueLaws_ack: "queueLaws client view \<Longrightarrow> view (snd (wc_XAck client s g is c)) = view c"
  unfolding queueLaws_def by (elim conjE) metis

lemma queueLaws_distinct: "queueLaws client view \<Longrightarrow> distinct (map fst (rv_entries (view c) s))"
  unfolding queueLaws_def by (elim conjE) metis

section \<open>Messages are neither invented, repeated nor lost\<close>

text \<open>A message without its stream id, and the messages that wait in the queue of a configuration.\<close>

definition content :: "workerMessage \<Rightarrow> workerMessage" where
  "content m = m\<lparr>wm_StreamID := ''''\<rparr>"

definition contents :: "workerMessage list \<Rightarrow> workerMessage multiset" where
  "contents ms = mset (map content ms)"

definition waiting :: "redisWorkerConfig \<Rightarrow> redisView \<Rightarrow> workerMessage list" where
  "waiting cfg v = (let k = rw_QueueKey cfg in
     if rw_Mode cfg = modeList then map (listMessage cfg) (rv_lists v k)
     else map (streamMessage k) (drop (rv_delivered v k (rw_Group cfg)) (rv_entries v k)))"

definition deliveredTo :: "redisWorkerConfig \<Rightarrow> redisView \<Rightarrow> string list" where
  "deliveredTo cfg v = map fst (take (rv_delivered v (rw_QueueKey cfg) (rw_Group cfg)) (rv_entries v (rw_QueueKey cfg)))"

lemma contents_simps [simp]:
  "contents [] = {#}" "contents (m # ms) = add_mset (content m) (contents ms)" "contents (ms @ ns) = contents ms + contents ns"
  by (simp_all add: contents_def)

lemma content_simps [simp]:
  "content (listMessage cfg x) = listMessage cfg x"
  "content (streamMessage k e) = streamMessage k ('''', snd e)"
  by (simp_all add: content_def listMessage_def streamMessage_def)

lemma enqueueList_waiting:
  assumes "queueLaws client view" and "enqueueList client cfg x c = (err, c')"
  shows "contents (waiting cfg (view c')) = add_mset (listMessage cfg x) (contents (waiting cfg (view c))) \<and>
       rw_Mode cfg = modeList \<and> view c' = withList (rw_QueueKey cfg) (x # rv_lists (view c) (rw_QueueKey cfg)) (view c) \<or>
     err \<noteq> None \<and> view c' = view c"
  using assms(2) queueLaws_push [OF assms(1), of "rw_QueueKey cfg" x c err c']
  by (auto simp: enqueueList_def waiting_def Let_def withList_def split: if_splits)

lemma enqueueStream_waiting:
  assumes "queueLaws client view" and "enqueueStream client cfg flds c = (err, c')"
    and "rv_delivered (view c) (rw_QueueKey cfg) (rw_Group cfg) \<le> length (rv_entries (view c) (rw_QueueKey cfg))"
  shows "contents (waiting cfg (view c')) = add_mset (newStreamMessage cfg flds) (contents (waiting cfg (view c))) \<and>
       rw_Mode cfg \<noteq> modeList \<and> deliveredTo cfg (view c') = deliveredTo cfg (view c) \<and>
       rv_delivered (view c') (rw_QueueKey cfg) (rw_Group cfg) \<le> length (rv_entries (view c') (rw_QueueKey cfg)) \<or>
     err \<noteq> None \<and> view c' = view c"
  using assms(2,3)
    queueLaws_add [OF assms(1), of "rw_QueueKey cfg" "map (\<lambda>(k, v). (k, AnyString v)) flds" c err c']
  by (auto simp: enqueueStream_def waiting_def Let_def withEntries_def newStreamMessage_def deliveredTo_def
      modeList_def modeStream_def split: if_splits)

lemma takeList_waiting:
  assumes "queueLaws client view" and "takeList client cfg c = (r, c')" and "rw_Mode cfg = modeList"
  shows "case r of Inr ms \<Rightarrow> waiting cfg (view c) = ms @ waiting cfg (view c') \<and> length ms = 1
     | Inl None \<Rightarrow> view c' = view c
     | Inl (Some e) \<Rightarrow> waiting cfg (view c') = waiting cfg (view c) \<or> waiting cfg (view c') = tl (waiting cfg (view c))"
proof -
  obtain res where b: "wc_BLPop client (rw_BlockTimeout cfg) [rw_QueueKey cfg] c = (res, c')"
    using assms(2) by (auto simp: takeList_def split: prod.splits sum.splits if_splits)
  from queueLaws_pop [OF assms(1) b] b assms(2,3) show ?thesis
    by (cases "rv_lists (view c) (rw_QueueKey cfg)")
      (auto simp: takeList_def blpopLaw_def waiting_def Let_def withList_def
        split: sum.splits workerErr.splits if_splits)
qed

lemma takeStream_waiting:
  assumes "queueLaws client view" and "takeStream client cfg i n c = (r, n', c')" and "rw_Mode cfg \<noteq> modeList"
    and "rv_delivered (view c) (rw_QueueKey cfg) (rw_Group cfg) \<le> length (rv_entries (view c) (rw_QueueKey cfg))"
  shows "case r of Inr ms \<Rightarrow> waiting cfg (view c) = ms @ waiting cfg (view c') \<and> length ms = 1 \<and>
         deliveredTo cfg (view c') = deliveredTo cfg (view c) @ map wm_StreamID ms \<and>
         rv_delivered (view c') (rw_QueueKey cfg) (rw_Group cfg) \<le> length (rv_entries (view c') (rw_QueueKey cfg))
     | Inl None \<Rightarrow> view c' = view c
     | Inl (Some e) \<Rightarrow> view c' = view c \<or> (waiting cfg (view c') = tl (waiting cfg (view c)) \<and> 
         mset (deliveredTo cfg (view c)) \<subseteq># mset (deliveredTo cfg (view c')) \<and>
         rv_delivered (view c') (rw_QueueKey cfg) (rw_Group cfg) \<le> length (rv_entries (view c') (rw_QueueKey cfg)))"
proof -
  let ?k = "rw_QueueKey cfg" and ?g = "rw_Group cfg"
  obtain res where b: "wc_XReadGroup client ?g (consumerName cfg i (n + 1)) [?k, ''>''] 1 (rw_BlockTimeout cfg) c = (res, c')"
    using assms(2) by (auto simp: takeStream_def Let_def split: prod.splits sum.splits)
  note law = queueLaws_read [OF assms(1) b]
  show ?thesis
  proof (cases res)
    case (Inl e)
    have step: "mset (take d xs) \<subseteq># mset (take (Suc d) xs)" for d and xs :: "string list"
      by (cases "d < length xs") (simp_all add: take_Suc_conv_app_nth)
    from law b assms(2,3) Inl show ?thesis
      by (auto simp: takeStream_def Let_def readLaw_def waiting_def withDelivered_def deliveredTo_def drop_Suc tl_drop
          take_map [symmetric] map_tl [symmetric] step simp del: take_map split: workerErr.splits)
  next
    case (Inr rs)
    with law have here: "rv_delivered (view c) ?k ?g < length (rv_entries (view c) ?k)"
      "rs = [(?k, [rv_entries (view c) ?k ! rv_delivered (view c) ?k ?g])]"
      "view c' = withDelivered ?k ?g (rv_delivered (view c) ?k ?g + 1) (view c)" by (simp_all add: readLaw_def)
    with b assms(2,3) Inr show ?thesis
      by (auto simp: takeStream_def Let_def waiting_def withDelivered_def deliveredTo_def streamMessage_def
          Cons_nth_drop_Suc [symmetric] take_Suc_conv_app_nth)
  qed
qed

text \<open>The messages a worker has taken and not handed to the processor yet.\<close>

fun heldBy :: "workerPC \<Rightarrow> workerMessage list" where
  "heldBy (Holding ms) = ms"
| "heldBy (Acking m ms) = ms"
| "heldBy _ = []"

definition heldMessages :: "('c, 'p) workerPool \<Rightarrow> workerMessage list" where
  "heldMessages S = concat (map heldBy (ws_pcs S))"

definition takenMessages :: "('c, 'p) workerPool \<Rightarrow> workerMessage list" where
  "takenMessages S = heldMessages S @ map fst (ws_handled S)"

definition presentMessages :: "redisWorkerConfig \<Rightarrow> ('c \<Rightarrow> redisView) \<Rightarrow> ('c, 'p) workerPool \<Rightarrow> workerMessage multiset" where
  "presentMessages cfg view S = contents (waiting cfg (view (ws_redis S))) + contents (takenMessages S)"

fun pcOK :: "redisWorkerConfig \<Rightarrow> (workerMessage \<times> bool) list \<Rightarrow> workerPC \<Rightarrow> bool" where
  "pcOK cfg handled (Holding ms) \<longleftrightarrow> ms \<noteq> [] \<and> (rw_Mode cfg = modeList \<longrightarrow> length ms = 1)"
| "pcOK cfg handled (Acking m ms) \<longleftrightarrow> rw_Mode cfg \<noteq> modeList \<and> (m, True) \<in> set handled"
| "pcOK cfg handled _ \<longleftrightarrow> True"

definition streamIDsOK :: "redisWorkerConfig \<Rightarrow> redisView \<Rightarrow> workerMessage list \<Rightarrow> bool" where
  "streamIDsOK cfg v taken \<longleftrightarrow> rw_Mode cfg = modeList \<or>
     (rv_delivered v (rw_QueueKey cfg) (rw_Group cfg) \<le> length (rv_entries v (rw_QueueKey cfg)) \<and>
      mset (map wm_StreamID taken) \<subseteq># mset (deliveredTo cfg v))"

definition poolInv ::
  "redisWorkerConfig \<Rightarrow> ('c \<Rightarrow> redisView) \<Rightarrow> workerMessage multiset \<Rightarrow> ('c, 'p) workerPool \<Rightarrow> bool" where
  "poolInv cfg view initial S \<longleftrightarrow>
     presentMessages cfg view S \<subseteq># initial + contents (ws_accepted S) + contents (ws_refused S) \<and>
     (\<not> ws_fetchFailed S \<longrightarrow> initial + contents (ws_accepted S) \<subseteq># presentMessages cfg view S) \<and>
     list_all (pcOK cfg (ws_handled S)) (ws_pcs S) \<and>
     streamIDsOK cfg (view (ws_redis S)) (takenMessages S) \<and>
     set (ws_acked S) \<subseteq> {wm_StreamID m |m. (m, True) \<in> set (ws_handled S)}"

lemma held_update:
  "i < length pcs \<Longrightarrow> mset (concat (map heldBy (pcs[i := pc]))) + mset (heldBy (pcs ! i)) =
     mset (concat (map heldBy pcs)) + mset (heldBy pc)"
  by (induction pcs arbitrary: i) (auto simp: nth_Cons' Suc_diff_Suc split: nat.splits)

lemma held_setPC:
  assumes "i < length (ws_pcs S)" and "ws_pcs S ! i = pc0"
  shows "mset (heldMessages (setPC i pc S)) + mset (heldBy pc0) = mset (heldMessages S) + mset (heldBy pc)"
  using held_update [OF assms(1), of pc] assms(2) by (simp add: heldMessages_def setPC_def)

lemma contents_mset: "contents ms = image_mset content (mset ms)"
  by (simp add: contents_def)

lemma pcOK_mono: "list_all (pcOK cfg handled) pcs \<Longrightarrow> list_all (pcOK cfg (x # handled)) pcs"
  by (rule list.pred_mono_strong, assumption) (metis pcOK.elims pcOK.simps list.set_intros(2))

lemma list_all_update: "list_all P xs \<Longrightarrow> P x \<Longrightarrow> list_all P (xs[i := x])"
  using set_update_subset_insert [of xs i x] by (auto simp: list_all_iff)

text \<open>What a fetch in either mode does to the queue.\<close>

definition inRange :: "redisWorkerConfig \<Rightarrow> redisView \<Rightarrow> bool" where
  "inRange cfg v \<longleftrightarrow> rv_delivered v (rw_QueueKey cfg) (rw_Group cfg) \<le> length (rv_entries v (rw_QueueKey cfg))"

definition fetchLaw :: "redisWorkerConfig \<Rightarrow> redisView \<Rightarrow> (workerErr option + workerMessage list) \<Rightarrow> redisView \<Rightarrow> bool" where
  "fetchLaw cfg v r v' \<longleftrightarrow> (case r of
       Inr ms \<Rightarrow> contents (waiting cfg v) = contents ms + contents (waiting cfg v') \<and> length ms = 1 \<and>
         (rw_Mode cfg \<noteq> modeList \<longrightarrow> mset (deliveredTo cfg v') = mset (deliveredTo cfg v) + mset (map wm_StreamID ms) \<and> inRange cfg v')
     | Inl err \<Rightarrow> contents (waiting cfg v') \<subseteq># contents (waiting cfg v) \<and>
         (err = None \<longrightarrow> contents (waiting cfg v') = contents (waiting cfg v)) \<and>
         (rw_Mode cfg \<noteq> modeList \<longrightarrow> mset (deliveredTo cfg v) \<subseteq># mset (deliveredTo cfg v') \<and> inRange cfg v'))"

lemma contents_tl: "contents (tl ms) \<subseteq># contents ms"
  by (cases ms) simp_all

lemma fetchLaw_list:
  assumes "queueLaws client view" and "takeList client cfg c = (r, c')" and "rw_Mode cfg = modeList"
  shows "fetchLaw cfg (view c) r (view c')"
  using takeList_waiting [OF assms] assms(3)
  by (auto simp: fetchLaw_def contents_tl split: sum.splits option.splits)

lemma fetchLaw_stream:
  assumes "queueLaws client view" and "takeStream client cfg i n c = (r, n', c')" and "rw_Mode cfg \<noteq> modeList"
    and "inRange cfg (view c)"
  shows "fetchLaw cfg (view c) r (view c')"
  using takeStream_waiting [OF assms(1-3) assms(4) [unfolded inRange_def]] assms(4)
  by (auto simp: fetchLaw_def contents_tl inRange_def split: sum.splits option.splits)

lemma fetched_inv:
  assumes "poolInv cfg view initial S" and "i < length (ws_pcs S)" and "ws_pcs S ! i = Fetching"
    and "fetchLaw cfg (view (ws_redis S)) r (view c)"
  shows "poolInv cfg view initial (fetched r n c i S)"
proof -
  let ?S' = "fetched r n c i S"
  let ?ms = "case r of Inl _ \<Rightarrow> [] | Inr ms \<Rightarrow> ms"
  have pc: "heldBy (afterFetch r) = ?ms" "pcOK cfg (ws_handled S) (afterFetch r)"
    using assms(4) by (auto simp: afterFetch_def afterError_def holding_def fetchLaw_def split: sum.splits option.splits)
  have held: "mset (heldMessages ?S') = mset (heldMessages S) + mset ?ms"
    using held_setPC [OF _ assms(3), of "afterFetch r"] assms(2) pc(1) by (simp add: fetched_def heldMessages_def setPC_def)
  have taken: "mset (takenMessages ?S') = mset (takenMessages S) + mset ?ms"
    using held by (simp add: takenMessages_def fetched_def setPC_def)
  have parts: "ws_redis ?S' = c" "ws_accepted ?S' = ws_accepted S" "ws_refused ?S' = ws_refused S"
    "ws_handled ?S' = ws_handled S" "ws_acked ?S' = ws_acked S" "ws_pcs ?S' = (ws_pcs S)[i := afterFetch r]"
    "ws_fetchFailed ?S' \<longleftrightarrow> ws_fetchFailed S \<or> fetchFails r" by (simp_all add: fetched_def setPC_def)
  have less: "presentMessages cfg view ?S' \<subseteq># presentMessages cfg view S"
    and same: "\<not> fetchFails r \<Longrightarrow> presentMessages cfg view ?S' = presentMessages cfg view S"
    using assms(4) taken by (auto simp: presentMessages_def parts fetchLaw_def contents_mset fetchFails_def
        split: sum.splits option.splits)
  have ids: "streamIDsOK cfg (view c) (takenMessages ?S')"
    using assms(1,4) taken by (cases r) (auto simp: poolInv_def streamIDsOK_def fetchLaw_def inRange_def
        intro: subset_mset.order_trans subset_mset.add_mono)
  show ?thesis
    using assms(1) less same ids pc(2) unfolding poolInv_def parts
    by (auto intro: list_all_update subset_mset.order_trans)
qed

lemma processed_inv:
  assumes "poolInv cfg view initial S" and "i < length (ws_pcs S)" and "ws_pcs S ! i = Holding (m # ms)"
  shows "poolInv cfg view initial (processed cfg err p m ms i S)"
proof -
  let ?S' = "processed cfg err p m ms i S"
  have "pcOK cfg (ws_handled S) (Holding (m # ms))"
    using assms by (auto simp: poolInv_def list_all_length)
  then have pc: "heldBy (afterProcess cfg err m ms) = ms" "pcOK cfg (ws_handled ?S') (afterProcess cfg err m ms)"
    by (auto simp: afterProcess_def afterError_def holding_def processed_def setPC_def split: option.splits)
  have held: "mset (heldMessages ?S') + {#m#} = mset (heldMessages S)"
    using held_setPC [OF _ assms(3), of "afterProcess cfg err m ms"] assms(2) pc(1)
    by (simp add: processed_def heldMessages_def setPC_def)
  then have taken: "mset (takenMessages ?S') = mset (takenMessages S)"
    by (simp add: takenMessages_def processed_def setPC_def union_assoc [symmetric])
  have parts: "ws_redis ?S' = ws_redis S" "ws_accepted ?S' = ws_accepted S" "ws_refused ?S' = ws_refused S"
    "ws_handled ?S' = (m, err = None) # ws_handled S" "ws_acked ?S' = ws_acked S"
    "ws_pcs ?S' = (ws_pcs S)[i := afterProcess cfg err m ms]"
    "ws_fetchFailed ?S' = ws_fetchFailed S" by (simp_all add: processed_def setPC_def)
  have "presentMessages cfg view ?S' = presentMessages cfg view S"
    using taken by (simp add: presentMessages_def parts contents_mset)
  moreover have "streamIDsOK cfg (view (ws_redis S)) (takenMessages ?S') = streamIDsOK cfg (view (ws_redis S)) (takenMessages S)"
    using taken by (simp add: streamIDsOK_def)
  ultimately show ?thesis
    using assms(1) pc(2) list_all_update [OF pcOK_mono pc(2) [unfolded parts], of "ws_pcs S" i]
    unfolding poolInv_def parts by auto
qed

lemma same_held_inv:
  assumes "poolInv cfg view initial S" and "i < length (ws_pcs S)" and "heldBy pc = heldBy (ws_pcs S ! i)"
    and "pcOK cfg (ws_handled S) pc" and "view c = view (ws_redis S)"
    and "set ids \<subseteq> {wm_StreamID m |m. (m, True) \<in> set (ws_handled S)}"
  shows "poolInv cfg view initial (setPC i pc (S\<lparr>ws_redis := c, ws_acked := ids\<rparr>))"
proof -
  have "mset (heldMessages (setPC i pc (S\<lparr>ws_redis := c, ws_acked := ids\<rparr>))) = mset (heldMessages S)"
    using held_setPC [OF assms(2) refl, of pc] assms(3) by (simp add: heldMessages_def setPC_def)
  then have taken: "mset (takenMessages (setPC i pc (S\<lparr>ws_redis := c, ws_acked := ids\<rparr>))) = mset (takenMessages S)"
    by (simp add: takenMessages_def setPC_def)
  then have "presentMessages cfg view (setPC i pc (S\<lparr>ws_redis := c, ws_acked := ids\<rparr>)) = presentMessages cfg view S"
    "streamIDsOK cfg (view c) (takenMessages (setPC i pc (S\<lparr>ws_redis := c, ws_acked := ids\<rparr>))) =
     streamIDsOK cfg (view (ws_redis S)) (takenMessages S)"
    using assms(5) by (simp_all add: presentMessages_def contents_mset streamIDsOK_def setPC_def)
  then show ?thesis
    using assms(1,4-6) unfolding poolInv_def by (auto simp: setPC_def intro: list_all_update)
qed

lemma produced_inv:
  assumes "poolInv cfg view initial S"
    and "contents (waiting cfg (view c)) = add_mset m (contents (waiting cfg (view (ws_redis S)))) \<and>
       (rw_Mode cfg \<noteq> modeList \<longrightarrow> deliveredTo cfg (view c) = deliveredTo cfg (view (ws_redis S)) \<and> inRange cfg (view c)) \<or>
     err \<noteq> None \<and> view c = view (ws_redis S)"
    and "content m = m"
  shows "poolInv cfg view initial (produced err m (S\<lparr>ws_redis := c\<rparr>))"
proof -
  let ?S' = "produced err m (S\<lparr>ws_redis := c\<rparr>)"
  have parts: "ws_redis ?S' = c" "ws_handled ?S' = ws_handled S" "ws_pcs ?S' = ws_pcs S" "ws_acked ?S' = ws_acked S"
    "ws_fetchFailed ?S' = ws_fetchFailed S"
    "contents (ws_accepted ?S') = (if err = None then add_mset m else id) (contents (ws_accepted S))"
    "contents (ws_refused ?S') = (if err = None then id else add_mset m) (contents (ws_refused S))"
    using assms(3) by (auto simp: produced_def)
  have taken: "takenMessages ?S' = takenMessages S"
    by (simp add: takenMessages_def heldMessages_def parts)
  have "presentMessages cfg view ?S' = add_mset m (presentMessages cfg view S) \<or>
      err \<noteq> None \<and> presentMessages cfg view ?S' = presentMessages cfg view S"
    using assms(2) by (auto simp: presentMessages_def parts taken)
  moreover have "streamIDsOK cfg (view c) (takenMessages S)"
    using assms(1,2) by (auto simp: poolInv_def streamIDsOK_def inRange_def)
  ultimately show ?thesis
    using assms(1) unfolding poolInv_def parts taken
    by (auto simp: subset_mset.le_iff_add add.assoc)
qed

lemma ackMessage_view: "queueLaws client view \<Longrightarrow> view (ackMessage client cfg m c) = view c"
  unfolding ackMessage_def by (rule queueLaws_ack)

lemma listMessage_waiting:
  assumes "queueLaws client view" and "enqueueList client cfg x c = (err, c')"
  shows "contents (waiting cfg (view c')) = add_mset (listMessage cfg x) (contents (waiting cfg (view c))) \<and>
       (rw_Mode cfg \<noteq> modeList \<longrightarrow> deliveredTo cfg (view c') = deliveredTo cfg (view c) \<and> inRange cfg (view c')) \<or>
     err \<noteq> None \<and> view c' = view c"
  using enqueueList_waiting [OF assms] by blast

lemma poolStep_inv:
  assumes "queueLaws client view" and "poolStep client cfg processor S S'" and "poolInv cfg view initial S"
  shows "poolInv cfg view initial S'"
  using assms(2,3)
proof cases
  case (ProduceList payload err c)
  show ?thesis unfolding ProduceList(1)
    by (rule produced_inv [OF assms(3) listMessage_waiting [OF assms(1) ProduceList(2)]]) simp
next
  case (ProduceStream flds err c)
  show ?thesis
  proof (cases "rw_Mode cfg = modeList")
    case True
    then have "err \<noteq> None \<and> view c = view (ws_redis S)"
      using ProduceStream(2) by (auto simp: enqueueStream_def modeList_def modeStream_def)
    then show ?thesis unfolding ProduceStream(1)
      by (intro produced_inv [OF assms(3)]) (simp_all add: newStreamMessage_def)
  next
    case False
    then have "inRange cfg (view (ws_redis S))" using assms(3) by (simp add: poolInv_def streamIDsOK_def inRange_def)
    from enqueueStream_waiting [OF assms(1) ProduceStream(2) this [unfolded inRange_def]]
    show ?thesis unfolding ProduceStream(1)
      by (intro produced_inv [OF assms(3)]) (auto simp: newStreamMessage_def inRange_def)
  qed
next
  case (Poll i)
  have acks: "set (ws_acked S) \<subseteq> {wm_StreamID m |m. (m, True) \<in> set (ws_handled S)}" using assms(3) by (simp add: poolInv_def)
  show ?thesis unfolding Poll(1)
    using same_held_inv [OF assms(3) Poll(2), of "if ws_ctxDone S then Exited else Fetching" "ws_redis S" "ws_acked S"] Poll(3) acks
    by simp
next
  case (FetchList i r c)
  show ?thesis unfolding FetchList(1)
    by (rule fetched_inv [OF assms(3) FetchList(2,3) fetchLaw_list [OF assms(1) FetchList(5,4)]])
next
  case (FetchStream i r n c)
  have "inRange cfg (view (ws_redis S))"
    using assms(3) FetchStream(4) by (simp add: poolInv_def streamIDsOK_def inRange_def)
  then show ?thesis unfolding FetchStream(1)
    by (intro fetched_inv [OF assms(3) FetchStream(2,3) fetchLaw_stream [OF assms(1) FetchStream(5,4)]])
next
  case (Process i m ms err p)
  then show ?thesis by (simp add: processed_inv [OF assms(3)])
next
  case (Acknowledge i m ms)
  have ok: "pcOK cfg (ws_handled S) (Acking m ms)" and acks: "set (ws_acked S) \<subseteq> {wm_StreamID m |m. (m, True) \<in> set (ws_handled S)}"
    using assms(3) Acknowledge(2,3) by (auto simp: poolInv_def list_all_length)
  show ?thesis unfolding Acknowledge(1) acked_def
    by (rule same_held_inv [OF assms(3) Acknowledge(2)])
      (use ok acks Acknowledge(3) in \<open>auto simp: holding_def ackMessage_view [OF assms(1)]\<close>)
next
  case Cancel
  then show ?thesis using assms(3)
    by (simp add: poolInv_def presentMessages_def takenMessages_def heldMessages_def)
qed

lemma distinct_submset: "mset xs \<subseteq># mset ys \<Longrightarrow> distinct ys \<Longrightarrow> distinct xs"
  by (metis distinct_append ex_mset mset_append mset_eq_imp_distinct_iff subset_mset.add_diff_inverse)

lemma newPool_inv:
  assumes "inRange cfg (view c)"
  shows "poolInv cfg view (contents (waiting cfg (view c))) (newPool n c p)"
  using assms
  by (simp add: poolInv_def newPool_def presentMessages_def takenMessages_def heldMessages_def streamIDsOK_def
      inRange_def list_all_iff)

lemma poolReach_inv:
  assumes "queueLaws client view" and "(poolStep client cfg processor)\<^sup>*\<^sup>* (newPool n c p) S" and "inRange cfg (view c)"
  shows "poolInv cfg view (contents (waiting cfg (view c))) S"
  using assms(2)
  by (induction rule: rtranclp_induct) (auto intro: poolStep_inv [OF assms(1)] newPool_inv [where view = view, OF assms(3)])

text \<open>
  C14: no interleaving of producers, workers and cancellation invents, repeats or loses a message.
  What waits in the queue, what workers hold and what the processor was called with are together
  messages that waited at the start or that a producer sent, counted with multiplicity, and contain
  all of those whose producer was told success as long as no fetch failed. In stream mode no entry is
  handed to the processor twice, even when its processing failed, and only entries that were
  processed without an error are acknowledged.
\<close>

theorem worker_messages_conserved:
  assumes "queueLaws client view" and "(poolStep client cfg processor)\<^sup>*\<^sup>* (newPool n c p) S" and "inRange cfg (view c)"
  shows "presentMessages cfg view S \<subseteq># contents (waiting cfg (view c)) + contents (ws_accepted S) + contents (ws_refused S) \<and>
     (\<not> ws_fetchFailed S \<longrightarrow> contents (waiting cfg (view c)) + contents (ws_accepted S) \<subseteq># presentMessages cfg view S) \<and>
     (rw_Mode cfg \<noteq> modeList \<longrightarrow> distinct (map (wm_StreamID \<circ> fst) (ws_handled S))) \<and>
     set (ws_acked S) \<subseteq> {wm_StreamID m |m. (m, True) \<in> set (ws_handled S)}"
proof -
  note inv = poolReach_inv [OF assms]
  have "distinct (map (wm_StreamID \<circ> fst) (ws_handled S))" if "rw_Mode cfg \<noteq> modeList"
  proof -
    have "mset (map wm_StreamID (takenMessages S)) \<subseteq># mset (deliveredTo cfg (view (ws_redis S)))"
      using inv that by (simp add: poolInv_def streamIDsOK_def)
    moreover have "distinct (deliveredTo cfg (view (ws_redis S)))"
      using queueLaws_distinct [OF assms(1)] by (simp add: deliveredTo_def distinct_take take_map [symmetric] del: take_map)
    ultimately have "distinct (map wm_StreamID (takenMessages S))"
      by (rule distinct_submset)
    then show ?thesis by (simp add: takenMessages_def comp_def)
  qed
  with inv show ?thesis by (auto simp: poolInv_def)
qed

section \<open>Order and loss in list mode\<close>

text \<open>Several payloads enqueued one after the other, and a processor that also records its calls.\<close>

fun enqueueAll :: "'c workerClient \<Rightarrow> redisWorkerConfig \<Rightarrow> string list \<Rightarrow> 'c \<Rightarrow> workerErr option \<times> 'c" where
  "enqueueAll client cfg [] c = (None, c)"
| "enqueueAll client cfg (x # xs) c = (case enqueueList client cfg x c of
       (Some e, c1) \<Rightarrow> (Some e, c1) | (None, c1) \<Rightarrow> enqueueAll client cfg xs c1)"

definition recording :: "'p processor \<Rightarrow> ('p \<times> workerMessage list) processor" where
  "recording processor m pc = (let (e, p1) = processor m (fst pc) in (e, p1, snd pc @ [m]))"

lemma enqueueAll_list:
  "queueLaws client view \<Longrightarrow> enqueueAll client cfg xs c = (None, c1) \<Longrightarrow>
     rv_lists (view c1) (rw_QueueKey cfg) = rev xs @ rv_lists (view c) (rw_QueueKey cfg)"
proof (induction xs arbitrary: c)
  case (Cons x xs)
  obtain c2 where e: "enqueueList client cfg x c = (None, c2)" and rest: "enqueueAll client cfg xs c2 = (None, c1)"
    using Cons.prems(2) by (auto split: prod.splits option.splits)
  from enqueueList_waiting [OF Cons.prems(1) e]
  have "rv_lists (view c2) (rw_QueueKey cfg) = x # rv_lists (view c) (rw_QueueKey cfg)" by (auto simp: withList_def)
  with Cons.IH [OF Cons.prems(1) rest] show ?case by simp
qed simp

text \<open>A server that never fails a fetch, and a processor that never reports the end of its context.\<close>

definition popsReliably :: "'c workerClient \<Rightarrow> bool" where
  "popsReliably client \<longleftrightarrow> (\<forall>t ks c. fst (wc_BLPop client t ks c) \<in> insert (Inl NilReply) (range Inr))"

definition neverCtxError :: "'p processor \<Rightarrow> bool" where
  "neverCtxError processor \<longleftrightarrow> (\<forall>m p. fst (processor m p) \<notin> {Some CtxCanceled, Some CtxDeadline})"

lemma popsReliably_cases:
  assumes "popsReliably client" and "wc_BLPop client t ks c = (res, c')"
  obtains "res = Inl NilReply" | vs where "res = Inr vs"
  using assms(1) [unfolded popsReliably_def, rule_format, of t ks c] assms(2) by auto

lemma listTurn:
  assumes "queueLaws client view" and "rw_Mode cfg = modeList" and "popsReliably client" and "neverCtxError processor"
    and "rv_lists (view c) (rw_QueueKey cfg) = y # ys"
  shows "\<exists>k c' p'. workerTurn client cfg (recording processor) idx False (n, c, p, cs) =
     (k, n, c', p', cs @ [listMessage cfg y]) \<and> k \<noteq> LoopReturn \<and> rv_lists (view c') (rw_QueueKey cfg) = ys"
proof -
  obtain res c' where b: "wc_BLPop client (rw_BlockTimeout cfg) [rw_QueueKey cfg] c = (res, c')" by fastforce
  have res: "res = Inr [rw_QueueKey cfg, y]" and c': "rv_lists (view c') (rw_QueueKey cfg) = ys"
    using queueLaws_pop [OF assms(1) b] assms(5)
    by (cases rule: popsReliably_cases [OF assms(3) b]; auto simp: blpopLaw_def withList_def)+
  obtain e p' where e: "processor (listMessage cfg y) p = (e, p')" by fastforce
  have "\<not> (e = Some CtxCanceled \<or> e = Some CtxDeadline)"
    using assms(4) [unfolded neverCtxError_def, rule_format, of "listMessage cfg y" p] e by auto
  with b res e assms(2) c' show ?thesis
    by (auto simp: workerTurn_def consumeList_def takeList_def recording_def split: option.splits)
qed

lemma listLoop:
  assumes "queueLaws client view" and "rw_Mode cfg = modeList" and "popsReliably client" and "neverCtxError processor"
    and "rv_lists (view c) (rw_QueueKey cfg) = ys"
  shows "\<exists>c' p'. workerLoop client cfg (recording processor) idx (replicate (length ys) False) (n, c, p, cs) =
     (False, n, c', p', cs @ map (listMessage cfg) ys) \<and> rv_lists (view c') (rw_QueueKey cfg) = []"
  using assms(5)
proof (induction ys arbitrary: c p cs)
  case (Cons y ys)
  from listTurn [OF assms(1-4) Cons.prems, where n = n and p = p and cs = cs and idx = idx]
  obtain k c1 p1 where t: "workerTurn client cfg (recording processor) idx False (n, c, p, cs) =
      (k, n, c1, p1, cs @ [listMessage cfg y])" "k \<noteq> LoopReturn" "rv_lists (view c1) (rw_QueueKey cfg) = ys" by blast
  from Cons.IH [OF t(3), of p1 "cs @ [listMessage cfg y]"] t(1,2) show ?case by auto
qed simp

text \<open>
  C15: list mode serves the newest message first and never retries one. Payloads enqueued one after
  the other into an empty list are handed to the processor by a worker that runs as many turns, each
  exactly once and in the reverse of the order they were enqueued in, whatever the processor answers
  short of the end of its context; the list is empty then, so a message whose processing failed is
  gone, and the worker is still running.
\<close>

theorem list_mode_newest_first:
  assumes "queueLaws client view" and "rw_Mode cfg = modeList" and "rv_lists (view c) (rw_QueueKey cfg) = []"
    and "popsReliably client" and "neverCtxError processor"
    and "enqueueAll client cfg xs c = (None, c1)"
  shows "\<exists>c2 p2. workerLoop client cfg (recording processor) idx (replicate (length xs) False) (n, c1, p, []) =
     (False, n, c2, p2, map (listMessage cfg) (rev xs)) \<and> rv_lists (view c2) (rw_QueueKey cfg) = []"
proof -
  have "rv_lists (view c1) (rw_QueueKey cfg) = rev xs" using enqueueAll_list [OF assms(1,6)] assms(3) by simp
  from listLoop [OF assms(1,2,4,5) this, of idx n p "[]"] show ?thesis by simp
qed

section \<open>Stopping\<close>

lemma workerTurn_done: "workerTurn client cfg processor idx True st = (LoopReturn, st)"
  by (simp add: workerTurn_def)

text \<open>\<open>Stop\<close> waits for the workers: each of them returns at the first poll after the cancellation.\<close>

lemma worker_returns_once_cancelled: "True \<in> set polls \<Longrightarrow> fst (workerLoop client cfg processor idx polls st)"
  by (induction client cfg processor idx polls st rule: workerLoop.induct) (auto simp: workerTurn_done split: prod.splits)

text \<open>\<open>Stop\<close> of the service: the error of closing the client, after the workers have returned.\<close>

definition stopWorkers :: "'c workerClient \<Rightarrow> 'c \<Rightarrow> workerErr option \<times> 'c" where
  "stopWorkers client c = wc_Close client c"

section \<open>Witnesses\<close>

text \<open>A client over lists and the streams of the broker's witness.\<close>

type_synonym demoServer = "(string \<Rightarrow> string list) \<times> demoStreams"

definition demoView :: "demoServer \<Rightarrow> redisView" where
  "demoView c = \<lparr>rv_lists = fst c, rv_entries = demoEntries (snd c), rv_delivered = snd (snd c)\<rparr>"

definition demoWorkerClient :: "demoServer workerClient" where
  "demoWorkerClient = \<lparr>
     wc_BLPop = (\<lambda>t ks c. case fst c (hd ks) of [] \<Rightarrow> (Inl NilReply, c)
        | x # xs \<Rightarrow> (Inr [hd ks, x], (fst c)(hd ks := xs), snd c)),
     wc_LPush = (\<lambda>k x c. (None, (fst c)(k := x # fst c k), snd c)),
     wc_XAdd = (\<lambda>s kv c. (None, fst c, (fst (snd c))(s := fst (snd c) s @ [kv]), snd (snd c))),
     wc_XGroupCreateMkStream = (\<lambda>s g from c. (None, c)),
     wc_XReadGroup = (\<lambda>g name ss n t c. let s = hd ss; d = snd (snd c) s g; es = demoEntries (snd c) s in
        if d = length es then (Inl NilReply, c) else if length es < d then (Inl (WorkerErr ''gap''), c)
        else (Inr [(s, [es ! d])], fst c, fst (snd c), (snd (snd c))(s := (snd (snd c) s)(g := d + 1)))),
     wc_XAck = (\<lambda>s g ids c. (None, c)),
     wc_Close = (\<lambda>c. (None, c))\<rparr>"

lemma demoEntries_same [simp]: "demoEntries (fst c, d) = demoEntries c"
  by (rule ext) (simp add: demoEntries_def)

lemma demo_queue_laws: "queueLaws demoWorkerClient demoView"
  unfolding queueLaws_def
proof (intro conjI allI impI)
  fix k x c e c'
  assume "wc_LPush demoWorkerClient k x c = (e, c')"
  then show "demoView c' = withList k (x # rv_lists (demoView c) k) (demoView c) \<or> (e \<noteq> None \<and> demoView c' = demoView c)"
    by (auto simp: demoWorkerClient_def demoView_def withList_def)
next
  fix t k c res c'
  assume "wc_BLPop demoWorkerClient t [k] c = (res, c')"
  then show "blpopLaw k (demoView c) res (demoView c')"
    by (auto simp: demoWorkerClient_def demoView_def withList_def blpopLaw_def split: list.splits)
next
  fix s kv c e c'
  assume "wc_XAdd demoWorkerClient s kv c = (e, c')"
  then show "(\<exists>i. demoView c' = withEntries s (rv_entries (demoView c) s @ [(i, kv)]) (demoView c)) \<or> (e \<noteq> None \<and> demoView c' = demoView c)"
    by (auto simp: demoWorkerClient_def demoView_def withEntries_def demoEntries_add)
next
  fix g name s t c res c'
  assume "wc_XReadGroup demoWorkerClient g name [s, ''>''] 1 t c = (res, c')"
  then show "readLaw s g (demoView c) res (demoView c')"
    by (auto simp: demoWorkerClient_def demoView_def withDelivered_def readLaw_def Let_def split: if_splits)
next
  fix s g "is" c
  show "demoView (snd (wc_XAck demoWorkerClient s g is c)) = demoView c" by (simp add: demoWorkerClient_def)
next
  fix c s
  show "distinct (map fst (rv_entries (demoView c) s))" by (simp add: demoView_def demoEntries_distinct)
qed

definition demoWorkers :: "string \<Rightarrow> redisWorkerConfig" where
  "demoWorkers mode = \<lparr>rw_Addr = ''redis:6379'', rw_Password = '''', rw_DB = 0, rw_Mode = mode, rw_QueueKey = ''jobs'',
     rw_Workers = 1, rw_BlockTimeout = second, rw_Group = ''g'', rw_ConsumerPrefix = ''c''\<rparr>"

definition demoServer0 :: demoServer where
  "demoServer0 = (\<lambda>_. [], \<lambda>_. [], \<lambda>_ _. 0)"

text \<open>Two jobs, the second one fails: it is served first and dropped.\<close>

theorem list_mode_newest_first_witness:
  "map wm_Raw (snd (snd (snd (snd (workerLoop demoWorkerClient (demoWorkers modeList)
      (recording (\<lambda>m p. (if wm_Raw m = ''second'' then Some (WorkerErr ''boom'') else None, Suc p))) 0 [False, False]
      (0, snd (enqueueAll demoWorkerClient (demoWorkers modeList) [''first'', ''second''] demoServer0), 0, []))))))
    = [''second'', ''first'']"
proof -
  let ?proc = "\<lambda>m p. (if wm_Raw m = ''second'' then Some (WorkerErr ''boom'') else None, Suc p)"
  let ?cfg = "demoWorkers modeList"
  have empty: "rv_lists (demoView demoServer0) (rw_QueueKey ?cfg) = []" by (simp add: demoView_def demoServer0_def)
  have reliable: "popsReliably demoWorkerClient"
    by (auto simp: popsReliably_def demoWorkerClient_def split: list.splits)
  have noCtx: "neverCtxError ?proc" by (simp add: neverCtxError_def)
  obtain c1 where c1: "enqueueAll demoWorkerClient ?cfg [''first'', ''second''] demoServer0 = (None, c1)"
    by (simp add: enqueueList_def demoWorkerClient_def demoWorkers_def)
  have polls: "[False, False] = replicate (length [''first'', ''second'']) False" by (simp add: numeral_2_eq_2)
  have mode: "rw_Mode ?cfg = modeList" by (simp add: demoWorkers_def)
  from list_mode_newest_first [OF demo_queue_laws mode empty reliable noCtx c1, of 0 0 0] c1 show ?thesis
    unfolding polls by (auto simp: listMessage_def)
qed

lemma four_steps: "r a b \<Longrightarrow> r b c \<Longrightarrow> r c d \<Longrightarrow> r d e \<Longrightarrow> r\<^sup>*\<^sup>* a e"
  by (meson converse_rtranclp_into_rtranclp rtranclp.rtrancl_refl)

text \<open>A message of the pool that is enqueued, fetched and fails: it is accounted for as handled.\<close>

theorem worker_messages_conserved_witness:
  "\<exists>S :: (demoServer, nat) workerPool.
     (poolStep demoWorkerClient (demoWorkers modeList) (\<lambda>m p. (Some (WorkerErr ''boom''), Suc p)))\<^sup>*\<^sup>* (newPool 2 demoServer0 0) S \<and>
     ws_handled S = [(listMessage (demoWorkers modeList) ''first'', False)] \<and> ws_acked S = [] \<and>
     contents (ws_accepted S) \<subseteq># presentMessages (demoWorkers modeList) demoView S \<and>
     presentMessages (demoWorkers modeList) demoView S \<subseteq># contents (ws_accepted S)"
proof -
  let ?cfg = "demoWorkers modeList"
  let ?proc = "\<lambda>(m :: workerMessage) p. (Some (WorkerErr ''boom''), Suc p)"
  let ?S0 = "newPool 2 demoServer0 0 :: (demoServer, nat) workerPool"
  let ?m = "listMessage ?cfg ''first''"
  let ?c1 = "snd (enqueueList demoWorkerClient ?cfg ''first'' demoServer0)"
  let ?S1 = "produced None ?m (?S0\<lparr>ws_redis := ?c1\<rparr>)"
  let ?S2 = "setPC 0 Fetching ?S1"
  let ?c2 = "snd (takeList demoWorkerClient ?cfg ?c1)"
  let ?S3 = "fetched (Inr [?m]) (ws_seq ?S2) ?c2 0 ?S2"
  let ?S4 = "processed ?cfg (Some (WorkerErr ''boom'')) 1 ?m [] 0 ?S3"
  note defs = newPool_def produced_def setPC_def fetched_def processed_def
  have q: "enqueueList demoWorkerClient ?cfg ''first'' demoServer0 = (None, ?c1)"
    by (simp add: enqueueList_def demoWorkers_def demoWorkerClient_def)
  have t: "takeList demoWorkerClient ?cfg ?c1 = (Inr [?m], ?c2)"
    by (simp add: enqueueList_def takeList_def demoWorkers_def demoWorkerClient_def)
  have mode: "rw_Mode ?cfg = modeList" by (simp add: demoWorkers_def)
  have s1: "poolStep demoWorkerClient ?cfg ?proc ?S0 ?S1"
    using ProduceList [where S = ?S0 and payload = "''first''" and err = None and c = ?c1 and client = demoWorkerClient
        and cfg = ?cfg and processor = ?proc] q by (simp add: newPool_def)
  have s2: "poolStep demoWorkerClient ?cfg ?proc ?S1 ?S2"
    using Poll [where i = 0 and S = ?S1 and client = demoWorkerClient and cfg = ?cfg and processor = ?proc]
    by (simp add: newPool_def produced_def)
  have s3: "poolStep demoWorkerClient ?cfg ?proc ?S2 ?S3"
    using FetchList [where i = 0 and S = ?S2 and client = demoWorkerClient and cfg = ?cfg and processor = ?proc
        and r = "Inr [?m]" and c = ?c2] t mode by (simp add: newPool_def produced_def setPC_def)
  have s4: "poolStep demoWorkerClient ?cfg ?proc ?S3 ?S4"
    using Process [where i = 0 and S = ?S3 and client = demoWorkerClient and cfg = ?cfg and processor = ?proc
        and m = ?m and ms = "[]" and err = "Some (WorkerErr ''boom'')" and p = 1]
    by (simp add: newPool_def produced_def setPC_def fetched_def afterFetch_def holding_def)
  have run: "(poolStep demoWorkerClient ?cfg ?proc)\<^sup>*\<^sup>* ?S0 ?S4"
    by (rule four_steps) (rule s1 s2 s3 s4)+
  have range: "inRange ?cfg (demoView demoServer0)" by (simp add: inRange_def demoView_def demoServer0_def)
  have none: "contents (waiting ?cfg (demoView demoServer0)) = {#}"
    by (simp add: waiting_def demoView_def demoServer0_def demoWorkers_def Let_def)
  have "ws_handled ?S4 = [(?m, False)]" "ws_acked ?S4 = []" "\<not> ws_fetchFailed ?S4" "ws_refused ?S4 = []"
    by (simp_all add: defs fetchFails_def)
  with worker_messages_conserved [OF demo_queue_laws run range] none run show ?thesis
    by (intro exI [of _ ?S4]) simp
qed

end
