(* ===== verification/FileSystem.thy ===== *)
theory FileSystem
  imports Files
begin

unbundle bit_operations_syntax

text \<open>
  A Unix file system as far as the command line tools use it. A path is its list of components from
  the root. The state maps paths to nodes and holds the faults of the coming system calls: a call
  takes the next one and, when it is an error, fails with it, a write after the given number of
  bytes. A \<open>Link\<close> holds its absolute target and is followed in every component, and in the last one
  by the calls that follow links; 40 links are the limit. Hard links, mount points and permission
  checks are not modelled; a missing permission is a fault.
\<close>

type_synonym path = "string list"

text \<open>The permission bits of a \<open>fs.FileMode\<close>.\<close>

type_synonym fileMode = "32 word"

datatype node = Dir fileMode | Regular string fileMode | Link path | Special

fun isDir :: "node \<Rightarrow> bool" where
  "isDir (Dir m) = True"
| "isDir (Regular s m) = False"
| "isDir (Link t) = False"
| "isDir Special = False"

fun isLink :: "node \<Rightarrow> bool" where
  "isLink (Dir m) = False"
| "isLink (Regular s m) = False"
| "isLink (Link t) = True"
| "isLink Special = False"

fun isRegular :: "node \<Rightarrow> bool" where
  "isRegular (Dir m) = False"
| "isRegular (Regular s m) = True"
| "isRegular (Link t) = False"
| "isRegular Special = False"

record fileSystem =
  fs_nodes :: "(path, node) gomap"
  fs_umask :: fileMode
  fs_faults :: "(string \<times> nat) option list"

definition nextFault :: "fileSystem \<Rightarrow> (string \<times> nat) option \<times> fileSystem" where
  "nextFault w = (case fs_faults w of [] \<Rightarrow> (None, w) | f # fs \<Rightarrow> (f, w\<lparr>fs_faults := fs\<rparr>))"

abbreviation nodeAt :: "fileSystem \<Rightarrow> path \<Rightarrow> node option" where
  "nodeAt w p \<equiv> map_of (fs_nodes w) p"

definition putNode :: "path \<Rightarrow> node \<Rightarrow> fileSystem \<Rightarrow> fileSystem" where
  "putNode p n w = w\<lparr>fs_nodes := mput p n (fs_nodes w)\<rparr>"

section \<open>Path resolution\<close>

fun resolveFrom :: "fileSystem \<Rightarrow> nat \<Rightarrow> path \<Rightarrow> path \<Rightarrow> path option" where
  "resolveFrom w links pre [] = Some pre"
| "resolveFrom w links pre (c # cs) = (case nodeAt w (pre @ [c]) of
       Some (Link t) \<Rightarrow> (case links of 0 \<Rightarrow> None | Suc k \<Rightarrow> resolveFrom w k [] (t @ cs))
     | _ \<Rightarrow> resolveFrom w links (pre @ [c]) cs)"

definition resolve :: "fileSystem \<Rightarrow> path \<Rightarrow> string + path" where
  "resolve w p = (case resolveFrom w 40 [] p of
       None \<Rightarrow> Inl ''too many levels of symbolic links'' | Some q \<Rightarrow> Inr q)"

text \<open>The calls that do not follow a link in the last component.\<close>

definition resolveParent :: "fileSystem \<Rightarrow> path \<Rightarrow> string + path" where
  "resolveParent w p = (if p = [] then Inr [] else
     (case resolve w (butlast p) of Inl e \<Rightarrow> Inl e | Inr q \<Rightarrow> Inr (q @ [last p])))"

section \<open>System calls\<close>

definition lookupNode :: "fileSystem \<Rightarrow> (string + path) \<Rightarrow> string + node" where
  "lookupNode w r = (case r of Inl e \<Rightarrow> Inl e
     | Inr q \<Rightarrow> (case nodeAt w q of None \<Rightarrow> Inl ''no such file or directory'' | Some n \<Rightarrow> Inr n))"

definition sysStat :: "path \<Rightarrow> fileSystem \<Rightarrow> (string + node) \<times> fileSystem" where
  "sysStat p w = (case nextFault w of (Some (e, _), w1) \<Rightarrow> (Inl e, w1)
     | (None, w1) \<Rightarrow> (lookupNode w1 (resolve w1 p), w1))"

definition sysLstat :: "path \<Rightarrow> fileSystem \<Rightarrow> (string + node) \<times> fileSystem" where
  "sysLstat p w = (case nextFault w of (Some (e, _), w1) \<Rightarrow> (Inl e, w1)
     | (None, w1) \<Rightarrow> (lookupNode w1 (resolveParent w1 p), w1))"

text \<open>The permission bits of a new node.\<close>

definition masked :: "fileSystem \<Rightarrow> fileMode \<Rightarrow> fileMode" where
  "masked w perm = perm AND NOT (fs_umask w)"

text \<open>A new node may be put where its parent is a directory and there is no node yet.\<close>

definition createAt :: "path \<Rightarrow> node \<Rightarrow> fileSystem \<Rightarrow> string option \<times> fileSystem" where
  "createAt q n w = (case nodeAt w q of Some _ \<Rightarrow> (Some ''file exists'', w)
     | None \<Rightarrow> (case nodeAt w (butlast q) of
          None \<Rightarrow> (Some ''no such file or directory'', w)
        | Some d \<Rightarrow> if q \<noteq> [] \<and> isDir d then (None, putNode q n w) else (Some ''not a directory'', w)))"

definition sysMkdir :: "path \<Rightarrow> fileMode \<Rightarrow> fileSystem \<Rightarrow> string option \<times> fileSystem" where
  "sysMkdir p perm w = (case nextFault w of (Some (e, _), w1) \<Rightarrow> (Some e, w1)
     | (None, w1) \<Rightarrow> (case resolveParent w1 p of Inl e \<Rightarrow> (Some e, w1)
          | Inr q \<Rightarrow> createAt q (Dir (masked w1 perm)) w1))"

text \<open>\<open>os.MkdirAll\<close>: the parents first; a directory that turns up after a failed \<open>Mkdir\<close> is fine.\<close>

function mkdirAll :: "path \<Rightarrow> fileMode \<Rightarrow> fileSystem \<Rightarrow> string option \<times> fileSystem" where
  "mkdirAll p perm w = (case sysStat p w of
       (Inr n, w1) \<Rightarrow> (if isDir n then None else Some ''not a directory'', w1)
     | (Inl _, w1) \<Rightarrow> (case (if p = [] then (None, w1) else mkdirAll (butlast p) perm w1) of
          (Some e, w2) \<Rightarrow> (Some e, w2)
        | (None, w2) \<Rightarrow> (case sysMkdir p perm w2 of
             (None, w3) \<Rightarrow> (None, w3)
           | (Some e, w3) \<Rightarrow> (case sysLstat p w3 of
                (Inr n, w4) \<Rightarrow> (if isDir n then None else Some e, w4)
              | (Inl _, w4) \<Rightarrow> (Some e, w4)))))"
  by pat_completeness auto

termination by (relation "measure (\<lambda>(p, _, _). length p)") auto

declare mkdirAll.simps [simp del]

text \<open>\<open>os.ReadDir\<close>: the names in a directory in order, each with whether it is a directory itself.\<close>

definition childNames :: "fileSystem \<Rightarrow> path \<Rightarrow> string list" where
  "childNames w q = sort (map last (filter (\<lambda>k. k \<noteq> [] \<and> butlast k = q) (mkeys (fs_nodes w))))"

definition dirEntry :: "fileSystem \<Rightarrow> path \<Rightarrow> string \<Rightarrow> string \<times> bool" where
  "dirEntry w q c = (c, case nodeAt w (q @ [c]) of Some n \<Rightarrow> isDir n | None \<Rightarrow> False)"

definition sysReadDir :: "path \<Rightarrow> fileSystem \<Rightarrow> (string + (string \<times> bool) list) \<times> fileSystem" where
  "sysReadDir p w = (case nextFault w of (Some (e, _), w1) \<Rightarrow> (Inl e, w1)
     | (None, w1) \<Rightarrow> (case resolve w1 p of Inl e \<Rightarrow> (Inl e, w1)
          | Inr q \<Rightarrow> (case nodeAt w1 q of
               None \<Rightarrow> (Inl ''no such file or directory'', w1)
             | Some n \<Rightarrow> if isDir n then (Inr (map (dirEntry w1 q) (childNames w1 q)), w1)
                         else (Inl ''not a directory'', w1))))"

text \<open>An open file is the path of its node.\<close>

definition sysOpenRead :: "path \<Rightarrow> fileSystem \<Rightarrow> (string + path) \<times> fileSystem" where
  "sysOpenRead p w = (case nextFault w of (Some (e, _), w1) \<Rightarrow> (Inl e, w1)
     | (None, w1) \<Rightarrow> (case resolve w1 p of Inl e \<Rightarrow> (Inl e, w1)
          | Inr q \<Rightarrow> (case nodeAt w1 q of None \<Rightarrow> (Inl ''no such file or directory'', w1) | Some n \<Rightarrow> (Inr q, w1))))"

text \<open>\<open>os.OpenFile\<close> with \<open>O_CREATE | O_TRUNC | O_WRONLY\<close>: the mode is used for a new file only.\<close>

definition sysOpenWrite :: "path \<Rightarrow> fileMode \<Rightarrow> fileSystem \<Rightarrow> (string + path) \<times> fileSystem" where
  "sysOpenWrite p perm w = (case nextFault w of (Some (e, _), w1) \<Rightarrow> (Inl e, w1)
     | (None, w1) \<Rightarrow> (case resolve w1 p of Inl e \<Rightarrow> (Inl e, w1)
          | Inr q \<Rightarrow> (case nodeAt w1 q of
               Some (Regular s m) \<Rightarrow> (Inr q, putNode q (Regular '''' m) w1)
             | Some Special \<Rightarrow> (Inr q, w1)
             | Some _ \<Rightarrow> (Inl ''is a directory'', w1)
             | None \<Rightarrow> (case createAt q (Regular '''' (masked w1 perm)) w1 of
                  (Some e, w2) \<Rightarrow> (Inl e, w2) | (None, w2) \<Rightarrow> (Inr q, w2)))))"

text \<open>Writing to an open file: what it contains grows by the bytes, or by the part before a fault.\<close>

definition appendBytes :: "path \<Rightarrow> string \<Rightarrow> fileSystem \<Rightarrow> fileSystem" where
  "appendBytes q bs w = (case nodeAt w q of Some (Regular s m) \<Rightarrow> putNode q (Regular (s @ bs) m) w | _ \<Rightarrow> w)"

text \<open>\<open>io.Copy\<close> from an open file to another: the number of bytes, and the bytes that passed.\<close>

definition sysCopy :: "path \<Rightarrow> path \<Rightarrow> fileSystem \<Rightarrow> (string + string) \<times> fileSystem" where
  "sysCopy src dst w = (case nodeAt w src of
       Some (Regular s m) \<Rightarrow> (case nextFault w of
            (Some (e, n), w1) \<Rightarrow> (Inl e, appendBytes dst (take n s) w1)
          | (None, w1) \<Rightarrow> (Inr s, appendBytes dst s w1))
     | Some (Dir m) \<Rightarrow> (Inl ''is a directory'', w)
     | _ \<Rightarrow> (Inl ''read error'', w))"

text \<open>\<open>os.WriteFile\<close>\<close>

definition sysWriteFile :: "path \<Rightarrow> string \<Rightarrow> fileMode \<Rightarrow> fileSystem \<Rightarrow> string option \<times> fileSystem" where
  "sysWriteFile p bs perm w = (case sysOpenWrite p perm w of
       (Inl e, w1) \<Rightarrow> (Some e, w1)
     | (Inr q, w1) \<Rightarrow> (case nextFault w1 of
          (Some (e, n), w2) \<Rightarrow> (Some e, appendBytes q (take n bs) w2)
        | (None, w2) \<Rightarrow> (None, appendBytes q bs w2)))"

section \<open>Paths as strings\<close>

text \<open>
  \<open>filepath.Abs\<close> in the working directory \<open>cwd\<close>, whose lookup can fail, and \<open>filepath.Rel\<close> for
  absolute clean paths: up from the base to the common part and down to the target.
\<close>

definition absPath :: "(string + path) \<Rightarrow> string \<Rightarrow> string + path" where
  "absPath cwd s = (if prefix ''/'' s then Inr (cleanParts s)
     else (case cwd of Inl e \<Rightarrow> Inl e | Inr d \<Rightarrow> Inr (cleanComps True (rev d) (splitOn (CHR ''/'') s))))"

fun relPath :: "path \<Rightarrow> path \<Rightarrow> path" where
  "relPath (b # bs) (t # ts) = (if b = t then relPath bs ts else map (\<lambda>_. ''..'') (b # bs) @ t # ts)"
| "relPath bs ts = map (\<lambda>_. ''..'') bs @ ts"

definition relString :: "path \<Rightarrow> string" where
  "relString rel = (if rel = [] then ''.'' else joinWith (CHR ''/'') rel)"

lemma relPath_append [simp]: "relPath base (base @ rel) = rel"
  by (induction base) (cases rel; simp)+

section \<open>Calls that touch one node\<close>

lemma nodeAt_putNode [simp]: "nodeAt (putNode q n w) p = (if p = q then Some n else nodeAt w p)"
  by (simp add: putNode_def)

lemma nextFault_nodes: "nextFault w = (f, w1) \<Longrightarrow> fs_nodes w1 = fs_nodes w \<and> fs_umask w1 = fs_umask w"
  by (auto simp: nextFault_def split: list.splits)

lemma nextFault_none: "fs_faults w = [] \<Longrightarrow> nextFault w = (None, w)"
  by (simp add: nextFault_def)

lemma putNode_other [simp]: "fs_umask (putNode q n w) = fs_umask w" "fs_faults (putNode q n w) = fs_faults w"
  by (simp_all add: putNode_def)

lemma resolveFrom_plain:
  "(\<And>q. prefix q cs \<Longrightarrow> q \<noteq> [] \<Longrightarrow> (case nodeAt w (pre @ q) of Some n \<Rightarrow> \<not> isLink n | None \<Rightarrow> True)) \<Longrightarrow>
     resolveFrom w links pre cs = Some (pre @ cs)"
proof (induction w links pre cs rule: resolveFrom.induct)
  case (2 w links pre c cs)
  have here: "case nodeAt w (pre @ [c]) of Some n \<Rightarrow> \<not> isLink n | None \<Rightarrow> True" using "2.prems" [of "[c]"] by simp
  have rest: "case nodeAt w ((pre @ [c]) @ q) of Some n \<Rightarrow> \<not> isLink n | None \<Rightarrow> True" if "prefix q cs" "q \<noteq> []" for q
    using "2.prems" [of "c # q"] that by simp
  show ?case
  proof (cases "nodeAt w (pre @ [c])")
    case None
    then show ?thesis using 2 rest by simp
  next
    case (Some n)
    then show ?thesis using 2 rest here by (cases n) simp_all
  qed
qed simp

text \<open>A path without links, so that every call means the path itself.\<close>

definition noLink :: "fileSystem \<Rightarrow> path \<Rightarrow> bool" where
  "noLink w q \<longleftrightarrow> (case nodeAt w q of Some n \<Rightarrow> \<not> isLink n | None \<Rightarrow> True)"

definition plainPath :: "fileSystem \<Rightarrow> path \<Rightarrow> bool" where
  "plainPath w p \<longleftrightarrow> list_all (noLink w) (prefixes p)"

lemma plainPath_prefix: "plainPath w p \<Longrightarrow> prefix q p \<Longrightarrow> noLink w q"
  by (auto simp: plainPath_def list_all_iff)

lemma plainPathI: "(\<And>q. prefix q p \<Longrightarrow> noLink w q) \<Longrightarrow> plainPath w p"
  by (auto simp: plainPath_def list_all_iff)

lemma plainPath_take: "plainPath w p \<Longrightarrow> prefix q p \<Longrightarrow> plainPath w q"
  by (meson plainPathI plainPath_prefix prefix_order.trans)

lemma resolve_plain: "plainPath w p \<Longrightarrow> resolve w p = Inr p"
  using resolveFrom_plain [of p w "[]" 40] plainPath_prefix [of w p]
  by (simp add: resolve_def noLink_def)

lemma butlast_prefix: "prefix (butlast p) p"
  by (metis append_butlast_last_id butlast.simps(1) prefix_order.refl prefixI)

lemma resolveParent_plain: "plainPath w p \<Longrightarrow> resolveParent w p = Inr p"
  using resolve_plain [OF plainPath_take [OF _ butlast_prefix], of w p] by (simp add: resolveParent_def)

lemma plainPath_cong: "(\<And>q. prefix q p \<Longrightarrow> nodeAt v q = nodeAt w q) \<Longrightarrow> plainPath v p = plainPath w p"
  by (simp add: plainPath_def list_all_iff noLink_def)

text \<open>
  Well-formedness: one node per path, a directory above every node, and names that mean
  themselves.
\<close>

definition nameOK :: "string \<Rightarrow> bool" where
  "nameOK c \<longleftrightarrow> c \<noteq> '''' \<and> c \<noteq> ''.'' \<and> c \<noteq> ''..'' \<and> CHR ''/'' \<notin> set c"

definition fsOK :: "fileSystem \<Rightarrow> bool" where
  "fsOK w \<longleftrightarrow> distinct (mkeys (fs_nodes w)) \<and> (\<exists>m. nodeAt w [] = Some (Dir m)) \<and>
     (\<forall>p n. nodeAt w p = Some n \<and> p \<noteq> [] \<longrightarrow> nameOK (last p) \<and> (\<exists>m. nodeAt w (butlast p) = Some (Dir m)))"

lemma isDir_iff: "isDir n \<longleftrightarrow> (\<exists>m. n = Dir m)"
  by (cases n) auto

lemma fsOK_parents:
  assumes "fsOK w" and "nodeAt w p = Some n" and "strict_prefix q p"
  shows "\<exists>m. nodeAt w q = Some (Dir m)"
  using assms(2,3)
proof (induction "length p" arbitrary: p n)
  case (Suc k)
  then have "p \<noteq> []" by auto
  with assms(1) Suc.prems(1) obtain m where m: "nodeAt w (butlast p) = Some (Dir m)" by (auto simp: fsOK_def)
  show ?case
  proof (cases "q = butlast p")
    case False
    have "prefix q (butlast p)"
      using Suc.prems(2) \<open>p \<noteq> []\<close> by (metis append_butlast_last_id prefix_snoc strict_prefix_def)
    then have "strict_prefix q (butlast p)" using False by (simp add: strict_prefix_def)
    with Suc.hyps(1) [of "butlast p"] Suc.hyps(2) m show ?thesis by auto
  qed (use m in blast)
qed simp

lemma fsOK_names:
  assumes "fsOK w" and "nodeAt w p = Some n"
  shows "list_all nameOK p"
  using assms(2)
proof (induction "length p" arbitrary: p n)
  case (Suc k)
  then have "p \<noteq> []" by auto
  with assms(1) Suc.prems obtain m where m: "nodeAt w (butlast p) = Some (Dir m)" and l: "nameOK (last p)" by (auto simp: fsOK_def)
  from Suc.hyps(1) [of "butlast p"] Suc.hyps(2) m have "list_all nameOK (butlast p)" by auto
  then have "list_all nameOK (butlast p @ [last p])" using l by simp
  with \<open>p \<noteq> []\<close> show ?case by simp
qed simp

lemma fsOK_plain: "fsOK w \<Longrightarrow> nodeAt w p = Some n \<Longrightarrow> \<not> isLink n \<Longrightarrow> plainPath w p"
  by (rule plainPathI) (metis fsOK_parents isLink.simps(1) noLink_def option.simps(5) strict_prefix_def)

lemma relString_dot:
  assumes "list_all nameOK rel"
  shows "relString rel = ''.'' \<longleftrightarrow> rel = []"
proof -
  have "joinWith (CHR ''/'') (a # b # cs) \<noteq> ''.''" if "nameOK a" for a b and cs :: "string list"
    using that by (cases a) (auto simp: nameOK_def)
  with assms show ?thesis
    by (cases rel; cases "tl rel") (auto simp: relString_def nameOK_def)
qed

text \<open>Making a directory and its parents where nothing is in the way and no call fails.\<close>

definition wayClear :: "fileSystem \<Rightarrow> path \<Rightarrow> bool" where
  "wayClear w p \<longleftrightarrow> (\<exists>m. nodeAt w [] = Some (Dir m)) \<and>
     (\<forall>q. prefix q p \<longrightarrow> (case nodeAt w q of Some n \<Rightarrow> isDir n | None \<Rightarrow> True)) \<and>
     (\<forall>q r. prefix q p \<and> nodeAt w q \<noteq> None \<and> prefix r q \<longrightarrow> nodeAt w r \<noteq> None)"

lemma wayClear_prefix: "wayClear w p \<Longrightarrow> prefix q p \<Longrightarrow> wayClear w q"
  unfolding wayClear_def by (meson prefix_order.trans)

lemma wayClear_fsOK:
  assumes "fsOK w" and "\<And>q n. prefix q p \<Longrightarrow> nodeAt w q = Some n \<Longrightarrow> isDir n"
  shows "wayClear w p"
proof -
  have "nodeAt w r \<noteq> None" if "nodeAt w q \<noteq> None" "prefix r q" for q r
    using that fsOK_parents [OF assms(1), of q _ r] by (cases "r = q") (auto simp: strict_prefix_def)
  moreover have "\<exists>m. nodeAt w [] = Some (Dir m)" using assms(1) by (simp add: fsOK_def)
  ultimately show ?thesis using assms(2) unfolding wayClear_def by (simp split: option.splits) blast
qed

lemma wayClear_plain: "wayClear w p \<Longrightarrow> plainPath w p"
  by (rule plainPathI) (fastforce simp: wayClear_def noLink_def isDir_iff split: option.splits)

lemma mkdirAll_clear:
  assumes "wayClear w p" and "fs_faults w = []"
  shows "\<exists>w'. mkdirAll p perm w = (None, w') \<and> fs_faults w' = [] \<and> fs_umask w' = fs_umask w \<and>
     (distinct (mkeys (fs_nodes w)) \<longrightarrow> distinct (mkeys (fs_nodes w'))) \<and>
     (\<forall>q. nodeAt w' q = (if prefix q p \<and> nodeAt w q = None then Some (Dir (masked w perm)) else nodeAt w q))"
  using assms(1)
proof (induction "length p" arbitrary: p)
  case 0
  then obtain m where m: "nodeAt w [] = Some (Dir m)" by (auto simp: wayClear_def)
  with 0 resolve_plain [OF wayClear_plain [OF 0(2)]] show ?case
    by (auto simp: mkdirAll.simps sysStat_def nextFault_none [OF assms(2)] lookupNode_def assms(2))
next
  case (Suc k)
  have res: "resolve w p = Inr p" by (rule resolve_plain [OF wayClear_plain [OF Suc.prems]])
  show ?case
  proof (cases "nodeAt w p")
    case (Some n)
    then have dir: "isDir n" using Suc.prems by (auto simp: wayClear_def split: option.splits)
    have "nodeAt w q \<noteq> None" if "prefix q p" for q
      using Suc.prems Some that unfolding wayClear_def by (metis option.distinct(1) prefix_order.refl)
    with Some dir res show ?thesis
      by (auto simp: mkdirAll.simps [of p] sysStat_def nextFault_none [OF assms(2)] lookupNode_def assms(2))
  next
    case None
    have "p \<noteq> []" using Suc.hyps(2) by auto
    have "wayClear w (butlast p)" by (rule wayClear_prefix [OF Suc.prems butlast_prefix])
    moreover have "k = length (butlast p)" using Suc.hyps(2) by (metis diff_Suc_1 length_butlast)
    ultimately obtain w1 where w1:
      "mkdirAll (butlast p) perm w = (None, w1)" "fs_faults w1 = []" "fs_umask w1 = fs_umask w"
      "distinct (mkeys (fs_nodes w)) \<longrightarrow> distinct (mkeys (fs_nodes w1))"
      "\<And>q. nodeAt w1 q = (if prefix q (butlast p) \<and> nodeAt w q = None then Some (Dir (masked w perm)) else nodeAt w q)"
      using Suc.hyps(1) [of "butlast p"] by blast
    have notp: "\<not> prefix p (butlast p)" using \<open>p \<noteq> []\<close>
      by (metis append_butlast_last_id butlast_prefix not_Cons_self2 prefix_order.antisym same_append_eq append.right_neutral)
    have plain1: "plainPath w1 p"
      using plainPath_prefix [OF wayClear_plain [OF Suc.prems]]
      by (intro plainPathI) (auto simp: noLink_def w1(5) split: option.splits)
    have absent: "nodeAt w1 p = None" using None notp by (simp add: w1(5))
    have "\<exists>n. nodeAt w1 (butlast p) = Some n \<and> isDir n"
      using Suc.prems butlast_prefix [of p] by (auto simp: w1(5) wayClear_def split: option.splits)
    then obtain d where d: "nodeAt w1 (butlast p) = Some d" "isDir d" by blast
    have mk: "sysMkdir p perm w1 = (None, putNode p (Dir (masked w perm)) w1)"
      using absent d \<open>p \<noteq> []\<close> resolveParent_plain [OF plain1]
      by (simp add: sysMkdir_def nextFault_none [OF w1(2)] createAt_def masked_def w1(3))
    have pre: "prefix q p \<longleftrightarrow> q = p \<or> prefix q (butlast p)" for q
      using \<open>p \<noteq> []\<close> by (metis append_butlast_last_id prefix_snoc)
    have "mkdirAll p perm w = (None, putNode p (Dir (masked w perm)) w1)"
      using None res mk w1(1) \<open>p \<noteq> []\<close>
      by (simp add: mkdirAll.simps [of p] sysStat_def nextFault_none [OF assms(2)] lookupNode_def)
    then show ?thesis
      using w1(2-) None by (intro exI [of _ "putNode p (Dir (masked w perm)) w1"])
        (auto simp: pre w1(5) putNode_def distinct_mput)
  qed
qed

section \<open>What calls below one directory leave alone\<close>

text \<open>
  \<open>tame d w\<close>: no link leads out of \<open>d\<close> or of the way to it. \<open>frame d w v\<close>: every node of \<open>w\<close> that is
  not in \<open>d\<close> is still in \<open>v\<close>, whatever was added.
\<close>

definition near :: "path \<Rightarrow> path \<Rightarrow> bool" where
  "near d p \<longleftrightarrow> prefix d p \<or> prefix p d"

definition tame :: "path \<Rightarrow> fileSystem \<Rightarrow> bool" where
  "tame d w \<longleftrightarrow> (\<forall>q. near d q \<longrightarrow> noLink w q)"

definition frame :: "path \<Rightarrow> fileSystem \<Rightarrow> fileSystem \<Rightarrow> bool" where
  "frame d w v \<longleftrightarrow> tame d v \<and> (\<forall>q n. nodeAt w q = Some n \<and> \<not> prefix d q \<longrightarrow> nodeAt v q = Some n)"

lemma frame_refl: "tame d w \<Longrightarrow> frame d w w"
  by (simp add: frame_def)

lemma frame_trans: "frame d u v \<Longrightarrow> frame d v w \<Longrightarrow> frame d u w"
  by (simp add: frame_def)

lemma frame_tame: "frame d w v \<Longrightarrow> tame d v"
  by (simp add: frame_def)

lemma near_prefix: "near d p \<Longrightarrow> prefix q p \<Longrightarrow> near d q"
  unfolding near_def by (meson prefix_order.trans prefix_same_cases)

lemma near_append [simp]: "near d (d @ q)" "near d d"
  by (simp_all add: near_def)

lemma tame_plain: "tame d w \<Longrightarrow> near d p \<Longrightarrow> plainPath w p"
  by (rule plainPathI) (meson near_prefix tame_def)

lemma frame_same_nodes: "tame d w \<Longrightarrow> fs_nodes v = fs_nodes w \<Longrightarrow> frame d w v"
  by (simp add: frame_def tame_def noLink_def)

lemma frame_fault: "tame d w \<Longrightarrow> nextFault w = (f, v) \<Longrightarrow> frame d w v"
  using nextFault_nodes [of w f v] by (auto intro: frame_same_nodes)

lemma frame_put:
  assumes "tame d w" and "prefix d p \<or> (near d p \<and> nodeAt w p = None)" and "\<not> isLink n"
  shows "frame d w (putNode p n w)"
  using assms by (auto simp: frame_def tame_def noLink_def)

lemma frame_create:
  assumes "tame d w" and "near d p" and "\<not> isLink n" and "createAt p n w = (e, v)"
  shows "frame d w v"
  using assms(4) frame_put [OF assms(1) _ assms(3), of p] assms(2) frame_refl [OF assms(1)]
  by (auto simp: createAt_def split: option.splits if_splits)

lemma frame_calls:
  assumes "tame d w"
  shows "sysStat p w = (r, v) \<Longrightarrow> frame d w v" and "sysLstat p w = (r, v) \<Longrightarrow> frame d w v"
    and "sysReadDir p w = (r2, v) \<Longrightarrow> frame d w v" and "sysOpenRead p w = (r3, v) \<Longrightarrow> frame d w v"
  using frame_fault [OF assms] by (auto simp: sysStat_def sysLstat_def sysReadDir_def sysOpenRead_def
      split: prod.splits option.splits sum.splits if_splits)

lemma frame_mkdir:
  assumes "tame d w" and "near d p" and "sysMkdir p perm w = (e, v)"
  shows "frame d w v"
proof -
  obtain f w1 where f: "nextFault w = (f, w1)" by fastforce
  have fr: "frame d w w1" using frame_fault [OF assms(1) f] .
  from frame_tame [OF fr] have t: "tame d w1" .
  show ?thesis
    using assms(3) fr frame_trans [OF fr frame_create [OF t assms(2), of "Dir (masked w1 perm)" e v]]
      resolveParent_plain [OF tame_plain [OF t assms(2)]]
    by (auto simp: sysMkdir_def f split: option.splits prod.splits)
qed

lemma frame_mkdirAll:
  "tame d w \<Longrightarrow> near d p \<Longrightarrow> mkdirAll p perm w = (e, v) \<Longrightarrow> frame d w v"
proof (induction "length p" arbitrary: p w e v rule: less_induct)
  case less
  obtain r w1 where s: "sysStat p w = (r, w1)" by fastforce
  have f1: "frame d w w1" by (rule frame_calls(1) [OF less.prems(1) s])
  note t1 = frame_tame [OF f1]
  show ?case
  proof (cases r)
    case (Inr n)
    then show ?thesis using f1 less.prems(3) s by (simp add: mkdirAll.simps)
  next
    case (Inl x)
    obtain e2 w2 where m: "(if p = [] then (None, w1) else mkdirAll (butlast p) perm w1) = (e2, w2)" by fastforce
    have "near d (butlast p)" using less.prems(2) butlast_prefix by (rule near_prefix)
    then have f2: "frame d w1 w2"
      using m less.hyps [of "butlast p" w1 e2 w2] frame_refl [OF t1] t1 by (auto split: if_splits)
    note t2 = frame_tame [OF f2]
    obtain e3 w3 where k: "sysMkdir p perm w2 = (e3, w3)" by fastforce
    have f3: "frame d w2 w3" by (rule frame_mkdir [OF t2 less.prems(2) k])
    obtain r4 w4 where l: "sysLstat p w3 = (r4, w4)" by fastforce
    have f4: "frame d w3 w4" by (rule frame_calls(2) [OF frame_tame [OF f3] l])
    have "v = w2 \<or> v = w3 \<or> v = w4"
      using less.prems(3) Inl by (auto simp: mkdirAll.simps [of p] s m k l split: option.splits sum.splits)
    then show ?thesis
      using frame_trans [OF f1 f2] frame_trans [OF frame_trans [OF f1 f2] f3]
        frame_trans [OF frame_trans [OF frame_trans [OF f1 f2] f3] f4] by blast
  qed
qed

lemma frame_openWrite:
  assumes "tame d w" and "prefix d p" and "sysOpenWrite p perm w = (r, v)"
  shows "frame d w v \<and> (\<forall>q. r = Inr q \<longrightarrow> q = p)"
proof -
  obtain f w1 where f: "nextFault w = (f, w1)" by fastforce
  have fr: "frame d w w1" using frame_fault [OF assms(1) f] .
  note t = frame_tame [OF fr]
  have np: "near d p" using assms(2) by (simp add: near_def)
  note put = frame_trans [OF fr frame_put [OF t, of p "Regular '''' _"]]
    and create = frame_trans [OF fr frame_create [OF t np, of "Regular '''' (masked w1 perm)"]]
  show ?thesis
    using assms(2,3) fr put create resolve_plain [OF tame_plain [OF t np]]
    by (auto simp: sysOpenWrite_def f split: option.splits prod.splits node.splits)
qed

lemma frame_append: "tame d w \<Longrightarrow> prefix d p \<Longrightarrow> frame d w (appendBytes p bs w)"
  using frame_put [of d w p] frame_refl [of d w] by (auto simp: appendBytes_def split: option.splits node.splits)

lemma frame_copy:
  assumes "tame d w" and "prefix d p" and "sysCopy src p w = (r, v)"
  shows "frame d w v"
proof -
  obtain f w1 where f: "nextFault w = (f, w1)" by fastforce
  have fr: "frame d w w1" using frame_fault [OF assms(1) f] .
  have "frame d w (appendBytes p bs w1)" for bs
    by (rule frame_trans [OF fr frame_append [OF frame_tame [OF fr] assms(2)]])
  then show ?thesis
    using assms(3) fr frame_refl [OF assms(1)]
    by (auto simp: sysCopy_def f split: option.splits prod.splits node.splits)
qed

section \<open>Command line flags\<close>

text \<open>
  \<open>flag.FlagSet.Parse\<close> for flags with a value. The first argument that is no flag ends the flags,
  and so do two dashes alone. A flag is written with one or two dashes, its value in the same
  argument after an equals sign or in the next one. \<open>setFlag\<close> stores a value; it refuses unknown
  names, the help flags among them, and bad values.
\<close>

definition flagParts :: "string \<Rightarrow> (string \<times> string option) option" where
  "flagParts s = (if s = '''' then None else Some (case breakAt (CHR ''='') s of
       None \<Rightarrow> (s, None) | Some (n, v) \<Rightarrow> (n, Some v)))"

definition flagOf :: "string \<Rightarrow> (string \<times> string option) option" where
  "flagOf a = (if prefix ''--'' a then flagParts (drop 2 a) else if prefix ''-'' a then flagParts (drop 1 a) else None)"

fun parseFlags :: "(string \<Rightarrow> string \<Rightarrow> 'c \<Rightarrow> 'c option) \<Rightarrow> string list \<Rightarrow> 'c \<Rightarrow> 'c option" where
  "parseFlags setFlag [] c = Some c"
| "parseFlags setFlag (a # as) c = (case flagOf a of
       None \<Rightarrow> Some c
     | Some (n, Some v) \<Rightarrow> (case setFlag n v c of None \<Rightarrow> None | Some c1 \<Rightarrow> parseFlags setFlag as c1)
     | Some (n, None) \<Rightarrow> (case as of [] \<Rightarrow> None
          | v # as1 \<Rightarrow> (case setFlag n v c of None \<Rightarrow> None | Some c1 \<Rightarrow> parseFlags setFlag as1 c1)))"

section \<open>Writing a whole file\<close>

lemma openWrite_ok:
  assumes "sysOpenWrite p perm w = (Inr q, v)" and "plainPath w p" and "nodeAt w p \<noteq> Some Special"
  shows "q = p \<and> (\<exists>m. nodeAt v p = Some (Regular '''' m)) \<and> (\<forall>x. x \<noteq> p \<longrightarrow> nodeAt v x = nodeAt w x)"
proof -
  obtain f w1 where f: "nextFault w = (f, w1)" by fastforce
  have same: "fs_nodes w1 = fs_nodes w" using nextFault_nodes [OF f] by simp
  then have "plainPath w1 p" using assms(2) by (simp add: plainPath_def noLink_def list_all_iff)
  from resolve_plain [OF this] assms(1,3) f same show ?thesis
    by (auto simp: sysOpenWrite_def createAt_def split: option.splits node.splits prod.splits if_splits)
qed

lemma appendBytes_ok:
  "nodeAt v p = Some (Regular '''' m) \<Longrightarrow>
     nodeAt (appendBytes p bs v) x = (if x = p then Some (Regular bs m) else nodeAt v x)"
  by (simp add: appendBytes_def)

lemma writeFile_ok:
  assumes "sysWriteFile p bs perm w = (None, v)" and "plainPath w p" and "nodeAt w p \<noteq> Some Special"
  shows "(\<exists>m. nodeAt v p = Some (Regular bs m)) \<and> (\<forall>x. x \<noteq> p \<longrightarrow> nodeAt v x = nodeAt w x)"
proof -
  obtain q w1 w2 where o: "sysOpenWrite p perm w = (Inr q, w1)" "nextFault w1 = (None, w2)" "v = appendBytes q bs w2"
    using assms(1) by (auto simp: sysWriteFile_def split: prod.splits sum.splits option.splits)
  from openWrite_ok [OF o(1) assms(2,3)] nextFault_nodes [OF o(2)] o(3) show ?thesis
    by (auto simp: appendBytes_ok)
qed

end
