(* ===== verification/BackupSum.thy ===== *)
theory BackupSum
  imports FileSystem
begin

text \<open>
  \<open>internal/backupsum/service.go\<close>: the validation of the two directories, the walk over the source
  that copies and hashes every regular file, and the reports. SHA-256 and the JSON encoder are
  parameters. \<open>filepath.WalkDir\<close> is a work list of the entries still to visit, in order, with the
  children of a directory put in front; the number of visits is bounded by fuel.
\<close>

section \<open>Configuration, reports and errors\<close>

record backupConfig =
  bk_SourceDir :: string
  bk_DestinationDir :: string
  bk_ReportPath :: string

text \<open>The validated configuration: two absolute clean paths.\<close>

record backupPaths =
  bp_Source :: path
  bp_Destination :: path
  bp_ReportPath :: string

record fileReport =
  fl_RelativePath :: string
  fl_SizeBytes :: int64
  fl_SHA256 :: string

record backupReport =
  br_SourceDir :: path
  br_DestinationDir :: path
  br_Files :: "fileReport list"
  br_FileCount :: int64
  br_TotalBytes :: int64

datatype copyError = OpenSource string | OpenDestination string | CopyBytes string

datatype backupError =
    SourceRequired | DestinationRequired | ResolveSource string | ResolveDestination string
  | StatSource string | SourceNotDirectory | SameDirectories | DestinationInsideSource
  | CreateDestination string | WalkSource string | CreateSubdirectory string string
  | FileInfo string string | CopyFile string copyError
  | MarshalReport string | WriteStdout string | WriteReport string

record backupEnv =
  be_sha256 :: "string \<Rightarrow> nat list"
  be_cwd :: "string + path"
  be_marshal :: "backupReport \<Rightarrow> string + string"

section \<open>Validation\<close>

definition isNestedPath :: "string \<Rightarrow> bool" where
  "isNestedPath rel = (if rel = '''' \<or> rel = ''.'' then False
     else if rel = ''..'' \<or> prefix ''../'' rel then False else True)"

definition validateConfig :: "backupEnv \<Rightarrow> backupConfig \<Rightarrow> fileSystem \<Rightarrow> (backupError + backupPaths) \<times> fileSystem" where
  "validateConfig env cfg w =
     (if bk_SourceDir cfg = '''' then (Inl SourceRequired, w)
      else if bk_DestinationDir cfg = '''' then (Inl DestinationRequired, w)
      else case absPath (be_cwd env) (bk_SourceDir cfg) of Inl e \<Rightarrow> (Inl (ResolveSource e), w)
      | Inr src \<Rightarrow> (case absPath (be_cwd env) (bk_DestinationDir cfg) of Inl e \<Rightarrow> (Inl (ResolveDestination e), w)
      | Inr dst \<Rightarrow> (case sysStat src w of
            (Inl e, w1) \<Rightarrow> (Inl (StatSource e), w1)
          | (Inr info, w1) \<Rightarrow>
              if \<not> isDir info then (Inl SourceNotDirectory, w1)
              else if src = dst then (Inl SameDirectories, w1)
              else if isNestedPath (relString (relPath src dst)) then (Inl DestinationInsideSource, w1)
              else (Inr \<lparr>bp_Source = src, bp_Destination = dst, bp_ReportPath = bk_ReportPath cfg\<rparr>, w1))))"

section \<open>Copying\<close>

text \<open>The checksum in hexadecimal and the number of bytes written.\<close>

definition copyFileWithSHA256 ::
  "backupEnv \<Rightarrow> path \<Rightarrow> path \<Rightarrow> fileMode \<Rightarrow> fileSystem \<Rightarrow> (copyError + string \<times> int64) \<times> fileSystem" where
  "copyFileWithSHA256 env srcPath dstPath mode w = (case sysOpenRead srcPath w of
       (Inl e, w1) \<Rightarrow> (Inl (OpenSource e), w1)
     | (Inr srcFile, w1) \<Rightarrow> (case sysOpenWrite dstPath mode w1 of
          (Inl e, w2) \<Rightarrow> (Inl (OpenDestination e), w2)
        | (Inr dstFile, w2) \<Rightarrow> (case sysCopy srcFile dstFile w2 of
             (Inl e, w3) \<Rightarrow> (Inl (CopyBytes e), w3)
           | (Inr bytes, w3) \<Rightarrow> (Inr (hexEncode (be_sha256 env bytes), int (length bytes)), w3))))"

definition addFile :: "fileReport \<Rightarrow> backupReport \<Rightarrow> backupReport" where
  "addFile f r = r\<lparr>br_Files := br_Files r @ [f], br_FileCount := wrap64 (br_FileCount r + 1),
     br_TotalBytes := wrap64 (br_TotalBytes r + fl_SizeBytes f)\<rparr>"

text \<open>The permission bits of a node.\<close>

fun nodePerm :: "node \<Rightarrow> fileMode" where
  "nodePerm (Dir m) = m"
| "nodePerm (Regular s m) = m"
| "nodePerm (Link t) = 511"
| "nodePerm Special = 0"

text \<open>The function that \<open>backupAndHash\<close> hands to the walk, for an entry that was read without error.\<close>

definition visitEntry ::
  "backupEnv \<Rightarrow> backupPaths \<Rightarrow> path \<Rightarrow> bool \<Rightarrow> backupReport \<times> fileSystem \<Rightarrow> backupError option \<times> backupReport \<times> fileSystem" where
  "visitEntry env cfg p dir rw =
     (let (r, w) = rw; rel = relPath (bp_Source cfg) p; relStr = relString rel; dstPath = bp_Destination cfg @ rel
      in if relStr = ''.'' then (None, r, w)
         else if dir then (case mkdirAll dstPath 493 w of
                (Some e, w1) \<Rightarrow> (Some (CreateSubdirectory relStr e), r, w1) | (None, w1) \<Rightarrow> (None, r, w1))
         else (case sysLstat p w of
                (Inl e, w1) \<Rightarrow> (Some (FileInfo relStr e), r, w1)
              | (Inr info, w1) \<Rightarrow>
                  if \<not> isRegular info then (None, r, w1)
                  else (case copyFileWithSHA256 env p dstPath (nodePerm info) w1 of
                     (Inl e, w2) \<Rightarrow> (Some (CopyFile relStr e), r, w2)
                   | (Inr (checksum, sz), w2) \<Rightarrow>
                       (None, addFile \<lparr>fl_RelativePath = relStr, fl_SizeBytes = sz, fl_SHA256 = checksum\<rparr> r, w2))))"

fun walkEntries :: "backupEnv \<Rightarrow> backupPaths \<Rightarrow> nat \<Rightarrow> (path \<times> bool) list \<Rightarrow> backupReport \<times> fileSystem
     \<Rightarrow> (backupError option \<times> backupReport \<times> fileSystem) option" where
  "walkEntries env cfg fuel [] rw = Some (None, rw)"
| "walkEntries env cfg 0 (e # es) rw = None"
| "walkEntries env cfg (Suc n) ((p, dir) # es) rw = (case visitEntry env cfg p dir rw of
       (Some e, rw1) \<Rightarrow> Some (Some e, rw1)
     | (None, r1, w1) \<Rightarrow>
         if \<not> dir then walkEntries env cfg n es (r1, w1)
         else (case sysReadDir p w1 of
              (Inl e, w2) \<Rightarrow> Some (Some (WalkSource e), r1, w2)
            | (Inr names, w2) \<Rightarrow> walkEntries env cfg n (map (\<lambda>(c, d). (p @ [c], d)) names @ es) (r1, w2)))"

definition newReport :: "backupPaths \<Rightarrow> backupReport" where
  "newReport cfg = \<lparr>br_SourceDir = bp_Source cfg, br_DestinationDir = bp_Destination cfg, br_Files = [],
     br_FileCount = 0, br_TotalBytes = 0\<rparr>"

definition walkSource :: "backupEnv \<Rightarrow> backupPaths \<Rightarrow> nat \<Rightarrow> fileSystem
     \<Rightarrow> (backupError option \<times> backupReport \<times> fileSystem) option" where
  "walkSource env cfg fuel w = (case sysLstat (bp_Source cfg) w of
       (Inl e, w1) \<Rightarrow> Some (Some (WalkSource e), newReport cfg, w1)
     | (Inr n, w1) \<Rightarrow> walkEntries env cfg fuel [(bp_Source cfg, isDir n)] (newReport cfg, w1))"

definition backupAndHash :: "backupEnv \<Rightarrow> backupPaths \<Rightarrow> nat \<Rightarrow> fileSystem \<Rightarrow> ((backupError + backupReport) \<times> fileSystem) option" where
  "backupAndHash env cfg fuel w = (case mkdirAll (bp_Destination cfg) 493 w of
       (Some e, w1) \<Rightarrow> Some (Inl (CreateDestination e), w1)
     | (None, w1) \<Rightarrow> map_option (\<lambda>(err, r, w2). (case err of Some e \<Rightarrow> Inl e | None \<Rightarrow> Inr r, w2)) (walkSource env cfg fuel w1))"

text \<open>
  \<open>Run\<close>: \<open>stdout\<close> is what was written to it before; a fault of its own may cut the write short. The
  report file is written under its path as given.
\<close>

definition runBackup :: "backupEnv \<Rightarrow> nat \<Rightarrow> backupConfig \<Rightarrow> string \<times> fileSystem
     \<Rightarrow> ((backupError + backupReport) \<times> string \<times> fileSystem) option" where
  "runBackup env fuel cfg ow = (let (out, w) = ow in case validateConfig env cfg w of
       (Inl e, w1) \<Rightarrow> Some (Inl e, out, w1)
     | (Inr cleaned, w1) \<Rightarrow> (case backupAndHash env cleaned fuel w1 of
          None \<Rightarrow> None
        | Some (Inl e, w2) \<Rightarrow> Some (Inl e, out, w2)
        | Some (Inr report, w2) \<Rightarrow> (case be_marshal env report of
             Inl e \<Rightarrow> Some (Inl (MarshalReport e), out, w2)
           | Inr data \<Rightarrow>
               let bytes = data @ [CHR 0x0A] in
               (case nextFault w2 of
                  (Some (e, n), w3) \<Rightarrow> Some (Inl (WriteStdout e), out @ take n bytes, w3)
                | (None, w3) \<Rightarrow>
                    if bp_ReportPath cleaned = '''' then Some (Inr report, out @ bytes, w3)
                    else (case absPath (be_cwd env) (bp_ReportPath cleaned) of
                         Inl e \<Rightarrow> Some (Inl (WriteReport e), out @ bytes, w3)
                       | Inr p \<Rightarrow> (case sysWriteFile p bytes 420 w3 of
                            (Some e, w4) \<Rightarrow> Some (Inl (WriteReport e), out @ bytes, w4)
                          | (None, w4) \<Rightarrow> Some (Inr report, out @ bytes, w4)))))))"

section \<open>Validated directories\<close>

lemma splitOn_no_sep: "w \<in> set (splitOn c s) \<Longrightarrow> c \<notin> set w"
  by (induction s arbitrary: w) (auto split: list.splits if_splits)

lemma cleanComps_names:
  "list_all nameOK st \<Longrightarrow> (\<And>w. w \<in> set ws \<Longrightarrow> CHR ''/'' \<notin> set w) \<Longrightarrow> list_all nameOK (cleanComps True st ws)"
proof (induction True st ws rule: cleanComps.induct)
  case (2 st w ws)
  then show ?case by (cases st) (auto simp: nameOK_def)
qed simp

lemma absPath_names:
  assumes "absPath cwd s = Inr p" and "\<And>d. cwd = Inr d \<Longrightarrow> list_all nameOK d"
  shows "list_all nameOK p"
  using assms by (auto simp: absPath_def cleanParts_def split: if_splits sum.splits
      intro!: cleanComps_names dest: splitOn_no_sep)

lemma nested_iff:
  assumes "list_all nameOK dst" and "src \<noteq> dst"
  shows "isNestedPath (relString (relPath src dst)) \<longleftrightarrow> prefix src dst"
proof -
  have below: "isNestedPath (relString rel)" if names: "list_all nameOK rel" and ne: "rel \<noteq> []" for rel
  proof -
    obtain a as where rel: "rel = a # as" using ne by (cases rel) auto
    then obtain rest where j: "joinWith (CHR ''/'') rel = a @ rest" "rest = [] \<or> hd rest = CHR ''/''"
      by (cases as) auto
    have "\<not> prefix ''../'' (a @ rest)" "a @ rest \<noteq> ''..''" "a @ rest \<noteq> ''.''" "a @ rest \<noteq> ''''"
      using names rel j(2) by (auto simp: nameOK_def prefix_def Cons_eq_append_conv append_eq_Cons_conv)
    then show ?thesis using rel j(1) by (simp add: isNestedPath_def relString_def)
  qed
  have above: "\<not> isNestedPath (relString (map (\<lambda>_. ''..'') (b # bs) @ ts))" for b :: string and bs ts :: path
    by (cases "map (\<lambda>_. ''..'') bs @ ts") (auto simp: isNestedPath_def relString_def)
  show ?thesis
    using assms
  proof (induction src arbitrary: dst)
    case Nil
    then show ?case using below [of dst] by simp
  next
    case (Cons b bs)
    then show ?case using above [of b bs dst] by (cases dst) auto
  qed
qed

definition cwdOK :: "backupEnv \<Rightarrow> bool" where
  "cwdOK env \<longleftrightarrow> (case be_cwd env of Inl e \<Rightarrow> True | Inr d \<Rightarrow> list_all nameOK d)"

text \<open>Validation rejects a destination that is the source or inside of it, and only that.\<close>

lemma validateConfig_ok:
  assumes "validateConfig env cfg w = (Inr p, w1)" and "cwdOK env"
  shows "\<not> prefix (bp_Source p) (bp_Destination p) \<and> bp_ReportPath p = bk_ReportPath cfg \<and>
     (\<exists>n. sysStat (bp_Source p) w = (Inr n, w1) \<and> isDir n)"
proof -
  have "absPath (be_cwd env) (bk_DestinationDir cfg) = Inr (bp_Destination p)" "bp_Source p \<noteq> bp_Destination p"
    "\<not> isNestedPath (relString (relPath (bp_Source p) (bp_Destination p)))"
    "bp_ReportPath p = bk_ReportPath cfg" "\<exists>n. sysStat (bp_Source p) w = (Inr n, w1) \<and> isDir n"
    using assms(1) by (auto simp: validateConfig_def split: if_splits sum.splits prod.splits)
  with nested_iff [OF absPath_names] assms(2) show ?thesis unfolding cwdOK_def by (metis sum.simps(6))
qed

section \<open>The source is only read\<close>

lemma frame_copyFile:
  assumes "tame d w" and "prefix d p" and "copyFileWithSHA256 env src p mode w = (r, v)"
  shows "frame d w v"
proof -
  obtain r1 w1 where o1: "sysOpenRead src w = (r1, w1)" by fastforce
  have f1: "frame d w w1" by (rule frame_calls(4) [OF assms(1) o1])
  show ?thesis
  proof (cases r1)
    case (Inl e)
    then show ?thesis using assms(3) o1 f1 by (simp add: copyFileWithSHA256_def)
  next
    case (Inr s)
    obtain r2 w2 where o2: "sysOpenWrite p mode w1 = (r2, w2)" by fastforce
    from frame_openWrite [OF frame_tame [OF f1] assms(2) o2]
    have f2: "frame d w w2" and q: "\<And>q. r2 = Inr q \<Longrightarrow> q = p" using frame_trans [OF f1] by auto
    show ?thesis
    proof (cases r2)
      case (Inl e)
      then show ?thesis using assms(3) o1 o2 Inr f2 by (simp add: copyFileWithSHA256_def)
    next
      case r2: (Inr t)
      obtain r3 w3 where c: "sysCopy s t w2 = (r3, w3)" by fastforce
      have "frame d w2 w3" using frame_copy [OF frame_tame [OF f2] assms(2)] c q [OF r2] by simp
      then have "frame d w w3" by (rule frame_trans [OF f2])
      then show ?thesis using assms(3) o1 o2 Inr r2 c
        by (auto simp: copyFileWithSHA256_def split: sum.splits)
    qed
  qed
qed

lemma frame_visit:
  assumes "tame (bp_Destination cfg) w" and "prefix (bp_Source cfg) p"
    and "visitEntry env cfg p dir (r, w) = (e, r', v)"
  shows "frame (bp_Destination cfg) w v"
proof -
  let ?d = "bp_Destination cfg"
  obtain rel where p: "p = bp_Source cfg @ rel" using assms(2) by (auto simp: prefix_def)
  note mk = frame_mkdirAll [OF assms(1), of "?d @ rel" 493, OF near_append(1)]
  obtain i w1 where l: "sysLstat p w = (i, w1)" by fastforce
  have f1: "frame ?d w w1" by (rule frame_calls(2) [OF assms(1) l])
  have cp: "frame ?d w w2" if "copyFileWithSHA256 env p (?d @ rel) m w1 = (c, w2)" for m c w2
    by (rule frame_trans [OF f1 frame_copyFile [OF frame_tame [OF f1] _ that]]) simp
  show ?thesis
    using assms(3) mk f1 cp frame_refl [OF assms(1)] l p
    by (auto simp: visitEntry_def Let_def split: if_splits prod.splits option.splits sum.splits)
qed

lemma frame_walk:
  "tame (bp_Destination cfg) w \<Longrightarrow> list_all (\<lambda>e. prefix (bp_Source cfg) (fst e)) es \<Longrightarrow>
     walkEntries env cfg fuel es (r, w) = Some (err, r', v) \<Longrightarrow> frame (bp_Destination cfg) w v"
proof (induction fuel arbitrary: es r w)
  case 0
  then show ?case by (cases es) (auto intro: frame_refl)
next
  case (Suc n)
  let ?d = "bp_Destination cfg"
  show ?case
  proof (cases es)
    case Nil
    then show ?thesis using Suc.prems by (auto intro: frame_refl)
  next
    case (Cons entry rest)
    obtain p dir where e: "entry = (p, dir)" by fastforce
    obtain e1 r1 w1 where vis: "visitEntry env cfg p dir (r, w) = (e1, r1, w1)" by (metis prod.exhaust)
    have f1: "frame ?d w w1" using frame_visit [OF Suc.prems(1) _ vis] Suc.prems(2) Cons e by simp
    note t1 = frame_tame [OF f1]
    obtain names w2 where rd: "sysReadDir p w1 = (names, w2)" by fastforce
    have f2: "frame ?d w w2" by (rule frame_trans [OF f1 frame_calls(3) [OF t1 rd]])
    have rest: "frame ?d w v" if "walkEntries env cfg n rest (r1, w1) = Some (err, r', v)"
      using frame_trans [OF f1 Suc.IH [OF t1 _ that]] Suc.prems(2) Cons by simp
    have deeper: "frame ?d w v"
      if "walkEntries env cfg n (map (\<lambda>(c, d). (p @ [c], d)) cs @ rest) (r1, w2) = Some (err, r', v)" for cs
    proof -
      have "list_all (\<lambda>e. prefix (bp_Source cfg) (fst e)) (map (\<lambda>(c, d). (p @ [c], d)) cs @ rest)"
        using Suc.prems(2) Cons e by (auto simp: list_all_iff)
      from frame_trans [OF f2 Suc.IH [OF frame_tame [OF f2] this that]] show ?thesis .
    qed
    show ?thesis
      using Suc.prems(3) Cons e vis f1 f2 rd rest deeper
      by (auto split: option.splits if_splits sum.splits)
  qed
qed

lemma frame_backup:
  assumes "tame (bp_Destination cfg) w" and "backupAndHash env cfg fuel w = Some (res, v)"
  shows "frame (bp_Destination cfg) w v"
proof -
  let ?d = "bp_Destination cfg"
  obtain e1 w1 where mk: "mkdirAll ?d 493 w = (e1, w1)" by fastforce
  have f1: "frame ?d w w1" by (rule frame_mkdirAll [OF assms(1) near_append(2) mk])
  obtain i w2 where l: "sysLstat (bp_Source cfg) w1 = (i, w2)" by fastforce
  have f2: "frame ?d w w2" by (rule frame_trans [OF f1 frame_calls(2) [OF frame_tame [OF f1] l]])
  have "frame ?d w v" if "walkEntries env cfg fuel [(bp_Source cfg, b)] (newReport cfg, w2) = Some (err, r', v)" for b err r'
    using frame_trans [OF f2 frame_walk [OF frame_tame [OF f2] _ that]] by simp
  then show ?thesis
    using assms(2) mk f1 l f2
    by (auto simp: backupAndHash_def walkSource_def split: option.splits sum.splits)
qed


section \<open>A successful backup is exact\<close>

text \<open>
  The specification: what the walk makes of a node, and the files of a source in the order of their
  paths, each with its content.
\<close>

definition copyOf :: "fileSystem \<Rightarrow> node \<Rightarrow> node option" where
  "copyOf w n = (case n of Dir m \<Rightarrow> Some (Dir (masked w 493)) | Regular s m \<Rightarrow> Some (Regular s (masked w m))
     | Link t \<Rightarrow> None | Special \<Rightarrow> None)"

definition sourceFile :: "path \<Rightarrow> path \<times> node \<Rightarrow> (path \<times> string) option" where
  "sourceFile src pn = (case snd pn of Regular s m \<Rightarrow> if prefix src (fst pn) then Some (drop (length src) (fst pn), s) else None
     | _ \<Rightarrow> None)"

definition sourceFiles :: "fileSystem \<Rightarrow> path \<Rightarrow> (path \<times> string) list" where
  "sourceFiles w src = sort_key fst (List.map_filter (sourceFile src) (fs_nodes w))"

definition fileReportOf :: "backupEnv \<Rightarrow> path \<times> string \<Rightarrow> fileReport" where
  "fileReportOf env f = \<lparr>fl_RelativePath = relString (fst f), fl_SizeBytes = int (length (snd f)),
     fl_SHA256 = hexEncode (be_sha256 env (snd f))\<rparr>"

definition totalsOK :: "backupReport \<Rightarrow> bool" where
  "totalsOK r \<longleftrightarrow> br_FileCount r = wrap64 (int (length (br_Files r))) \<and>
     br_TotalBytes r = wrap64 (sum_list (map fl_SizeBytes (br_Files r)))"

lemma map_filter_set: "y \<in> set (List.map_filter f xs) \<longleftrightarrow> (\<exists>x \<in> set xs. f x = Some y)"
  by (force simp: List.map_filter_def)

lemma sourceFile_Some: "sourceFile src pn = Some (rel, s) \<longleftrightarrow> fst pn = src @ rel \<and> (\<exists>m. snd pn = Regular s m)"
  by (cases "snd pn") (auto simp: sourceFile_def prefix_def)

lemma sourceFiles_set:
  assumes "distinct (mkeys (fs_nodes w))"
  shows "(rel, s) \<in> set (sourceFiles w src) \<longleftrightarrow> (\<exists>m. nodeAt w (src @ rel) = Some (Regular s m))"
proof -
  have "(rel, s) \<in> set (sourceFiles w src) \<longleftrightarrow> (\<exists>m. (src @ rel, Regular s m) \<in> set (fs_nodes w))"
    unfolding sourceFiles_def set_sort map_filter_set sourceFile_Some by force
  then show ?thesis by (simp add: map_of_eq_Some_iff [OF assms])
qed

lemma sourceFiles_sorted:
  assumes "distinct (mkeys (fs_nodes w))"
  shows "sorted_wrt (<) (map fst (sourceFiles w src))"
proof -
  have "distinct (map fst (List.map_filter (sourceFile src) ns))" if "distinct (mkeys ns)" for ns
    using that
  proof (induction ns)
    case (Cons pn ns)
    show ?case
    proof (cases "sourceFile src pn")
      case None
      then show ?thesis using Cons by (simp add: List.map_filter_def)
    next
      case (Some rs)
      obtain rel s where rs: "rs = (rel, s)" by fastforce
      have "rel \<notin> set (map fst (List.map_filter (sourceFile src) ns))"
      proof
        assume "rel \<in> set (map fst (List.map_filter (sourceFile src) ns))"
        then obtain s' where "(rel, s') \<in> set (List.map_filter (sourceFile src) ns)" by auto
        then obtain pn' where "pn' \<in> set ns" "fst pn' = fst pn"
          using Some rs by (auto simp: map_filter_set sourceFile_Some)
        then show False using Cons.prems by (auto simp: image_iff)
      qed
      then show ?thesis using Cons Some rs by (simp add: List.map_filter_def)
    qed
  qed (simp add: List.map_filter_def)
  from this [OF assms] have "distinct (map fst (sourceFiles w src))"
    by (metis (no_types, lifting) sourceFiles_def distinct_map distinct_sort set_sort)
  moreover have "sorted (map fst (sourceFiles w src))" by (simp add: sourceFiles_def)
  ultimately show ?thesis by (simp add: strict_sorted_iff)
qed

subsection \<open>The order of a walk\<close>

lemma less_below: "p < p @ c # cs" for p :: path
  by (induction p) simp_all

lemma less_under: "p < s \<Longrightarrow> \<not> prefix p s \<Longrightarrow> p @ x < s" for p s :: path
proof (induction p arbitrary: s)
  case (Cons a p)
  then show ?case by (cases s) auto
qed simp

lemma prefix_le: "prefix p q \<Longrightarrow> p \<le> q" for p q :: path
  by (auto simp: prefix_def) (metis append.right_neutral less_below less_imp_le list.exhaust order_refl)

lemma less_same_prefix: "p @ a < p @ b \<longleftrightarrow> a < b" for p a b :: path
  by (induction p) simp_all

lemma less_children: "p @ [a] < p @ [b] \<longleftrightarrow> a < b" for p :: path
  by (induction p) simp_all

definition covered :: "(path \<times> bool) list \<Rightarrow> path \<Rightarrow> bool" where
  "covered es q \<longleftrightarrow> list_all (\<lambda>e. \<not> prefix (fst e) q) es"

lemma covered_simps [simp]:
  "covered [] q" "covered (e # es) q \<longleftrightarrow> \<not> prefix (fst e) q \<and> covered es q"
  "covered (es @ fs) q \<longleftrightarrow> covered es q \<and> covered fs q"
  by (simp_all add: covered_def)

definition stackOK :: "fileSystem \<Rightarrow> path \<Rightarrow> (path \<times> bool) list \<Rightarrow> bool" where
  "stackOK w src es \<longleftrightarrow> sorted_wrt (\<lambda>a b. fst a < fst b \<and> \<not> prefix (fst a) (fst b)) es \<and>
     list_all (\<lambda>(p, d). strict_prefix src p \<and> (\<exists>n. nodeAt w p = Some n \<and> d = isDir n)) es"

text \<open>The entries that replace the head of the stack, and what they leave to visit.\<close>

definition childEntries :: "fileSystem \<Rightarrow> path \<Rightarrow> (path \<times> bool) list" where
  "childEntries w p = map (\<lambda>(c, d). (p @ [c], d)) (map (dirEntry w p) (childNames w p))"

lemma childNames_set:
  "distinct (mkeys (fs_nodes w)) \<Longrightarrow> c \<in> set (childNames w p) \<longleftrightarrow> nodeAt w (p @ [c]) \<noteq> None"
  by (auto simp: childNames_def image_iff map_of_eq_None_iff)
    (metis append_butlast_last_id fst_conv, metis butlast_snoc fst_conv last_snoc snoc_eq_iff_butlast)

lemma childNames_sorted:
  assumes "distinct (mkeys (fs_nodes w))"
  shows "sorted_wrt (<) (childNames w p)"
proof -
  have "inj_on last {k. k \<noteq> [] \<and> butlast k = p}" by (auto simp: inj_on_def) (metis append_butlast_last_id)
  then have "distinct (childNames w p)"
    using assms by (auto simp: childNames_def distinct_map intro: inj_on_subset)
  moreover have "sorted (childNames w p)" by (simp add: childNames_def)
  ultimately show ?thesis by (simp add: strict_sorted_iff)
qed

text \<open>The stack below a visited head covers the head and nothing else new.\<close>

definition nextEntries :: "fileSystem \<Rightarrow> path \<Rightarrow> bool \<Rightarrow> (path \<times> bool) list \<Rightarrow> (path \<times> bool) list" where
  "nextEntries w p d es = (if d then childEntries w p else []) @ es"

lemma stack_head:
  assumes "stackOK w src ((p, d) # es)"
  shows "strict_prefix src p" and "stackOK w src es" and "\<And>q. prefix q p \<Longrightarrow> covered es q" and "list_all (\<lambda>e. p < fst e) es"
    and "\<exists>n. nodeAt w p = Some n \<and> d = isDir n"
proof -
  show above: "list_all (\<lambda>e. p < fst e) es" using assms by (auto simp: stackOK_def list_all_iff)
  show "covered es q" if "prefix q p" for q
    unfolding covered_def list_all_iff
  proof
    fix e
    assume "e \<in> set es"
    then have "p < fst e" using above by (auto simp: list_all_iff)
    with prefix_le [of "fst e" p] that show "\<not> prefix (fst e) q" by (metis leD prefix_order.trans)
  qed
qed (use assms in \<open>auto simp: stackOK_def\<close>)

lemma childEntries_set:
  assumes "distinct (mkeys (fs_nodes w))"
  shows "e \<in> set (childEntries w p) \<longleftrightarrow> (\<exists>c n. nodeAt w (p @ [c]) = Some n \<and> e = (p @ [c], isDir n))"
proof -
  have "e \<in> set (childEntries w p) \<longleftrightarrow>
      (\<exists>c \<in> set (childNames w p). e = (p @ [c], case nodeAt w (p @ [c]) of Some n \<Rightarrow> isDir n | None \<Rightarrow> False))"
    by (simp add: childEntries_def dirEntry_def image_iff)
  also have "\<dots> \<longleftrightarrow> (\<exists>c n. nodeAt w (p @ [c]) = Some n \<and> e = (p @ [c], isDir n))"
    unfolding Bex_def childNames_set [OF assms] by (rule ex_cong1) (auto split: option.splits)
  finally show ?thesis .
qed

lemma child_strict: "prefix (p @ [c]) q \<Longrightarrow> strict_prefix p q"
  by (auto simp: prefix_def strict_prefix_def)

lemma childEntries_covered:
  assumes "fsOK w" and "nodeAt w q = Some n"
  shows "covered (childEntries w p) q \<longleftrightarrow> \<not> strict_prefix p q"
proof -
  have dist: "distinct (mkeys (fs_nodes w))" using assms(1) by (simp add: fsOK_def)
  show ?thesis
  proof (cases "strict_prefix p q")
    case True
    obtain c cs where q: "q = p @ c # cs" using True by (rule strict_prefixE')
    have "nodeAt w (p @ [c]) \<noteq> None"
      using fsOK_parents [OF assms, of "p @ [c]"] assms(2) q by (cases cs) (auto simp: strict_prefix_def)
    then obtain m' where "(p @ [c], isDir m') \<in> set (childEntries w p)" unfolding childEntries_set [OF dist] by blast
    moreover have "prefix (p @ [c]) q" using q by simp
    ultimately have "\<not> covered (childEntries w p) q" unfolding covered_def list_all_iff by fastforce
    with True show ?thesis by simp
  next
    case False
    then have "covered (childEntries w p) q"
      unfolding covered_def list_all_iff using child_strict [of p _ q] childEntries_set [OF dist, of _ p] by fastforce
    with False show ?thesis by simp
  qed
qed

lemma nextEntries_covered:
  assumes "fsOK w" and "stackOK w src ((p, d) # es)" and "nodeAt w q = Some n"
  shows "covered (nextEntries w p d es) q \<longleftrightarrow> covered ((p, d) # es) q \<or> q = p"
proof -
  obtain m where m: "nodeAt w p = Some m" "d = isDir m" using stack_head(5) [OF assms(2)] by blast
  have own: "covered es p" using stack_head(3) [OF assms(2)] by simp
  note child = childEntries_covered [OF assms(1,3), of p]
  show ?thesis
  proof (cases "strict_prefix p q")
    case True
    then have d using fsOK_parents [OF assms(1,3) True] m by auto
    with child True show ?thesis by (auto simp: nextEntries_def strict_prefix_def)
  next
    case False
    then have "prefix p q \<longleftrightarrow> q = p" by (auto simp: strict_prefix_def)
    with own child False show ?thesis by (auto simp: nextEntries_def)
  qed
qed

lemma childEntries_stackOK:
  assumes "fsOK w" and "prefix src p"
  shows "stackOK w src (childEntries w p)"
proof -
  have dist: "distinct (mkeys (fs_nodes w))" using assms(1) by (simp add: fsOK_def)
  have "sorted_wrt (\<lambda>a b. fst a < fst b \<and> \<not> prefix (fst a) (fst b)) (childEntries w p)"
    using childNames_sorted [OF dist, of p]
    by (auto simp: childEntries_def dirEntry_def sorted_wrt_map less_children elim: sorted_wrt_mono_rel [rotated])
  moreover have "strict_prefix src (p @ [c])" for c
    using assms(2) by (auto simp: strict_prefix_def prefix_def)
  ultimately show ?thesis by (auto simp: stackOK_def list_all_iff childEntries_set [OF dist])
qed

lemma nextEntries_stackOK:
  assumes "fsOK w" and "stackOK w src ((p, d) # es)"
  shows "stackOK w src (nextEntries w p d es)"
proof (cases d)
  case True
  have dist: "distinct (mkeys (fs_nodes w))" using assms(1) by (simp add: fsOK_def)
  have "stackOK w src (childEntries w p)"
    using childEntries_stackOK [OF assms(1)] stack_head(1) [OF assms(2)] by (simp add: strict_prefix_def)
  moreover have "p @ [c] < fst e \<and> \<not> prefix (p @ [c]) (fst e)" if "e \<in> set es" for c e
  proof -
    have "p < fst e" "\<not> prefix p (fst e)" using assms(2) that by (auto simp: stackOK_def)
    then show ?thesis using less_under [of p "fst e" "[c]"] append_prefixD by blast
  qed
  ultimately show ?thesis
    using stack_head(2) [OF assms(2)] True
    by (auto simp: nextEntries_def stackOK_def sorted_wrt_append childEntries_set [OF dist])
qed (simp add: nextEntries_def stack_head(2) [OF assms(2)])

definition visited :: "fileSystem \<Rightarrow> path \<Rightarrow> (path \<times> bool) list \<Rightarrow> bool" where
  "visited w src es \<longleftrightarrow> (\<forall>q n. nodeAt w q = Some n \<and> prefix src q \<and> covered es q \<longrightarrow> list_all (\<lambda>e. q < fst e) es)"

lemma nextEntries_visited:
  assumes "fsOK w" and "stackOK w src ((p, d) # es)" and "visited w src ((p, d) # es)"
  shows "visited w src (nextEntries w p d es)"
  unfolding visited_def
proof (intro allI impI)
  fix q n
  assume q: "nodeAt w q = Some n \<and> prefix src q \<and> covered (nextEntries w p d es) q"
  have dist: "distinct (mkeys (fs_nodes w))" using assms(1) by (simp add: fsOK_def)
  have "q \<le> p \<and> list_all (\<lambda>e. q < fst e) es"
    using nextEntries_covered [OF assms(1,2)] q assms(3) stack_head(4) [OF assms(2)] unfolding visited_def by fastforce
  then show "list_all (\<lambda>e. q < fst e) (nextEntries w p d es)"
    using less_below [of p] by (auto simp: nextEntries_def list_all_iff childEntries_set [OF dist] intro: order_le_less_trans)
qed

text \<open>Adding the greatest element to what is selected from a sorted list appends it.\<close>

lemma filter_next:
  assumes "sorted_wrt (<) (map fst (xs :: (path \<times> 'a) list))" and "x \<in> set xs" and "\<And>y. y \<in> set xs \<Longrightarrow> P (fst y) \<Longrightarrow> fst y < fst x"
  shows "filter (\<lambda>y. P (fst y) \<or> fst y = fst x) xs = filter (\<lambda>y. P (fst y)) xs @ [x]"
  using assms
proof (induction xs)
  case (Cons y ys)
  show ?case
  proof (cases "y = x")
    case True
    have none: "\<not> P (fst z) \<and> fst z \<noteq> fst x" if "z \<in> set ys" for z
    proof -
      have "fst x < fst z" using Cons.prems(1) True that by simp
      then show ?thesis using Cons.prems(3) [of z] that by auto
    qed
    then have "filter (\<lambda>y. P (fst y) \<or> fst y = fst x) ys = []" "filter (\<lambda>y. P (fst y)) ys = []"
      by (auto simp: filter_empty_conv)
    moreover have "\<not> P (fst x)" using Cons.prems(3) [OF Cons.prems(2)] by auto
    ultimately show ?thesis using True by simp
  next
    case False
    then have "x \<in> set ys" using Cons.prems(2) by simp
    moreover from this have "fst y \<noteq> fst x" using Cons.prems(1) by auto
    ultimately show ?thesis using Cons by auto
  qed
qed simp

subsection \<open>The invariant of a walk without faults\<close>

text \<open>
  \<open>readyFS\<close>: the destination was just made, is empty and apart from the source. \<open>walkInv\<close>: outside of
  the destination nothing has changed since; below it is the copy of what the stack does not cover;
  the report lists the files among that, in order.
\<close>

definition readyFS :: "backupPaths \<Rightarrow> fileSystem \<Rightarrow> bool" where
  "readyFS cfg w \<longleftrightarrow> fsOK w \<and> fs_faults w = [] \<and> (\<exists>m. nodeAt w (bp_Source cfg) = Some (Dir m)) \<and>
     (\<exists>m. nodeAt w (bp_Destination cfg) = Some (Dir m)) \<and>
     \<not> prefix (bp_Source cfg) (bp_Destination cfg) \<and> \<not> prefix (bp_Destination cfg) (bp_Source cfg)"

definition imageOf :: "backupPaths \<Rightarrow> fileSystem \<Rightarrow> (path \<times> bool) list \<Rightarrow> path \<Rightarrow> node option" where
  "imageOf cfg w es rel = (if rel = [] then nodeAt w (bp_Destination cfg)
     else if covered es (bp_Source cfg @ rel) then Option.bind (nodeAt w (bp_Source cfg @ rel)) (copyOf w) else None)"

definition walkInv :: "backupEnv \<Rightarrow> backupPaths \<Rightarrow> fileSystem \<Rightarrow> (path \<times> bool) list \<Rightarrow> backupReport \<Rightarrow> fileSystem \<Rightarrow> bool" where
  "walkInv env cfg w es r v \<longleftrightarrow>
     fs_faults v = [] \<and> fs_umask v = fs_umask w \<and> distinct (mkeys (fs_nodes v)) \<and>
     (\<forall>q. \<not> prefix (bp_Destination cfg) q \<longrightarrow> nodeAt v q = nodeAt w q) \<and>
     (\<forall>rel. nodeAt v (bp_Destination cfg @ rel) = imageOf cfg w es rel) \<and>
     stackOK w (bp_Source cfg) es \<and> visited w (bp_Source cfg) es \<and> totalsOK r \<and>
     br_Files r = map (fileReportOf env) (filter (\<lambda>f. covered es (bp_Source cfg @ fst f)) (sourceFiles w (bp_Source cfg)))"

lemma apart:
  assumes "readyFS cfg w" and "prefix (bp_Source cfg) p" and "prefix q p"
  shows "\<not> prefix (bp_Destination cfg) q"
  using assms unfolding readyFS_def by (meson prefix_order.trans prefix_same_cases)

lemma source_plain:
  assumes "readyFS cfg w" and "walkInv env cfg w es r v" and "nodeAt w p = Some n" and "prefix (bp_Source cfg) p"
  shows "nodeAt v p = Some n" and "\<not> isLink n \<Longrightarrow> plainPath v p" and "sysLstat p v = (Inr n, v)"
proof -
  have same: "nodeAt v q = nodeAt w q" if "prefix q p" for q
    using apart [OF assms(1,4) that] assms(2) by (simp add: walkInv_def)
  show here: "nodeAt v p = Some n" using same assms(3) by simp
  have ok: "fsOK w" using assms(1) by (simp add: readyFS_def)
  show plain: "plainPath v p" if "\<not> isLink n"
    using fsOK_plain [OF ok assms(3) that] plainPath_cong [of p v w] same by simp
  have "resolveParent v p = Inr p"
  proof (cases "p = []")
    case False
    then have "strict_prefix (butlast p) p"
      using butlast_prefix [of p] by (metis append_butlast_last_id not_Cons_self2 self_append_conv strict_prefix_def)
    from fsOK_parents [OF ok assms(3) this] obtain m where "nodeAt w (butlast p) = Some (Dir m)" by blast
    from fsOK_plain [OF ok this] have "plainPath w (butlast p)" by simp
    then have "plainPath v (butlast p)"
      using same plainPath_cong [of "butlast p" v w] butlast_prefix [of p] prefix_order.trans by blast
    from resolve_plain [OF this] show ?thesis using False by (simp add: resolveParent_def)
  qed (simp add: resolveParent_def)
  then show "sysLstat p v = (Inr n, v)"
    using here assms(2) by (simp add: sysLstat_def nextFault_none walkInv_def lookupNode_def)
qed

lemma walkInv_image: "walkInv env cfg w es r v \<Longrightarrow> nodeAt v (bp_Destination cfg @ rel) = imageOf cfg w es rel"
  by (simp add: walkInv_def)

lemma walkInv_frame: "walkInv env cfg w es r v \<Longrightarrow> \<not> prefix (bp_Destination cfg) q \<Longrightarrow> nodeAt v q = nodeAt w q"
  by (simp add: walkInv_def)

lemma walkInv_faults: "walkInv env cfg w es r v \<Longrightarrow> fs_faults v = [] \<and> fs_umask v = fs_umask w"
  by (simp add: walkInv_def)

lemma walkInv_stack: "walkInv env cfg w es r v \<Longrightarrow> stackOK w (bp_Source cfg) es \<and> visited w (bp_Source cfg) es"
  by (simp add: walkInv_def)

lemma destination_clear:
  assumes "readyFS cfg w" and "walkInv env cfg w ((bp_Source cfg @ rel, d) # es) r v" and "rel \<noteq> []"
  shows "wayClear v (bp_Destination cfg @ rel)" and "nodeAt v (bp_Destination cfg @ rel) = None"
    and "\<exists>m. nodeAt v (butlast (bp_Destination cfg @ rel)) = Some (Dir m)"
    and "strict_prefix q (bp_Destination cfg @ rel) \<Longrightarrow> nodeAt v q \<noteq> None"
proof -
  let ?s = "bp_Source cfg" and ?d = "bp_Destination cfg"
  have ok: "fsOK w" using assms(1) by (simp add: readyFS_def)
  have st: "stackOK w ?s ((?s @ rel, d) # es)" using assms(2) by (simp add: walkInv_def)
  obtain n where n: "nodeAt w (?s @ rel) = Some n" using stack_head(5) [OF st] by blast
  show none: "nodeAt v (?d @ rel) = None" using assms(2,3) by (simp add: walkInv_def imageOf_def)
  have below: "\<exists>m. nodeAt v (?d @ rel') = Some (Dir m)" if "strict_prefix rel' rel" for rel'
  proof (cases "rel' = []")
    case True
    then show ?thesis using assms(1) walkInv_image [OF assms(2), of "[]"] by (simp add: imageOf_def readyFS_def)
  next
    case False
    have sp: "strict_prefix (?s @ rel') (?s @ rel)" using that by (simp add: strict_prefix_def)
    from fsOK_parents [OF ok n sp] obtain m where m: "nodeAt w (?s @ rel') = Some (Dir m)" by blast
    have "covered ((?s @ rel, d) # es) (?s @ rel')"
      using stack_head(3) [OF st, of "?s @ rel'"] that by (auto simp: strict_prefix_def dest: prefix_order.antisym)
    with m False assms(2) show ?thesis by (simp add: walkInv_def imageOf_def copyOf_def)
  qed
  have above: "\<exists>m. nodeAt v q = Some (Dir m)" if "strict_prefix q ?d" for q
  proof -
    obtain n' where "nodeAt w ?d = Some n'" using assms(1) by (auto simp: readyFS_def)
    from fsOK_parents [OF ok this that] obtain m where "nodeAt w q = Some (Dir m)" by blast
    moreover have "\<not> prefix ?d q" using that by (auto simp: strict_prefix_def dest: prefix_order.antisym)
    ultimately show ?thesis using assms(2) by (simp add: walkInv_def)
  qed
  have way: "\<exists>m. nodeAt v q = Some (Dir m)" if "strict_prefix q (?d @ rel)" for q
  proof (cases "prefix ?d q")
    case True
    then obtain rel' where "q = ?d @ rel'" by (auto simp: prefix_def)
    with that below [of rel'] show ?thesis by (simp add: strict_prefix_def)
  next
    case False
    then have "strict_prefix q ?d" using that
      by (metis prefix_append prefix_order.refl prefixI strict_prefix_def)
    then show ?thesis by (rule above)
  qed
  show "nodeAt v q \<noteq> None" if "strict_prefix q (?d @ rel)" for q using way [OF that] by auto
  have "butlast (?d @ rel) \<noteq> ?d @ rel" using assms(3) by (metis append_butlast_last_id append_is_Nil_conv not_Cons_self2 self_append_conv)
  then show "\<exists>m. nodeAt v (butlast (?d @ rel)) = Some (Dir m)"
    by (intro way) (simp add: strict_prefix_def butlast_prefix)
  have "\<exists>m. nodeAt v [] = Some (Dir m)" using way [of "[]"] assms(3) by (simp add: strict_prefix_def)
  moreover have "isDir n'" if "prefix q (?d @ rel)" "nodeAt v q = Some n'" for q n'
    using that way [of q] none by (cases "q = ?d @ rel") (auto simp: strict_prefix_def)
  moreover have "nodeAt v q' \<noteq> None" if "prefix q (?d @ rel)" "nodeAt v q \<noteq> None" "prefix q' q" for q q'
    using that way [of q'] none by (cases "q' = q") (auto simp: strict_prefix_def dest: prefix_order.antisym prefix_order.trans)
  ultimately show "wayClear v (?d @ rel)" unfolding wayClear_def by (simp split: option.splits) blast
qed

lemma copyFile_exact:
  assumes "fs_faults v = []" and "distinct (mkeys (fs_nodes v))" and "nodeAt v p = Some (Regular s m)" and "plainPath v p"
    and "plainPath v t" and "nodeAt v t = None" and "t \<noteq> []" and "\<exists>k. nodeAt v (butlast t) = Some (Dir k)"
  shows "\<exists>v'. copyFileWithSHA256 env p t m v = (Inr (hexEncode (be_sha256 env s), int (length s)), v') \<and> fs_faults v' = [] \<and>
     fs_umask v' = fs_umask v \<and> distinct (mkeys (fs_nodes v')) \<and>
     (\<forall>q. nodeAt v' q = (if q = t then Some (Regular s (masked v m)) else nodeAt v q))"
proof -
  let ?v1 = "putNode t (Regular '''' (masked v m)) v"
  let ?v2 = "putNode t (Regular s (masked v m)) ?v1"
  have "p \<noteq> t" using assms(3,6) by auto
  have "sysOpenRead p v = (Inr p, v)"
    using assms(3) resolve_plain [OF assms(4)] by (simp add: sysOpenRead_def nextFault_none [OF assms(1)])
  moreover have "sysOpenWrite t m v = (Inr t, ?v1)"
    using assms(6-8) resolve_plain [OF assms(5)] by (auto simp: sysOpenWrite_def nextFault_none [OF assms(1)] createAt_def)
  moreover have "sysCopy p t ?v1 = (Inr s, ?v2)"
    using assms(1,3) \<open>p \<noteq> t\<close> by (simp add: sysCopy_def nextFault_none appendBytes_def)
  ultimately show ?thesis
    using assms(1,2) by (intro exI [of _ ?v2]) (simp add: copyFileWithSHA256_def putNode_def distinct_mput)
qed

lemma visit_exact:
  assumes "readyFS cfg w" and "walkInv env cfg w ((bp_Source cfg @ rel, isDir n) # es) r v" and "rel \<noteq> []"
    and "nodeAt w (bp_Source cfg @ rel) = Some n"
  shows "\<exists>v'. visitEntry env cfg (bp_Source cfg @ rel) (isDir n) (r, v) =
       (None, (case n of Regular s m \<Rightarrow> addFile (fileReportOf env (rel, s)) r | _ \<Rightarrow> r), v') \<and>
     fs_faults v' = [] \<and> fs_umask v' = fs_umask w \<and> distinct (mkeys (fs_nodes v')) \<and>
     (\<forall>q. nodeAt v' q = (if q = bp_Destination cfg @ rel then copyOf w n else nodeAt v q))"
proof -
  let ?p = "bp_Source cfg @ rel" and ?t = "bp_Destination cfg @ rel"
  have ok: "fsOK w" using assms(1) by (simp add: readyFS_def)
  have "list_all nameOK rel" using fsOK_names [OF ok assms(4)] by simp
  with assms(3) have name: "relString rel \<noteq> ''.''" by (simp add: relString_dot)
  note src = source_plain [OF assms(1,2,4) prefixI [OF refl]]
  note dst = destination_clear [OF assms(1,2,3)]
  note nf = walkInv_faults [OF assms(2)]
  have mask: "masked v = masked w" using nf by (simp add: masked_def fun_eq_iff)
  have dist: "distinct (mkeys (fs_nodes v))" using assms(2) by (simp add: walkInv_def)
  show ?thesis
  proof (cases n)
    case (Dir m)
    from mkdirAll_clear [OF dst(1), of 493] nf dist obtain v' where v': "mkdirAll ?t 493 v = (None, v')"
      "fs_faults v' = []" "fs_umask v' = fs_umask w" "distinct (mkeys (fs_nodes v'))"
      "\<And>q. nodeAt v' q = (if prefix q ?t \<and> nodeAt v q = None then Some (Dir (masked w 493)) else nodeAt v q)"
      by (auto simp: mask)
    have "prefix q ?t \<and> nodeAt v q = None \<longleftrightarrow> q = ?t" for q
      by (cases "q = ?t") (use dst(2) dst(4) [of q] in \<open>auto simp: strict_prefix_def\<close>)
    with v' Dir name show ?thesis
      by (intro exI [of _ v']) (simp add: visitEntry_def copyOf_def)
  next
    case (Regular s m)
    have "?t \<noteq> []" using assms(3) by simp
    from copyFile_exact [where env = env, OF _ dist src(1) [unfolded Regular] src(2) wayClear_plain [OF dst(1)] dst(2) this dst(3)]
      nf Regular
    obtain v' where "copyFileWithSHA256 env ?p ?t m v = (Inr (hexEncode (be_sha256 env s), int (length s)), v')"
      "fs_faults v' = []" "fs_umask v' = fs_umask w" "distinct (mkeys (fs_nodes v'))"
      "\<forall>q. nodeAt v' q = (if q = ?t then Some (Regular s (masked w m)) else nodeAt v q)"
      by (auto simp: mask)
    with Regular name src(3) show ?thesis
      by (intro exI [of _ v']) (simp add: visitEntry_def copyOf_def fileReportOf_def)
  next
    case (Link t)
    with name src(3) nf dist dst(2) show ?thesis by (intro exI [of _ v]) (simp add: visitEntry_def copyOf_def)
  next
    case Special
    with name src(3) nf dist dst(2) show ?thesis by (intro exI [of _ v]) (simp add: visitEntry_def copyOf_def)
  qed
qed

lemma addFile_totals: "totalsOK r \<Longrightarrow> totalsOK (addFile f r) \<and> br_Files (addFile f r) = br_Files r @ [f]"
  by (simp add: totalsOK_def addFile_def algebra_simps)

lemma visit_inv:
  assumes "readyFS cfg w" and "walkInv env cfg w ((bp_Source cfg @ rel, isDir n) # es) r v" and "rel \<noteq> []"
    and "nodeAt w (bp_Source cfg @ rel) = Some n"
    and "fs_faults v' = []" and "fs_umask v' = fs_umask w" and "distinct (mkeys (fs_nodes v'))"
    and "\<And>q. nodeAt v' q = (if q = bp_Destination cfg @ rel then copyOf w n else nodeAt v q)"
  shows "walkInv env cfg w (nextEntries w (bp_Source cfg @ rel) (isDir n) es)
     (case n of Regular s m \<Rightarrow> addFile (fileReportOf env (rel, s)) r | _ \<Rightarrow> r) v'"
proof -
  let ?s = "bp_Source cfg" and ?d = "bp_Destination cfg" and ?p = "bp_Source cfg @ rel"
  let ?es = "(?p, isDir n) # es" and ?es' = "nextEntries w ?p (isDir n) es"
  let ?r' = "case n of Regular s m \<Rightarrow> addFile (fileReportOf env (rel, s)) r | _ \<Rightarrow> r"
  have ok: "fsOK w" using assms(1) by (simp add: readyFS_def)
  have dist: "distinct (mkeys (fs_nodes w))" using ok by (simp add: fsOK_def)
  note st = walkInv_stack [OF assms(2), THEN conjunct1] and vis = walkInv_stack [OF assms(2), THEN conjunct2]
  note cov = nextEntries_covered [OF ok st]
  have outside: "nodeAt v' q = nodeAt w q" if "\<not> prefix ?d q" for q
    using walkInv_frame [OF assms(2) that] assms(8) [of q] that by auto
  have image: "nodeAt v' (?d @ x) = imageOf cfg w ?es' x" for x
  proof (cases "nodeAt w (?s @ x)")
    case None
    then have "x \<noteq> rel" using assms(4) by auto
    with None show ?thesis using walkInv_image [OF assms(2), of x] assms(8) [of "?d @ x"] by (simp add: imageOf_def)
  next
    case (Some k)
    show ?thesis
      using walkInv_image [OF assms(2), of x] assms(3,4) assms(8) [of "?d @ x"] cov [OF Some] Some by (auto simp: imageOf_def)
  qed
  have filt: "filter (\<lambda>f. covered ?es' (?s @ fst f)) (sourceFiles w ?s) =
      filter (\<lambda>f. covered ?es (?s @ fst f) \<or> fst f = rel) (sourceFiles w ?s)"
  proof (rule filter_cong [OF refl])
    fix f
    assume "f \<in> set (sourceFiles w ?s)"
    then obtain k where "nodeAt w (?s @ fst f) = Some k" using sourceFiles_set [OF dist, of "fst f" "snd f"] by auto
    from cov [OF this] show "covered ?es' (?s @ fst f) = (covered ?es (?s @ fst f) \<or> fst f = rel)" by simp
  qed
  have files: "totalsOK ?r' \<and> br_Files ?r' = map (fileReportOf env) (filter (\<lambda>f. covered ?es' (?s @ fst f)) (sourceFiles w ?s))"
  proof (cases "\<exists>s m. n = Regular s m")
    case True
    then obtain s m where n: "n = Regular s m" by blast
    have mem: "(rel, s) \<in> set (sourceFiles w ?s)" using assms(4) n by (simp add: sourceFiles_set [OF dist])
    have "fst y < rel" if y: "y \<in> set (sourceFiles w ?s)" and c: "covered ?es (?s @ fst y)" for y
    proof -
      obtain k where "nodeAt w (?s @ fst y) = Some k" using y sourceFiles_set [OF dist, of "fst y" "snd y"] by auto
      with vis c have "?s @ fst y < ?p" unfolding visited_def by fastforce
      then show ?thesis by (simp add: less_same_prefix)
    qed
    from filter_next [OF sourceFiles_sorted [OF dist] mem, of "\<lambda>k. covered ?es (?s @ k)"] this
    have "filter (\<lambda>f. covered ?es (?s @ fst f) \<or> fst f = rel) (sourceFiles w ?s) =
        filter (\<lambda>f. covered ?es (?s @ fst f)) (sourceFiles w ?s) @ [(rel, s)]" by simp
    with filt n addFile_totals [of r] assms(2) show ?thesis by (simp add: walkInv_def)
  next
    case False
    have "filter (\<lambda>f. covered ?es (?s @ fst f) \<or> fst f = rel) (sourceFiles w ?s) =
        filter (\<lambda>f. covered ?es (?s @ fst f)) (sourceFiles w ?s)"
    proof (rule filter_cong [OF refl])
      fix f
      assume "f \<in> set (sourceFiles w ?s)"
      then have "fst f \<noteq> rel" using False assms(4) sourceFiles_set [OF dist, of "fst f" "snd f"] by auto
      then show "(covered ?es (?s @ fst f) \<or> fst f = rel) = covered ?es (?s @ fst f)" by simp
    qed
    with filt False assms(2) show ?thesis by (cases n) (simp_all add: walkInv_def)
  qed
  show ?thesis
    unfolding walkInv_def
    using assms(5-7) outside image files nextEntries_stackOK [OF ok st] nextEntries_visited [OF ok st vis] by blast
qed

subsection \<open>The walk as a whole\<close>

definition toVisit :: "fileSystem \<Rightarrow> path \<Rightarrow> (path \<times> bool) list \<Rightarrow> path set" where
  "toVisit w src es = {q. nodeAt w q \<noteq> None \<and> prefix src q \<and> \<not> covered es q}"

lemma finite_toVisit: "finite (toVisit w src es)"
  by (rule finite_subset [OF _ finite_dom_map_of [of "fs_nodes w"]]) (auto simp: toVisit_def)

lemma toVisit_next:
  assumes "fsOK w" and "stackOK w src ((p, d) # es)"
  shows "card (toVisit w src (nextEntries w p d es)) < card (toVisit w src ((p, d) # es))"
proof (rule psubset_card_mono [OF finite_toVisit])
  have "p \<in> toVisit w src ((p, d) # es)"
    using stack_head(1,5) [OF assms(2)] by (auto simp: toVisit_def strict_prefix_def)
  moreover have "toVisit w src (nextEntries w p d es) = toVisit w src ((p, d) # es) - {p}"
    using nextEntries_covered [OF assms] by (auto simp: toVisit_def)
  ultimately show "toVisit w src (nextEntries w p d es) \<subset> toVisit w src ((p, d) # es)" by auto
qed

lemma readDir_exact:
  assumes "readyFS cfg w" and "walkInv env cfg w es r v" and "nodeAt w p = Some (Dir m)" and "prefix (bp_Source cfg) p"
  shows "\<exists>names. sysReadDir p v = (Inr names, v) \<and> map (\<lambda>(c, d). (p @ [c], d)) names = childEntries w p"
proof -
  note src = source_plain [OF assms(1-4)]
  have dist: "distinct (mkeys (fs_nodes w))" "distinct (mkeys (fs_nodes v))"
    using assms(1,2) by (simp_all add: readyFS_def fsOK_def walkInv_def)
  have same: "nodeAt v (p @ [c]) = nodeAt w (p @ [c])" for c
  proof -
    have "prefix (bp_Source cfg) (p @ [c])" using assms(4) by simp
    from walkInv_frame [OF assms(2) apart [OF assms(1) this]] show ?thesis by simp
  qed
  have "childNames v p = childNames w p"
    by (rule strict_sorted_equal [OF childNames_sorted [OF dist(1)] childNames_sorted [OF dist(2)]])
      (use childNames_set [OF dist(1)] childNames_set [OF dist(2)] same in auto)
  moreover have "dirEntry v p = dirEntry w p" using same by (simp add: dirEntry_def fun_eq_iff)
  moreover have "plainPath v p" using src(2) by simp
  ultimately show ?thesis
    using src(1) walkInv_faults [OF assms(2)] resolve_plain [of v p]
    by (simp add: sysReadDir_def nextFault_none childEntries_def)
qed

lemma walk_exact:
  "readyFS cfg w \<Longrightarrow> walkInv env cfg w es r v \<Longrightarrow> card (toVisit w (bp_Source cfg) es) \<le> fuel \<Longrightarrow>
     \<exists>r' v'. walkEntries env cfg fuel es (r, v) = Some (None, r', v') \<and> walkInv env cfg w [] r' v'"
proof (induction fuel arbitrary: es r v)
  case 0
  show ?case
  proof (cases es)
    case (Cons e rest)
    obtain p d where e: "e = (p, d)" by fastforce
    have "stackOK w (bp_Source cfg) ((p, d) # rest)" using walkInv_stack [OF 0(2)] Cons e by simp
    with toVisit_next [of w "bp_Source cfg" p d rest] 0 Cons e show ?thesis by (simp add: readyFS_def)
  qed (use 0 in simp)
next
  case (Suc k)
  show ?case
  proof (cases es)
    case Nil
    then show ?thesis using Suc.prems by simp
  next
    case (Cons e rest)
    obtain p d where e: "e = (p, d)" by fastforce
    have ok: "fsOK w" using Suc.prems(1) by (simp add: readyFS_def)
    have st: "stackOK w (bp_Source cfg) ((p, d) # rest)" using walkInv_stack [OF Suc.prems(2)] Cons e by simp
    obtain n where n: "nodeAt w p = Some n" "d = isDir n" using stack_head(5) [OF st] by blast
    obtain rel where rel: "p = bp_Source cfg @ rel" "rel \<noteq> []"
      using stack_head(1) [OF st] by (auto simp: strict_prefix_def prefix_def)
    have inv: "walkInv env cfg w ((bp_Source cfg @ rel, isDir n) # rest) r v" using Suc.prems(2) Cons e n rel by simp
    have here: "nodeAt w (bp_Source cfg @ rel) = Some n" using n rel by simp
    let ?r = "case n of Regular s m \<Rightarrow> addFile (fileReportOf env (rel, s)) r | _ \<Rightarrow> r"
    from visit_exact [OF Suc.prems(1) inv rel(2) here] obtain v1
      where v1: "visitEntry env cfg p d (r, v) = (None, ?r, v1)" "fs_faults v1 = []" "fs_umask v1 = fs_umask w"
        "distinct (mkeys (fs_nodes v1))" "\<And>q. nodeAt v1 q = (if q = bp_Destination cfg @ rel then copyOf w n else nodeAt v q)"
      using n rel by auto
    have inv1: "walkInv env cfg w (nextEntries w p d rest) ?r v1"
      using visit_inv [OF Suc.prems(1) inv rel(2) here v1(2-5)] n rel by simp
    have "card (toVisit w (bp_Source cfg) (nextEntries w p d rest)) \<le> k"
      using toVisit_next [OF ok st] Suc.prems(3) Cons e by simp
    from Suc.IH [OF Suc.prems(1) inv1 this] obtain r' v'
      where fin: "walkEntries env cfg k (nextEntries w p d rest) (?r, v1) = Some (None, r', v')" "walkInv env cfg w [] r' v'"
      by blast
    show ?thesis
    proof (cases d)
      case True
      then obtain m where m: "nodeAt w p = Some (Dir m)" using n by (auto simp: isDir_iff)
      from readDir_exact [OF Suc.prems(1) inv1 m] rel obtain names
        where names: "sysReadDir p v1 = (Inr names, v1)" "map (\<lambda>(c, d). (p @ [c], d)) names = childEntries w p" by auto
      have "nextEntries w p d rest = map (\<lambda>(c, d). (p @ [c], d)) names @ rest"
        using True names(2) by (simp add: nextEntries_def)
      with fin Cons e v1(1) True names(1) show ?thesis by simp
    next
      case False
      with fin Cons e v1(1) show ?thesis by (simp add: nextEntries_def)
    qed
  qed
qed

lemma fsOK_mkdirs:
  assumes "fsOK w" and "wayClear w p" and "list_all nameOK p" and "distinct (mkeys (fs_nodes v))"
    and "\<And>q. nodeAt v q = (if prefix q p \<and> nodeAt w q = None then Some (Dir m) else nodeAt w q)"
  shows "fsOK v"
  unfolding fsOK_def
proof (intro conjI allI impI)
  show "\<exists>m. nodeAt v [] = Some (Dir m)" using assms(1,5) by (auto simp: fsOK_def)
  fix q n
  assume q: "nodeAt v q = Some n \<and> q \<noteq> []"
  show "nameOK (last q)"
  proof (cases "nodeAt w q")
    case None
    with q assms(5) have "prefix q p" by (metis option.distinct(1))
    with assms(3) q show ?thesis by (auto simp: prefix_def list_all_iff)
  qed (use assms(1) q in \<open>auto simp: fsOK_def\<close>)
  show "\<exists>m. nodeAt v (butlast q) = Some (Dir m)"
  proof (cases "nodeAt w q")
    case None
    with q assms(5) have "prefix q p" by (metis option.distinct(1))
    then have "prefix (butlast q) p" using butlast_prefix prefix_order.trans by blast
    with assms(2,5) show ?thesis by (auto simp: wayClear_def isDir_iff split: option.splits)
  next
    case (Some n')
    then obtain k where "nodeAt w (butlast q) = Some (Dir k)" using assms(1) q by (auto simp: fsOK_def)
    then show ?thesis using assms(5) by simp
  qed
qed (rule assms(4))

text \<open>The files of a source depend on the nodes below it only.\<close>

lemma sourceFiles_cong:
  assumes "distinct (mkeys (fs_nodes w))" and "distinct (mkeys (fs_nodes v))"
    and "\<And>q. prefix src q \<Longrightarrow> nodeAt v q = nodeAt w q"
  shows "sourceFiles v src = sourceFiles w src"
proof (rule map_sorted_distinct_set_unique [where f = fst])
  have "f \<in> set (sourceFiles v src) \<longleftrightarrow> f \<in> set (sourceFiles w src)" for f
    using sourceFiles_set [OF assms(1), of "fst f" "snd f" src] sourceFiles_set [OF assms(2), of "fst f" "snd f" src]
      assms(3) [of "src @ fst f"] by simp
  then show "set (sourceFiles v src) = set (sourceFiles w src)" by blast
  moreover have d: "distinct (map fst (sourceFiles u src))" "sorted (map fst (sourceFiles u src))"
    if "distinct (mkeys (fs_nodes u))" for u
    using sourceFiles_sorted [OF that, of src] by (simp_all add: strict_sorted_iff)
  ultimately show "inj_on fst (set (sourceFiles v src) \<union> set (sourceFiles w src))"
    using assms(1) by (simp add: distinct_map)
qed (use sourceFiles_sorted [OF assms(1), of src] sourceFiles_sorted [OF assms(2), of src] in \<open>simp_all add: strict_sorted_iff\<close>)

text \<open>The first visit, of the source itself, leads to the stack of its children.\<close>

lemma walkInv_start:
  assumes "readyFS cfg w" and "\<And>rel. rel \<noteq> [] \<Longrightarrow> nodeAt w (bp_Destination cfg @ rel) = None"
  shows "walkInv env cfg w (childEntries w (bp_Source cfg)) (newReport cfg) w"
proof -
  let ?s = "bp_Source cfg" and ?es = "childEntries w (bp_Source cfg)"
  have ok: "fsOK w" and dist: "distinct (mkeys (fs_nodes w))" using assms(1) by (simp_all add: readyFS_def fsOK_def)
  note cov = childEntries_covered [OF ok, of _ _ ?s]
  have rel: "\<not> covered ?es (?s @ rel)" if "nodeAt w (?s @ rel) = Some n" "rel \<noteq> []" for rel n
    using cov [OF that(1)] that(2) by (simp add: strict_prefix_def)
  have "imageOf cfg w ?es rel = nodeAt w (bp_Destination cfg @ rel)" for rel
    using rel [of rel] assms(2) [of rel] by (cases "nodeAt w (?s @ rel)") (auto simp: imageOf_def)
  moreover have "visited w ?s ?es"
  proof -
    have "list_all (\<lambda>e. ?s < fst e) ?es"
      using childEntries_set [OF dist, of _ ?s] less_below [of ?s] by (fastforce simp: list_all_iff)
    then show ?thesis using cov by (auto simp: visited_def strict_prefix_def)
  qed
  moreover have "\<not> covered ?es (?s @ fst f)" if f: "f \<in> set (sourceFiles w ?s)" for f
  proof -
    obtain m where "nodeAt w (?s @ fst f) = Some (Regular (snd f) m)"
      using f sourceFiles_set [OF dist, of "fst f" "snd f"] by auto
    moreover from this have "fst f \<noteq> []" using assms(1) by (auto simp: readyFS_def)
    ultimately show ?thesis by (rule rel)
  qed
  moreover have "stackOK w ?s ?es" by (rule childEntries_stackOK [OF ok prefix_order.refl])
  ultimately show ?thesis
    using dist assms(1)
    by (auto simp: walkInv_def newReport_def totalsOK_def readyFS_def filter_empty_conv)
qed

definition backupStart :: "backupPaths \<Rightarrow> fileSystem \<Rightarrow> bool" where
  "backupStart cfg w \<longleftrightarrow> fsOK w \<and> fs_faults w = [] \<and> (\<exists>m. nodeAt w (bp_Source cfg) = Some (Dir m)) \<and>
     list_all nameOK (bp_Destination cfg) \<and> wayClear w (bp_Destination cfg) \<and>
     \<not> prefix (bp_Source cfg) (bp_Destination cfg) \<and> \<not> prefix (bp_Destination cfg) (bp_Source cfg) \<and>
     list_all (\<lambda>q. \<not> prefix (bp_Destination cfg) q) (mkeys (fs_nodes w))"

lemma backupStart_ready:
  assumes "backupStart cfg w"
  shows "\<exists>v. mkdirAll (bp_Destination cfg) 493 w = (None, v) \<and> readyFS cfg v \<and> fs_umask v = fs_umask w \<and>
     (\<forall>q. nodeAt v q = (if prefix q (bp_Destination cfg) \<and> nodeAt w q = None then Some (Dir (masked w 493)) else nodeAt w q)) \<and>
     (\<forall>rel. rel \<noteq> [] \<longrightarrow> nodeAt v (bp_Destination cfg @ rel) = None)"
proof -
  let ?d = "bp_Destination cfg"
  have start: "fsOK w" "fs_faults w = []" "\<exists>m. nodeAt w (bp_Source cfg) = Some (Dir m)" "list_all nameOK ?d" "wayClear w ?d"
    "\<not> prefix (bp_Source cfg) ?d" "\<not> prefix ?d (bp_Source cfg)"
    using assms by (simp_all add: backupStart_def)
  have fresh: "nodeAt w q = None" if "prefix ?d q" for q
    using assms that by (auto simp: backupStart_def list_all_iff map_of_eq_None_iff)
  from mkdirAll_clear [OF start(5,2), of 493] start(1) obtain v where v: "mkdirAll ?d 493 w = (None, v)" "fs_faults v = []"
    "fs_umask v = fs_umask w" "distinct (mkeys (fs_nodes v))"
    "\<And>q. nodeAt v q = (if prefix q ?d \<and> nodeAt w q = None then Some (Dir (masked w 493)) else nodeAt w q)"
    by (auto simp: fsOK_def)
  have "fsOK v" by (rule fsOK_mkdirs [OF start(1,5,4) v(4,5)])
  moreover have "nodeAt v ?d = Some (Dir (masked w 493))" using v(5) [of ?d] fresh [of ?d] by simp
  moreover have "\<exists>m. nodeAt v (bp_Source cfg) = Some (Dir m)" using v(5) [of "bp_Source cfg"] start(3) by auto
  moreover have "nodeAt v (?d @ rel) = None" if "rel \<noteq> []" for rel
    using v(5) [of "?d @ rel"] fresh [of "?d @ rel"] that by (auto dest: prefix_length_le)
  ultimately show ?thesis using v start(6,7) by (intro exI [of _ v]) (auto simp: readyFS_def)
qed

text \<open>
  C16: a backup into a new directory is exact. Started on a source directory and a destination that
  does not exist yet, apart from each other, with the file system answering and as much fuel as
  there are nodes, the tool returns a report; the destination then holds every directory and every
  regular file of the source under its path, with the content and the permission bits of the original
  (under the umask), and nothing else; the report lists exactly the regular files in the order of
  their paths, with size and checksum of their content, and their number and total size; and apart
  from the directories on the way to the destination nothing else has changed.
\<close>

theorem backup_exact:
  assumes "backupStart cfg w" and "length (fs_nodes w) < fuel"
  shows "\<exists>r v. backupAndHash env cfg fuel w = Some (Inr r, v) \<and>
     (\<forall>rel. nodeAt v (bp_Destination cfg @ rel) =
        (if rel = [] then Some (Dir (masked w 493)) else Option.bind (nodeAt w (bp_Source cfg @ rel)) (copyOf w))) \<and>
     (\<forall>q. \<not> prefix (bp_Destination cfg) q \<longrightarrow> nodeAt v q =
        (if prefix q (bp_Destination cfg) \<and> nodeAt w q = None then Some (Dir (masked w 493)) else nodeAt w q)) \<and>
     br_Files r = map (fileReportOf env) (sourceFiles w (bp_Source cfg)) \<and> totalsOK r"
proof -
  let ?s = "bp_Source cfg" and ?d = "bp_Destination cfg"
  obtain w1 where w1: "mkdirAll ?d 493 w = (None, w1)" "readyFS cfg w1" "fs_umask w1 = fs_umask w"
    "\<And>q. nodeAt w1 q = (if prefix q ?d \<and> nodeAt w q = None then Some (Dir (masked w 493)) else nodeAt w q)"
    "\<And>rel. rel \<noteq> [] \<Longrightarrow> nodeAt w1 (?d @ rel) = None"
    using backupStart_ready [OF assms(1)] by auto
  have dist: "distinct (mkeys (fs_nodes w))" "distinct (mkeys (fs_nodes w1))"
    using assms(1) w1(2) by (simp_all add: backupStart_def readyFS_def fsOK_def)
  have mask: "masked w1 = masked w" using w1(3) by (simp add: masked_def fun_eq_iff)
  have copy: "copyOf w1 = copyOf w" unfolding copyOf_def mask ..
  have same: "nodeAt w1 q = nodeAt w q" if "prefix ?s q" for q
    using w1(4) [of q] that assms(1) by (auto simp: backupStart_def dest: prefix_order.trans)
  note inv = walkInv_start [OF w1(2,5), of env]
  have "toVisit w1 ?s (childEntries w1 ?s) \<subseteq> set (mkeys (fs_nodes w))"
    using same by (auto simp: toVisit_def) (metis domIff dom_map_of_conv_image_fst option.distinct(1))
  then have "card (toVisit w1 ?s (childEntries w1 ?s)) \<le> length (fs_nodes w)"
    by (metis card_length card_mono List.finite_set le_trans length_map)
  then have "card (toVisit w1 ?s (childEntries w1 ?s)) \<le> fuel - 1" using assms(2) by linarith
  from walk_exact [OF w1(2) inv this] obtain r v where walk:
    "walkEntries env cfg (fuel - 1) (childEntries w1 ?s) (newReport cfg, w1) = Some (None, r, v)" "walkInv env cfg w1 [] r v"
    by blast
  obtain m where m: "nodeAt w1 ?s = Some (Dir m)" using w1(2) by (auto simp: readyFS_def)
  note src = source_plain(3) [OF w1(2) inv m prefix_order.refl]
  from readDir_exact [OF w1(2) inv m prefix_order.refl] obtain names
    where names: "sysReadDir ?s w1 = (Inr names, w1)" "map (\<lambda>(c, d). (?s @ [c], d)) names = childEntries w1 ?s" by blast
  have root: "relPath ?s ?s = []" using relPath_append [of ?s "[]"] by simp
  obtain k where k: "fuel = Suc k" using assms(2) by (cases fuel) auto
  have run: "backupAndHash env cfg fuel w = Some (Inr r, v)"
    using walk(1) names w1(1) src k root by (simp add: backupAndHash_def walkSource_def visitEntry_def relString_def)
  have "nodeAt v (?d @ rel) = (if rel = [] then Some (Dir (masked w 493)) else Option.bind (nodeAt w (?s @ rel)) (copyOf w))" for rel
    using walkInv_image [OF walk(2), of rel] w1(4) [of ?d] same [of "?s @ rel"] assms(1)
    by (auto simp: imageOf_def copy backupStart_def list_all_iff map_of_eq_None_iff)
  moreover have "nodeAt v q = nodeAt w1 q" if "\<not> prefix ?d q" for q by (rule walkInv_frame [OF walk(2) that])
  moreover have "br_Files r = map (fileReportOf env) (sourceFiles w ?s)" "totalsOK r"
    using walk(2) sourceFiles_cong [OF dist same] by (simp_all add: walkInv_def)
  ultimately show ?thesis using run w1(4) by (intro exI [of _ r] exI [of _ v]) simp
qed

section \<open>The command line\<close>

text \<open>
  \<open>cmd/backupsum/main.go\<close>: \<open>runCLI\<close> on the arguments. The exit code is 2 for bad arguments, 1 for
  an error of the run, else 0.
\<close>

definition backupFlag :: "string \<Rightarrow> string \<Rightarrow> backupConfig \<Rightarrow> backupConfig option" where
  "backupFlag n v cfg =
     (if n = ''src'' then Some (cfg\<lparr>bk_SourceDir := v\<rparr>)
      else if n = ''dst'' then Some (cfg\<lparr>bk_DestinationDir := v\<rparr>)
      else if n = ''report'' then Some (cfg\<lparr>bk_ReportPath := v\<rparr>) else None)"

definition backupCLI :: "backupEnv \<Rightarrow> nat \<Rightarrow> string list \<Rightarrow> string \<times> fileSystem \<Rightarrow> (int \<times> string \<times> fileSystem) option" where
  "backupCLI env fuel args ow =
     (case parseFlags backupFlag args \<lparr>bk_SourceDir = '''', bk_DestinationDir = '''', bk_ReportPath = ''''\<rparr> of
        None \<Rightarrow> Some (2, ow)
      | Some cfg \<Rightarrow> map_option (\<lambda>(res, ow1). (case res of Inl e \<Rightarrow> 1 | Inr r \<Rightarrow> 0, ow1)) (runBackup env fuel cfg ow))"

section \<open>Witnesses and corner cases\<close>

definition demoBackupEnv :: backupEnv where
  "demoBackupEnv = \<lparr>be_sha256 = (\<lambda>s. [length s]), be_cwd = Inr [''home''], be_marshal = (\<lambda>r. Inr ''{}'')\<rparr>"

definition demoTree :: "(path \<times> node) list \<Rightarrow> fileSystem" where
  "demoTree ns = \<lparr>fs_nodes = ([], Dir 493) # ns, fs_umask = 18, fs_faults = []\<rparr>"

definition demoData :: fileSystem where
  "demoData = demoTree [([''data''], Dir 493), ([''data'', ''b''], Regular ''beta'' 432), ([''data'', ''a''], Dir 493),
     ([''data'', ''a'', ''x''], Regular ''alpha'' 420), ([''data'', ''l''], Link [''home'']), ([''home''], Dir 493)]"

text \<open>
  A source inside of its destination is accepted. The backup of \<open>/a/b\<close> to \<open>/a\<close> then writes into the
  source: the copy of \<open>/a/b/b/f\<close> replaces the file \<open>/a/b/f\<close>, and its content is nowhere any more.
\<close>

definition demoNested :: fileSystem where
  "demoNested = demoTree [([''a''], Dir 493), ([''a'', ''b''], Dir 493), ([''a'', ''b'', ''b''], Dir 493),
     ([''a'', ''b'', ''b'', ''f''], Regular ''inner'' 420), ([''a'', ''b'', ''f''], Regular ''precious'' 420)]"

lemma backup_overwrites_source:
  "(case runBackup demoBackupEnv 10 \<lparr>bk_SourceDir = ''/a/b'', bk_DestinationDir = ''/a'', bk_ReportPath = ''''\<rparr> ('''', demoNested) of
     Some (Inr r, out, w) \<Rightarrow> map_of (fs_nodes w) [''a'', ''b'', ''f''] = Some (Regular ''inner'' 420) \<and>
       list_all (\<lambda>(p, n). n \<noteq> Regular ''precious'' 420) (fs_nodes w)
   | _ \<Rightarrow> False)"
  by code_simp

text \<open>A source that is a link to a directory passes validation, and its backup is empty.\<close>

lemma linked_source_backs_up_nothing:
  "(case runBackup demoBackupEnv 10 \<lparr>bk_SourceDir = ''/link'', bk_DestinationDir = ''/bak'', bk_ReportPath = ''''\<rparr>
       ('''', demoTree [([''data''], Dir 493), ([''data'', ''f''], Regular ''alpha'' 420), ([''link''], Link [''data''])]) of
     Some (Inr r, out, w) \<Rightarrow> br_Files r = [] \<and> map_of (fs_nodes w) [''bak'', ''f''] = None
   | _ \<Rightarrow> False)"
  by code_simp

text \<open>The permissions of a copy: the group write bit falls to the umask, and an existing file keeps its own.\<close>

lemma permissions_not_preserved:
  "(case runBackup demoBackupEnv 10 \<lparr>bk_SourceDir = ''/data'', bk_DestinationDir = ''/bak'', bk_ReportPath = ''''\<rparr>
       ('''', demoTree [([''data''], Dir 493), ([''data'', ''f''], Regular ''alpha'' 436), ([''data'', ''g''], Regular ''beta'' 384),
          ([''bak''], Dir 493), ([''bak'', ''g''], Regular '''' 438)]) of
     Some (Inr r, out, w) \<Rightarrow> map_of (fs_nodes w) [''bak'', ''f''] = Some (Regular ''alpha'' 420) \<and>
       map_of (fs_nodes w) [''bak'', ''g''] = Some (Regular ''beta'' 438)
   | _ \<Rightarrow> False)"
  by code_simp

text \<open>Checking the well-formedness of a concrete file system.\<close>

lemma fsOK_list:
  assumes "distinct (mkeys (fs_nodes w))" and "\<exists>m. nodeAt w [] = Some (Dir m)"
    and "list_all (\<lambda>(p, n). p = [] \<or> (nameOK (last p) \<and> (case nodeAt w (butlast p) of Some d \<Rightarrow> isDir d | None \<Rightarrow> False))) (fs_nodes w)"
  shows "fsOK w"
proof -
  have "nameOK (last p) \<and> (\<exists>m. nodeAt w (butlast p) = Some (Dir m))" if "nodeAt w p = Some n" "p \<noteq> []" for p n
    using assms(3) map_of_SomeD [OF that(1)] that(2) by (fastforce simp: list_all_iff isDir_iff split: option.splits)
  with assms(1,2) show ?thesis unfolding fsOK_def by blast
qed

lemma demoData_start:
  "backupStart \<lparr>bp_Source = [''data''], bp_Destination = [''bak'', ''new''], bp_ReportPath = ''''\<rparr> demoData"
proof -
  have ok: "fsOK demoData"
  proof (rule fsOK_list)
    show "distinct (mkeys (fs_nodes demoData))" by code_simp
    show "\<exists>m. nodeAt demoData [] = Some (Dir m)" by (simp add: demoData_def demoTree_def)
    show "list_all (\<lambda>(p, n). p = [] \<or> (nameOK (last p) \<and>
        (case nodeAt demoData (butlast p) of Some d \<Rightarrow> isDir d | None \<Rightarrow> False))) (fs_nodes demoData)" by code_simp
  qed
  have "list_all (\<lambda>q. case nodeAt demoData q of Some n \<Rightarrow> isDir n | None \<Rightarrow> True) (prefixes [''bak'', ''new''])" by code_simp
  then have "isDir n" if "prefix q [''bak'', ''new'']" "nodeAt demoData q = Some n" for q n
    using that unfolding list_all_iff by (metis in_set_prefixes option.simps(5))
  then have "wayClear demoData [''bak'', ''new'']" by (intro wayClear_fsOK [OF ok])
  moreover have "list_all nameOK [''bak'', ''new'']" by code_simp
  moreover have "\<exists>m. nodeAt demoData [''data''] = Some (Dir m)" by (simp add: demoData_def demoTree_def)
  moreover have "list_all (\<lambda>q. \<not> prefix [''bak'', ''new''] q) (mkeys (fs_nodes demoData))" by code_simp
  moreover have "fs_faults demoData = []" by (simp add: demoData_def demoTree_def)
  ultimately show ?thesis using ok by (simp add: backupStart_def)
qed

theorem backup_exact_witness:
  "\<exists>r v. backupAndHash demoBackupEnv \<lparr>bp_Source = [''data''], bp_Destination = [''bak'', ''new''], bp_ReportPath = ''''\<rparr> 20 demoData =
       Some (Inr r, v) \<and>
     nodeAt v [''bak'', ''new'', ''a'', ''x''] = Some (Regular ''alpha'' 420) \<and> nodeAt v [''bak'', ''new'', ''l''] = None \<and>
     map fl_RelativePath (br_Files r) = [''a/x'', ''b'']"
proof -
  let ?cfg = "\<lparr>bp_Source = [''data''], bp_Destination = [''bak'', ''new''], bp_ReportPath = ''''\<rparr>"
  have "length (fs_nodes demoData) < 20" by code_simp
  from backup_exact [OF demoData_start this, of demoBackupEnv] obtain r v
    where rv: "backupAndHash demoBackupEnv ?cfg 20 demoData = Some (Inr r, v)"
      and image: "\<And>rel. nodeAt v ([''bak'', ''new''] @ rel) =
        (if rel = [] then Some (Dir (masked demoData 493)) else Option.bind (nodeAt demoData ([''data''] @ rel)) (copyOf demoData))"
      and files: "br_Files r = map (fileReportOf demoBackupEnv) (sourceFiles demoData [''data''])" by auto
  have "Option.bind (nodeAt demoData [''data'', ''a'', ''x'']) (copyOf demoData) = Some (Regular ''alpha'' 420)" by code_simp
  then have "nodeAt v [''bak'', ''new'', ''a'', ''x''] = Some (Regular ''alpha'' 420)" using image [of "[''a'', ''x'']"] by simp
  moreover have "Option.bind (nodeAt demoData [''data'', ''l'']) (copyOf demoData) = None" by code_simp
  then have "nodeAt v [''bak'', ''new'', ''l''] = None" using image [of "[''l'']"] by simp
  moreover have "map (relString \<circ> fst) (sourceFiles demoData [''data'']) = [''a/x'', ''b'']" by code_simp
  then have "map fl_RelativePath (br_Files r) = [''a/x'', ''b'']" unfolding files by (simp add: fileReportOf_def comp_def)
  ultimately show ?thesis using rv by (intro exI [of _ r] exI [of _ v] conjI)
qed

text \<open>A disk that is full after two bytes: the copy fails, the source is as it was.\<close>

definition demoFull :: fileSystem where
  "demoFull = demoData\<lparr>fs_nodes := ([''bak''], Dir 493) # fs_nodes demoData,
     fs_faults := replicate 10 None @ [Some (''no space left on device'', 2)]\<rparr>"


end
