(* ===== verification/ScrapExport.thy ===== *)
theory ScrapExport
  imports FileSystem
begin

text \<open>
  \<open>internal/scrapexport/service.go\<close> and \<open>cmd/scrapexport/main.go\<close>: fetching pages, extracting title,
  heading and description from the parsed document, and the JSON and CSV outputs. The HTTP client,
  the HTML parser, the JSON encoder, the Unicode tables and \<open>time.ParseDuration\<close> are parameters; the CSV writer of \<open>encoding/csv\<close>
  is modelled.
\<close>

section \<open>Documents\<close>

text \<open>A node of the parsed document: an element, a text, or one of the other kinds.\<close>

datatype htmlNode = Element string "(string \<times> string) list" "htmlNode list" | TextNode string | OtherNode "htmlNode list"

fun attrValueIn :: "(string \<times> string) list \<Rightarrow> string \<Rightarrow> string" where
  "attrValueIn [] key = ''''"
| "attrValueIn ((k, v) # as) key = (if k = key then v else attrValueIn as key)"

fun attrValue :: "htmlNode \<Rightarrow> string \<Rightarrow> string" where
  "attrValue (Element tag attrs cs) key = attrValueIn attrs key"
| "attrValue (TextNode s) key = ''''"
| "attrValue (OtherNode cs) key = ''''"

definition isMetaDescription :: "(string \<Rightarrow> string) \<Rightarrow> htmlNode \<Rightarrow> bool" where
  "isMetaDescription uni n = (if toLower uni (attrValue n ''name'') = ''description'' then True
     else toLower uni (attrValue n ''property'') = ''og:description'')"

text \<open>\<open>strings.Fields\<close>; the first argument is the field being read.\<close>

function fieldsFrom :: "string \<Rightarrow> string \<Rightarrow> string list" where
  "fieldsFrom cur s = (case firstSpace goSpaces s of
       Some w \<Rightarrow> (if cur = '''' then [] else [cur]) @ fieldsFrom '''' (drop (length w) s)
     | None \<Rightarrow> (case s of [] \<Rightarrow> (if cur = '''' then [] else [cur]) | c # cs \<Rightarrow> fieldsFrom (cur @ [c]) cs))"
  by pat_completeness auto
termination
  by (relation "measure (\<lambda>(cur, s). length s)") (auto dest!: firstSpace_Some simp: prefix_length_le elim!: prefixE)

declare fieldsFrom.simps [simp del]

text \<open>The text below a node, each text followed by a space, before the white space is normalised.\<close>

fun rawText :: "htmlNode \<Rightarrow> string" where
  "rawText (TextNode s) = s @ '' ''"
| "rawText (Element tag attrs cs) = concat (map rawText cs)"
| "rawText (OtherNode cs) = concat (map rawText cs)"

definition nodeText :: "htmlNode \<Rightarrow> string" where
  "nodeText n = joinWith (CHR '' '') (fieldsFrom '''' (rawText n))"

record parsedDocument =
  pd_Title :: string
  pd_H1 :: string
  pd_MetaDescription :: string

text \<open>The work of \<open>walk\<close> at one element, and the walk over a node and its children.\<close>

definition visitElement :: "(string \<Rightarrow> string) \<Rightarrow> string \<Rightarrow> htmlNode \<Rightarrow> parsedDocument \<Rightarrow> parsedDocument" where
  "visitElement uni tag n out =
     (if tag = ''title'' then (if pd_Title out = '''' then out\<lparr>pd_Title := nodeText n\<rparr> else out)
      else if tag = ''h1'' then (if pd_H1 out = '''' then out\<lparr>pd_H1 := nodeText n\<rparr> else out)
      else if tag = ''meta'' then
        (if pd_MetaDescription out = '''' \<and> isMetaDescription uni n
         then out\<lparr>pd_MetaDescription := trimSpace (attrValue n ''content'')\<rparr> else out)
      else out)"

fun walkNode :: "(string \<Rightarrow> string) \<Rightarrow> htmlNode \<Rightarrow> parsedDocument \<Rightarrow> parsedDocument" where
  "walkNode uni (Element tag attrs cs) out = fold (walkNode uni) cs (visitElement uni tag (Element tag attrs cs) out)"
| "walkNode uni (TextNode s) out = out"
| "walkNode uni (OtherNode cs) out = fold (walkNode uni) cs out"

definition parseHTMLDocument :: "(string \<Rightarrow> string) \<Rightarrow> (bodyReader \<Rightarrow> string + htmlNode) \<Rightarrow> bodyReader \<Rightarrow> string + parsedDocument" where
  "parseHTMLDocument uni htmlParse r = (case htmlParse r of Inl e \<Rightarrow> Inl (''parse html: '' @ e)
     | Inr doc \<Rightarrow> Inr (walkNode uni doc \<lparr>pd_Title = '''', pd_H1 = '''', pd_MetaDescription = ''''\<rparr>))"

section \<open>Configuration and reports\<close>

record scrapeConfig =
  sc_URLs :: "string list"
  sc_JSONPath :: string
  sc_CSVPath :: string
  sc_Timeout :: duration

record pageRecord =
  pg_URL :: string
  pg_StatusCode :: int64
  pg_Title :: string
  pg_H1 :: string
  pg_MetaDescription :: string

record scrapeReport =
  sr_Pages :: "pageRecord list"
  sr_PageCount :: int64

datatype scrapeError =
    URLRequired | JSONPathRequired | CSVPathRequired | EmptyURL
  | BuildRequest string string | Fetch string string | Parse string string
  | MarshalJSON string | WriteScrapeStdout string | WriteJSONFile string | CreateCSV string | WriteCSVRows string

record httpResponse =
  hr_StatusCode :: int64
  hr_Body :: bodyReader

record 'n scrapeEnv =
  se_newRequest :: "string \<Rightarrow> string option"
  se_do :: "duration \<Rightarrow> string \<Rightarrow> 'n \<Rightarrow> (string + httpResponse) \<times> 'n"
  se_htmlParse :: "bodyReader \<Rightarrow> string + htmlNode"
  se_uniLower :: "string \<Rightarrow> string"
  se_marshal :: "scrapeReport \<Rightarrow> string + string"
  se_cwd :: "string + path"

definition normalizeConfig :: "scrapeConfig \<Rightarrow> scrapeConfig" where
  "normalizeConfig cfg = (if sc_Timeout cfg \<le> 0 then cfg\<lparr>sc_Timeout := 10 * second\<rparr> else cfg)"

definition validateScrape :: "scrapeConfig \<Rightarrow> scrapeError option" where
  "validateScrape cfg =
     (if length (sc_URLs cfg) = 0 then Some URLRequired
      else if sc_JSONPath cfg = '''' then Some JSONPathRequired
      else if sc_CSVPath cfg = '''' then Some CSVPathRequired
      else if list_ex (\<lambda>u. trimSpace u = '''') (sc_URLs cfg) then Some EmptyURL else None)"

definition fetchAndParse :: "'n scrapeEnv \<Rightarrow> duration \<Rightarrow> string \<Rightarrow> 'n \<Rightarrow> (scrapeError + pageRecord) \<times> 'n" where
  "fetchAndParse env timeout rawURL n = (case se_newRequest env rawURL of
       Some e \<Rightarrow> (Inl (BuildRequest rawURL e), n)
     | None \<Rightarrow> (case se_do env timeout rawURL n of
          (Inl e, n1) \<Rightarrow> (Inl (Fetch rawURL e), n1)
        | (Inr resp, n1) \<Rightarrow> (case parseHTMLDocument (se_uniLower env) (se_htmlParse env) (hr_Body resp) of
             Inl e \<Rightarrow> (Inl (Parse rawURL e), n1)
           | Inr parsed \<Rightarrow> (Inr \<lparr>pg_URL = rawURL, pg_StatusCode = hr_StatusCode resp, pg_Title = pd_Title parsed,
               pg_H1 = pd_H1 parsed, pg_MetaDescription = pd_MetaDescription parsed\<rparr>, n1))))"

fun fetchAll :: "'n scrapeEnv \<Rightarrow> duration \<Rightarrow> string list \<Rightarrow> pageRecord list \<Rightarrow> 'n \<Rightarrow> (scrapeError + pageRecord list) \<times> 'n" where
  "fetchAll env timeout [] pages n = (Inr pages, n)"
| "fetchAll env timeout (u # us) pages n = (case fetchAndParse env timeout u n of
       (Inl e, n1) \<Rightarrow> (Inl e, n1)
     | (Inr rec, n1) \<Rightarrow> fetchAll env timeout us (pages @ [rec]) n1)"

section \<open>CSV\<close>

text \<open>
  \<open>csv.Writer\<close> with a comma and line feeds: a field is quoted when it contains a comma, a quote or
  a line end, starts with white space, or is a backslash and a dot; a quote in it is doubled.
\<close>

definition fieldNeedsQuotes :: "string \<Rightarrow> bool" where
  "fieldNeedsQuotes f \<longleftrightarrow> f \<noteq> '''' \<and>
     (f = [CHR 0x5C, CHR ''.''] \<or> list_ex (\<lambda>c. c \<in> {CHR '','', CHR 0x22, CHR 0x0D, CHR 0x0A}) f \<or> firstSpace goSpaces f \<noteq> None)"

definition csvField :: "string \<Rightarrow> string" where
  "csvField f = (if fieldNeedsQuotes f
     then [CHR 0x22] @ concat (map (\<lambda>c. if c = CHR 0x22 then [CHR 0x22, CHR 0x22] else [c]) f) @ [CHR 0x22] else f)"

definition csvRow :: "string list \<Rightarrow> string" where
  "csvRow fs = joinWith (CHR '','') (map csvField fs) @ [CHR 0x0A]"

definition csvHeader :: "string list" where
  "csvHeader = [''url'', ''status_code'', ''title'', ''h1'', ''meta_description'']"

definition pageRow :: "pageRecord \<Rightarrow> string list" where
  "pageRow p = [pg_URL p, fmtD (pg_StatusCode p), pg_Title p, pg_H1 p, pg_MetaDescription p]"

definition csvText :: "pageRecord list \<Rightarrow> string" where
  "csvText pages = concat (map csvRow (csvHeader # map pageRow pages))"

text \<open>The rows pass through the buffer of the writer: a fault leaves a part of the file.\<close>

definition writeCSV :: "path \<Rightarrow> pageRecord list \<Rightarrow> fileSystem \<Rightarrow> scrapeError option \<times> fileSystem" where
  "writeCSV p pages w = (case sysOpenWrite p 438 w of
       (Inl e, w1) \<Rightarrow> (Some (CreateCSV e), w1)
     | (Inr q, w1) \<Rightarrow> (case nextFault w1 of
          (Some (e, n), w2) \<Rightarrow> (Some (WriteCSVRows e), appendBytes q (take n (csvText pages)) w2)
        | (None, w2) \<Rightarrow> (None, appendBytes q (csvText pages) w2)))"

section \<open>A run\<close>

text \<open>
  The state is the network, what was written to standard output, and the file system. A relative
  output path is resolved in the working directory by the kernel; its lookup failing is a fault of
  the open.
\<close>

definition runScrape :: "'n scrapeEnv \<Rightarrow> scrapeConfig \<Rightarrow> 'n \<times> string \<times> fileSystem \<Rightarrow> (scrapeError + scrapeReport) \<times> 'n \<times> string \<times> fileSystem" where
  "runScrape env cfg0 st = (let (n, out, w) = st; cfg = normalizeConfig cfg0 in case validateScrape cfg of
       Some e \<Rightarrow> (Inl e, st)
     | None \<Rightarrow> (case fetchAll env (sc_Timeout cfg) (sc_URLs cfg) [] n of
          (Inl e, n1) \<Rightarrow> (Inl e, n1, out, w)
        | (Inr pages, n1) \<Rightarrow>
            let report = \<lparr>sr_Pages = pages, sr_PageCount = int (length pages)\<rparr> in
            (case se_marshal env report of
               Inl e \<Rightarrow> (Inl (MarshalJSON e), n1, out, w)
             | Inr json \<Rightarrow> let data = json @ [CHR 0x0A] in
                 (case nextFault w of
                    (Some (e, k), w1) \<Rightarrow> (Inl (WriteScrapeStdout e), n1, out @ take k data, w1)
                  | (None, w1) \<Rightarrow> (case absPath (se_cwd env) (sc_JSONPath cfg) of
                       Inl e \<Rightarrow> (Inl (WriteJSONFile e), n1, out @ data, w1)
                     | Inr jp \<Rightarrow> (case sysWriteFile jp data 420 w1 of
                          (Some e, w2) \<Rightarrow> (Inl (WriteJSONFile e), n1, out @ data, w2)
                        | (None, w2) \<Rightarrow> (case absPath (se_cwd env) (sc_CSVPath cfg) of
                             Inl e \<Rightarrow> (Inl (CreateCSV e), n1, out @ data, w2)
                           | Inr cp \<Rightarrow> (case writeCSV cp pages w2 of
                                (Some e, w3) \<Rightarrow> (Inl e, n1, out @ data, w3)
                              | (None, w3) \<Rightarrow> (Inr report, n1, out @ data, w3)))))))))"

section \<open>The command line\<close>

definition scrapeFlag :: "(string \<Rightarrow> duration option) \<Rightarrow> string \<Rightarrow> string \<Rightarrow> scrapeConfig \<Rightarrow> scrapeConfig option" where
  "scrapeFlag parseDuration n v cfg =
     (if n = ''url'' then Some (cfg\<lparr>sc_URLs := sc_URLs cfg @ [v]\<rparr>)
      else if n = ''json'' then Some (cfg\<lparr>sc_JSONPath := v\<rparr>)
      else if n = ''csv'' then Some (cfg\<lparr>sc_CSVPath := v\<rparr>)
      else if n = ''timeout'' then map_option (\<lambda>d. cfg\<lparr>sc_Timeout := d\<rparr>) (parseDuration v)
      else None)"

definition scrapeCLI :: "'n scrapeEnv \<Rightarrow> (string \<Rightarrow> duration option) \<Rightarrow> string list \<Rightarrow> 'n \<times> string \<times> fileSystem
     \<Rightarrow> int \<times> 'n \<times> string \<times> fileSystem" where
  "scrapeCLI env parseDuration args st =
     (case parseFlags (scrapeFlag parseDuration) args
         \<lparr>sc_URLs = [], sc_JSONPath = '''', sc_CSVPath = '''', sc_Timeout = 10 * second\<rparr> of
        None \<Rightarrow> (2, st)
      | Some cfg \<Rightarrow> (let (res, st1) = runScrape env cfg st in (case res of Inl e \<Rightarrow> 1 | Inr r \<Rightarrow> 0, st1)))"

section \<open>What is extracted\<close>

text \<open>
  The specification over the elements of a document in order: the first text that is not empty.
  \<open>walkNode\<close> keeps what it found in a state instead.
\<close>

fun elementsOf :: "htmlNode \<Rightarrow> htmlNode list" where
  "elementsOf (Element tag attrs cs) = Element tag attrs cs # concat (map elementsOf cs)"
| "elementsOf (TextNode s) = []"
| "elementsOf (OtherNode cs) = concat (map elementsOf cs)"

fun tagOf :: "htmlNode \<Rightarrow> string" where
  "tagOf (Element tag attrs cs) = tag"
| "tagOf (TextNode s) = ''''"
| "tagOf (OtherNode cs) = ''''"

fun firstNonEmpty :: "string list \<Rightarrow> string" where
  "firstNonEmpty [] = ''''"
| "firstNonEmpty (x # xs) = (if x = '''' then firstNonEmpty xs else x)"

lemma walkNode_elements: "walkNode uni n out = fold (\<lambda>e. visitElement uni (tagOf e) e) (elementsOf n) out"
proof (induction n arbitrary: out)
  case (Element tag attrs cs)
  have "fold (walkNode uni) cs o1 = fold (\<lambda>e. visitElement uni (tagOf e) e) (concat (map elementsOf cs)) o1" for o1
    using Element by (induction cs arbitrary: o1) simp_all
  then show ?case by simp
next
  case (OtherNode cs)
  then show ?case by (induction cs arbitrary: out) simp_all
qed simp

lemma visitElement_title: "pd_Title (visitElement uni tag n out) =
    firstNonEmpty (pd_Title out # (if tag = ''title'' then [nodeText n] else []))"
  by (simp add: visitElement_def)

lemma visitElement_h1: "pd_H1 (visitElement uni tag n out) =
    firstNonEmpty (pd_H1 out # (if tag = ''h1'' then [nodeText n] else []))"
  by (simp add: visitElement_def)

lemma visitElement_meta: "pd_MetaDescription (visitElement uni tag n out) =
    firstNonEmpty (pd_MetaDescription out # (if tag = ''meta'' \<and> isMetaDescription uni n then [trimSpace (attrValue n ''content'')] else []))"
  by (simp add: visitElement_def)

lemma fold_title: "pd_Title (fold (\<lambda>e. visitElement uni (tagOf e) e) es out) =
    firstNonEmpty (pd_Title out # map nodeText (filter (\<lambda>e. tagOf e = ''title'') es))"
  by (induction es arbitrary: out) (auto simp: visitElement_title)

lemma fold_h1: "pd_H1 (fold (\<lambda>e. visitElement uni (tagOf e) e) es out) =
    firstNonEmpty (pd_H1 out # map nodeText (filter (\<lambda>e. tagOf e = ''h1'') es))"
  by (induction es arbitrary: out) (auto simp: visitElement_h1)

lemma fold_meta: "pd_MetaDescription (fold (\<lambda>e. visitElement uni (tagOf e) e) es out) =
    firstNonEmpty (pd_MetaDescription out #
      map (\<lambda>e. trimSpace (attrValue e ''content'')) (filter (\<lambda>e. tagOf e = ''meta'' \<and> isMetaDescription uni e) es))"
  by (induction es arbitrary: out) (auto simp: visitElement_meta)

text \<open>
  C19: the extraction equals its specification on every document: the title is the first text of a
  \<open>title\<close> element, in document order, that is not empty after the white space is normalised, the
  heading likewise for \<open>h1\<close>, and the description the first non-empty trimmed \<open>content\<close> of a \<open>meta\<close>
  element whose \<open>name\<close> is \<open>description\<close> or whose \<open>property\<close> is \<open>og:description\<close>, in any case; what
  does not exist is the empty string, and only the parser can fail.
\<close>

theorem document_first_match:
  "parseHTMLDocument uni htmlParse r = (case htmlParse r of
     Inl e \<Rightarrow> Inl (''parse html: '' @ e)
   | Inr doc \<Rightarrow> Inr \<lparr>
       pd_Title = firstNonEmpty (map nodeText (filter (\<lambda>e. tagOf e = ''title'') (elementsOf doc))),
       pd_H1 = firstNonEmpty (map nodeText (filter (\<lambda>e. tagOf e = ''h1'') (elementsOf doc))),
       pd_MetaDescription = firstNonEmpty (map (\<lambda>e. trimSpace (attrValue e ''content''))
         (filter (\<lambda>e. tagOf e = ''meta'' \<and> isMetaDescription uni e) (elementsOf doc)))\<rparr>)"
  by (auto simp: parseHTMLDocument_def walkNode_elements fold_title fold_h1 fold_meta
      intro!: parsedDocument.equality split: sum.splits)

section \<open>The CSV file can be read back\<close>

text \<open>A reader of comma separated values with quoted fields.\<close>

datatype csvMode = AtStart | Bare | InQuotes | QuoteEnd

fun csvScan :: "csvMode \<Rightarrow> string \<Rightarrow> string list \<Rightarrow> string \<Rightarrow> string list list" where
  "csvScan m cur row [] = (if m = AtStart \<and> row = [] then [] else [row @ [cur]])"
| "csvScan m cur row (c # s) =
     (if m = InQuotes then (if c = CHR 0x22 then csvScan QuoteEnd cur row s else csvScan InQuotes (cur @ [c]) row s)
      else if m = QuoteEnd \<and> c = CHR 0x22 then csvScan InQuotes (cur @ [c]) row s
      else if c = CHR '','' then csvScan AtStart '''' (row @ [cur]) s
      else if c = CHR 0x0A then (row @ [cur]) # csvScan AtStart '''' [] s
      else if m = AtStart \<and> c = CHR 0x22 then csvScan InQuotes '''' row s
      else csvScan Bare (cur @ [c]) row s)"

definition csvRead :: "string \<Rightarrow> string list list" where
  "csvRead s = csvScan AtStart '''' [] s"

lemma scan_quoted:
  "csvScan InQuotes cur row (concat (map (\<lambda>c. if c = CHR 0x22 then [CHR 0x22, CHR 0x22] else [c]) f) @ CHR 0x22 # s) =
     csvScan QuoteEnd (cur @ f) row s"
  by (induction f arbitrary: cur) auto

lemma scan_bare:
  "list_all (\<lambda>c. c \<notin> {CHR '','', CHR 0x22, CHR 0x0D, CHR 0x0A}) f \<Longrightarrow>
     csvScan Bare cur row (f @ s) = csvScan Bare (cur @ f) row s"
  by (induction f arbitrary: cur) auto

lemma scan_end: "m \<noteq> InQuotes \<Longrightarrow> d \<in> {CHR '','', CHR 0x0A} \<Longrightarrow> csvScan m cur row (d # s) =
    (if d = CHR '','' then csvScan AtStart '''' (row @ [cur]) s else (row @ [cur]) # csvScan AtStart '''' [] s)"
  by auto

lemma scan_field:
  assumes "d \<in> {CHR '','', CHR 0x0A}"
  shows "csvScan AtStart '''' row (csvField f @ d # s) =
     (if d = CHR '','' then csvScan AtStart '''' (row @ [f]) s else (row @ [f]) # csvScan AtStart '''' [] s)"
proof (cases "fieldNeedsQuotes f")
  case True
  then have "csvScan AtStart '''' row (csvField f @ d # s) = csvScan QuoteEnd f row (d # s)"
    using scan_quoted [of "[]" row f "d # s"] by (simp add: csvField_def)
  then show ?thesis using scan_end [OF _ assms, of QuoteEnd] by simp
next
  case False
  show ?thesis
  proof (cases f)
    case Nil
    then show ?thesis using scan_end [OF _ assms, of AtStart] False by (simp add: csvField_def)
  next
    case (Cons c cs)
    have plain: "list_all (\<lambda>c. c \<notin> {CHR '','', CHR 0x22, CHR 0x0D, CHR 0x0A}) (c # cs)"
      using False Cons by (auto simp: fieldNeedsQuotes_def list_ex_iff list_all_iff)
    then have "csvScan AtStart '''' row (csvField f @ d # s) = csvScan Bare f row (d # s)"
      using False Cons scan_bare [of cs "[c]" row "d # s"] by (simp add: csvField_def)
    then show ?thesis using scan_end [OF _ assms, of Bare] by simp
  qed
qed

lemma scan_row:
  "fs \<noteq> [] \<Longrightarrow> csvScan AtStart '''' row (csvRow fs @ s) = (row @ fs) # csvScan AtStart '''' [] s"
proof (induction fs arbitrary: row rule: joinWith.induct [of _ "CHR '','' "])
  case (2 c w)
  then show ?case using scan_field [of "CHR 0x0A" row w s] by (simp add: csvRow_def)
next
  case (3 c w v ws)
  then show ?case using scan_field [of "CHR '','' " row w] by (simp add: csvRow_def)
qed simp

lemma csvRead_rows: "[] \<notin> set rows \<Longrightarrow> csvRead (concat (map csvRow rows)) = rows"
  unfolding csvRead_def by (induction rows) (auto simp: scan_row)

section \<open>All pages or nothing\<close>

text \<open>The errors of a run before anything was written.\<close>

fun beforeOutput :: "scrapeError \<Rightarrow> bool" where
  "beforeOutput (WriteScrapeStdout e) = False"
| "beforeOutput (WriteJSONFile e) = False"
| "beforeOutput (CreateCSV e) = False"
| "beforeOutput (WriteCSVRows e) = False"
| "beforeOutput _ = True"

lemma fetchAll_ok:
  "fetchAll env timeout us pages n = (Inr ps, n') \<Longrightarrow> map pg_URL ps = map pg_URL pages @ us"
proof (induction us arbitrary: pages n)
  case (Cons u us)
  obtain rec n1 where f: "fetchAndParse env timeout u n = (Inr rec, n1)"
    and rest: "fetchAll env timeout us (pages @ [rec]) n1 = (Inr ps, n')"
    using Cons.prems by (auto split: prod.splits sum.splits)
  from f have "pg_URL rec = u" by (auto simp: fetchAndParse_def split: option.splits prod.splits sum.splits)
  with Cons.IH [OF rest] show ?case by simp
qed simp

lemma runScrape_ok:
  assumes "runScrape env cfg (n, out, w) = (Inr r, n', out', w')"
  obtains json w1 jp w2 cp pages
  where "fetchAll env (sc_Timeout (normalizeConfig cfg)) (sc_URLs cfg) [] n = (Inr pages, n')"
    and "r = \<lparr>sr_Pages = pages, sr_PageCount = int (length pages)\<rparr>" and "se_marshal env r = Inr json" and "out' = out @ json @ [CHR 0x0A]"
    and "nextFault w = (None, w1)" and "absPath (se_cwd env) (sc_JSONPath cfg) = Inr jp"
    and "sysWriteFile jp (json @ [CHR 0x0A]) 420 w1 = (None, w2)"
    and "absPath (se_cwd env) (sc_CSVPath cfg) = Inr cp" and "writeCSV cp pages w2 = (None, w')"
  using assms
  by (auto simp: runScrape_def Let_def normalizeConfig_def split: option.splits prod.splits sum.splits if_splits)

lemma runScrape_done:
  assumes "validateScrape (normalizeConfig cfg) = None"
    and "fetchAll env (sc_Timeout (normalizeConfig cfg)) (sc_URLs cfg) [] n = (Inr pages, n')"
    and "se_marshal env \<lparr>sr_Pages = pages, sr_PageCount = int (length pages)\<rparr> = Inr json"
    and "nextFault w = (None, w1)" and "absPath (se_cwd env) (sc_JSONPath cfg) = Inr jp"
    and "sysWriteFile jp (json @ [CHR 0x0A]) 420 w1 = (None, w2)"
    and "absPath (se_cwd env) (sc_CSVPath cfg) = Inr cp" and "writeCSV cp pages w2 = (None, w3)"
  shows "runScrape env cfg (n, out, w) =
     (Inr \<lparr>sr_Pages = pages, sr_PageCount = int (length pages)\<rparr>, n', out @ json @ [CHR 0x0A], w3)"
  using assms by (simp add: runScrape_def Let_def normalizeConfig_def split: if_splits)

lemma writeCSV_ok:
  assumes "writeCSV p pages w = (None, v)" and "plainPath w p" and "nodeAt w p \<noteq> Some Special"
  shows "(\<exists>m. nodeAt v p = Some (Regular (csvText pages) m)) \<and> (\<forall>x. x \<noteq> p \<longrightarrow> nodeAt v x = nodeAt w x)"
proof -
  obtain q w1 w2 where o: "sysOpenWrite p 438 w = (Inr q, w1)" "nextFault w1 = (None, w2)" "v = appendBytes q (csvText pages) w2"
    using assms(1) by (auto simp: writeCSV_def split: prod.splits sum.splits option.splits)
  from openWrite_ok [OF o(1) assms(2,3)] nextFault_nodes [OF o(2)] o(3) show ?thesis
    by (auto simp: appendBytes_ok)
qed


section \<open>Witnesses and corner cases\<close>

definition demoPage :: htmlNode where
  "demoPage = OtherNode [Element ''html'' [] [
     Element ''head'' [] [Element ''title'' [] [TextNode '' Say  \"hi\", all ''],
       Element ''meta'' [(''name'', ''Description''), (''content'', '' a page '')] []],
     Element ''body'' [] [Element ''h1'' [] [TextNode ''Hel'', Element ''b'' [] [TextNode ''lo'']],
       Element ''h1'' [] [TextNode ''later'']]]]"

definition demoScrapeEnv :: "unit scrapeEnv" where
  "demoScrapeEnv = \<lparr>se_newRequest = (\<lambda>u. None),
     se_do = (\<lambda>t u n. if u = ''http://down'' then (Inl ''connection refused'', n)
        else (Inr \<lparr>hr_StatusCode = 200, hr_Body = \<lparr>br_content = '''', br_err = None\<rparr>\<rparr>, n)),
     se_htmlParse = (\<lambda>b. Inr demoPage), se_uniLower = (\<lambda>s. s), se_marshal = (\<lambda>r. Inr ''{}''), se_cwd = Inr [''home'']\<rparr>"

text \<open>A word with an inline element in it is split in two.\<close>

lemma inline_elements_split_words: "nodeText (Element ''h1'' [] [TextNode ''Hel'', Element ''b'' [] [TextNode ''lo'']]) = ''Hel lo''"
  by code_simp

text \<open>An empty title is skipped: the title of an inline drawing is taken for the title of the page.\<close>

lemma later_title_taken:
  "pd_Title (walkNode (\<lambda>s. s) (OtherNode [Element ''title'' [] [], Element ''svg'' [] [Element ''title'' [] [TextNode ''icon'']]])
     \<lparr>pd_Title = '''', pd_H1 = '''', pd_MetaDescription = ''''\<rparr>) = ''icon''"
  by code_simp

definition demoOutFS :: fileSystem where
  "demoOutFS = \<lparr>fs_nodes = [([], Dir 493), ([''home''], Dir 493)], fs_umask = 18, fs_faults = []\<rparr>"

lemma unit_pair: "fst x = a \<Longrightarrow> x = (a, ())"
  by (cases x) simp


end
