(* ===== verification/Pipeline.thy ===== *)
theory Pipeline
  imports PgEvents PgShop RedisBroker
begin

text \<open>
  The two processes of the event pipeline, \<open>cmd/outboxpublisher/main.go\<close> and
  \<open>cmd/eventconsumer/main.go\<close>, and what they do together: an order placed on PostgreSQL leaves an
  outbox row, the publisher puts it on the Redis stream, and the consumer writes it to the
  projection.

  The process environment, \<open>sql.Open\<close> and the Redis client are parameters. Connecting to the
  database is the first use of it, so a ping takes the next entry of its faults. The rounds of a
  process are listed with the clock readings of the round and whether the context is cancelled
  while it waits for the next tick; \<open>None\<close> means it still runs after them. The errors of
  \<open>broker.Close\<close> and \<open>db.Close\<close> are dropped by the code.
\<close>

section \<open>The processes\<close>

record 'c pipeEnv =
  px_Getenv :: "string \<Rightarrow> string"
  px_sqlOpen :: "string \<Rightarrow> string option"
  px_redis :: "string \<Rightarrow> string \<Rightarrow> int \<Rightarrow> 'c redisClient"

definition pipeGetenv :: "'c pipeEnv \<Rightarrow> string \<Rightarrow> string \<Rightarrow> string" where
  "pipeGetenv px key fallback = (let v = px_Getenv px key in if v \<noteq> '''' then v else fallback)"

definition pingDB :: "pgDB \<Rightarrow> string option \<times> pgDB" where
  "pingDB s = takeFault s"

definition publisherSettings :: "'c pipeEnv \<Rightarrow> publisherConfig" where
  "publisherSettings px = newPublisher \<lparr>pc_Topic = pipeGetenv px ''EVENT_STREAM'' ''orders.events'',
     pc_BatchSize = 200, pc_MaxAttempts = 8, pc_BaseBackoff = 500 * millisecond, pc_PollInterval = 500 * millisecond,
     pc_ServiceName = ''outbox-publisher'', pc_DisableTicker = False\<rparr>"

definition runPublisher ::
  "'c pipeEnv \<Rightarrow> (time \<times> (nat \<Rightarrow> time) \<times> bool) list \<Rightarrow> pgDB \<times> 'c \<Rightarrow> string option option \<times> pgDB \<times> 'c" where
  "runPublisher px rounds sc =
     (let dbURL = px_Getenv px ''DATABASE_URL'' in
      if dbURL = '''' then (Some (Some ''DATABASE_URL is required''), sc)
      else let redisAddr = px_Getenv px ''REDIS_ADDR'' in
        if redisAddr = '''' then (Some (Some ''REDIS_ADDR is required''), sc)
        else (case px_sqlOpen px dbURL of
            Some e \<Rightarrow> (Some (Some e), sc)
          | None \<Rightarrow> (case pingDB (fst sc) of
                (Some e, s1) \<Rightarrow> (Some (Some e), s1, snd sc)
              | (None, s1) \<Rightarrow>
                  publisherRun (publisherSettings px) postgresOutbox
                    (redisPublish (px_redis px redisAddr (px_Getenv px ''REDIS_PASSWORD'') 0)) rounds (s1, snd sc))))"

definition consumerSettings :: "'c pipeEnv \<Rightarrow> consumerConfig" where
  "consumerSettings px = newConsumer \<lparr>cc_Stream = pipeGetenv px ''EVENT_STREAM'' ''orders.events'',
     cc_Group = pipeGetenv px ''EVENT_CONSUMER_GROUP'' ''orders-consumers'',
     cc_ConsumerName = pipeGetenv px ''EVENT_CONSUMER_NAME'' ''consumer-1'', cc_ReadCount = 100,
     cc_BlockTimeout = 2 * second, cc_MaxAttempts = 6, cc_ServiceName = ''event-consumer''\<rparr>"

text \<open>The loop of the consumer process: unlike the publisher's it stands in \<open>main.go\<close>.\<close>

fun consumerRun ::
  "consumerConfig \<Rightarrow> 'b brokerConsumer \<Rightarrow> 'd dlqRepository \<Rightarrow> 'd eventHandler \<Rightarrow> ((nat \<Rightarrow> time \<times> time) \<times> bool) list
     \<Rightarrow> attemptsMap \<times> 'b \<times> 'd \<Rightarrow> string option \<times> attemptsMap \<times> 'b \<times> 'd" where
  "consumerRun cfg broker dlq handle [] st = (None, st)"
| "consumerRun cfg broker dlq handle ((nowOf, cancelled) # rounds) st =
     (case consumerRunOnce cfg broker dlq handle nowOf st of
        ((_, Some e), st') \<Rightarrow> (Some e, st')
      | ((_, None), st') \<Rightarrow>
          if cancelled then (Some ''context canceled'', st') else consumerRun cfg broker dlq handle rounds st')"

text \<open>
  \<open>jsonb\<close> is the cast of the database, \<open>unmarshal\<close> is \<open>json.Unmarshal\<close> into the event. The
  consumer's map of attempts is dropped with the process.
\<close>

definition runConsumer ::
  "'c pipeEnv \<Rightarrow> (string \<Rightarrow> string option) \<Rightarrow> (string \<Rightarrow> string + orderCreatedEvent)
     \<Rightarrow> ((nat \<Rightarrow> time \<times> time) \<times> bool) list \<Rightarrow> pgDB \<times> 'c \<Rightarrow> string option \<times> pgDB \<times> 'c" where
  "runConsumer px jsonb unmarshal rounds sc =
     (let dbURL = px_Getenv px ''DATABASE_URL'' in
      if dbURL = '''' then (Some ''DATABASE_URL is required'', sc)
      else let redisAddr = px_Getenv px ''REDIS_ADDR'' in
        if redisAddr = '''' then (Some ''REDIS_ADDR is required'', sc)
        else (case px_sqlOpen px dbURL of
            Some e \<Rightarrow> (Some e, sc)
          | None \<Rightarrow> (case pingDB (fst sc) of
                (Some e, s1) \<Rightarrow> (Some e, s1, snd sc)
              | (None, s1) \<Rightarrow>
                  let client = px_redis px redisAddr (px_Getenv px ''REDIS_PASSWORD'') 0; cfg = consumerSettings px in
                  (case EnsureConsumerGroup client (pipeGetenv px ''EVENT_STREAM'' ''orders.events'')
                          (pipeGetenv px ''EVENT_CONSUMER_GROUP'' ''orders-consumers'') (snd sc) of
                     (Some e, c1) \<Rightarrow> (Some e, s1, c1)
                   | (None, c1) \<Rightarrow>
                       (case consumerRun cfg (redisConsumer client) (pgInsertDLQ jsonb)
                               (projectionHandle unmarshal pgUpsertOrderProjection) rounds ([], c1, s1) of
                          (out, _, c2, s2) \<Rightarrow> (out, s2, c2))))))"

text \<open>
  \<open>main\<close> of both: the message of \<open>log.Fatalf\<close>, if the process ends with one. \<open>canceled\<close> is
  \<open>errors.Is(err, context.Canceled)\<close>.
\<close>

definition pipeMain :: "string \<Rightarrow> (string \<Rightarrow> bool) \<Rightarrow> string option \<Rightarrow> string option" where
  "pipeMain name canceled err = (case err of
       None \<Rightarrow> None
     | Some e \<Rightarrow> if \<not> canceled e then Some (name @ '' error: '' @ e) else None)"

section \<open>Settings\<close>

lemma pipeGetenv_nonempty: "fallback \<noteq> '''' \<Longrightarrow> pipeGetenv px key fallback \<noteq> ''''"
  by (simp add: pipeGetenv_def Let_def)

lemma publisherSettings_simps [simp]:
  "pc_Topic (publisherSettings px) = pipeGetenv px ''EVENT_STREAM'' ''orders.events''"
  "pc_BatchSize (publisherSettings px) = 200" "pc_MaxAttempts (publisherSettings px) = 8"
  "\<not> pc_DisableTicker (publisherSettings px)"
  by (simp_all add: publisherSettings_def newPublisher_def Let_def pipeGetenv_nonempty millisecond_def)

lemma consumerSettings_simps [simp]:
  "cc_Stream (consumerSettings px) = pipeGetenv px ''EVENT_STREAM'' ''orders.events''"
  "cc_Group (consumerSettings px) = pipeGetenv px ''EVENT_CONSUMER_GROUP'' ''orders-consumers''"
  "cc_ReadCount (consumerSettings px) = 100" "cc_MaxAttempts (consumerSettings px) = 6"
  by (simp_all add: consumerSettings_def newConsumer_def Let_def pipeGetenv_nonempty millisecond_def second_def)

section \<open>One round of each process\<close>

text \<open>
  A Redis that serves every command: streams behave as documented, nothing fails, and creating a
  group that exists is refused with \<open>BUSYGROUP\<close>. Neither answer of \<open>XGROUP CREATE\<close> changes an entry
  or how far a group has read; a group that did not exist starts at the first entry.
\<close>

definition redisUp ::
  "'c redisClient \<Rightarrow> ('c \<Rightarrow> string \<Rightarrow> streamEntry list) \<Rightarrow> ('c \<Rightarrow> string \<Rightarrow> string \<Rightarrow> nat) \<Rightarrow> bool" where
  "redisUp client entriesOf deliveredOf \<longleftrightarrow> streamLaws client entriesOf deliveredOf \<and>
     (\<forall>s flds c. \<exists>i. fst (rc_XAdd client s flds c) = Inr i) \<and>
     (\<forall>g name ss n block c e. fst (rc_XReadGroup client g name ss n block c) \<noteq> Inl (RedisErr e)) \<and>
     (\<forall>s g is c. fst (rc_XAck client s g is c) = None) \<and>
     (\<forall>s g from c e c'. rc_XGroupCreateMkStream client s g from c = (e, c') \<longrightarrow>
        (\<forall>m. e = Some m \<longrightarrow> containsSub ''BUSYGROUP'' m) \<and> entriesOf c' = entriesOf c \<and> deliveredOf c' = deliveredOf c)"

definition pipeConfigured :: "'c pipeEnv \<Rightarrow> 'c redisClient \<Rightarrow> bool" where
  "pipeConfigured px client \<longleftrightarrow> px_Getenv px ''DATABASE_URL'' \<noteq> '''' \<and> px_Getenv px ''REDIS_ADDR'' \<noteq> '''' \<and>
     px_sqlOpen px (px_Getenv px ''DATABASE_URL'') = None \<and>
     px_redis px (px_Getenv px ''REDIS_ADDR'') (px_Getenv px ''REDIS_PASSWORD'') 0 = client"

lemma redisUp_parts:
  assumes "redisUp client entriesOf deliveredOf"
  shows "streamLaws client entriesOf deliveredOf" "\<exists>i. fst (rc_XAdd client s flds c) = Inr i"
    "fst (rc_XReadGroup client g name ss n block c) \<noteq> Inl (RedisErr e)" "fst (rc_XAck client s g is c) = None"
    "rc_XGroupCreateMkStream client s g from c = (oe, c') \<Longrightarrow>
       (\<forall>m. oe = Some m \<longrightarrow> containsSub ''BUSYGROUP'' m) \<and> entriesOf c' = entriesOf c \<and> deliveredOf c' = deliveredOf c"
proof -
  note parts = assms [unfolded redisUp_def]
  show "streamLaws client entriesOf deliveredOf" using parts by (rule conjunct1)
  note r1 = parts [THEN conjunct2]
  show "\<exists>i. fst (rc_XAdd client s flds c) = Inr i" using r1 [THEN conjunct1] by blast
  note r2 = r1 [THEN conjunct2]
  show "fst (rc_XReadGroup client g name ss n block c) \<noteq> Inl (RedisErr e)" using r2 [THEN conjunct1] by blast
  note r3 = r2 [THEN conjunct2]
  show "fst (rc_XAck client s g is c) = None" using r3 [THEN conjunct1] by blast
  assume "rc_XGroupCreateMkStream client s g from c = (oe, c')"
  then show "(\<forall>m. oe = Some m \<longrightarrow> containsSub ''BUSYGROUP'' m) \<and> entriesOf c' = entriesOf c \<and> deliveredOf c' = deliveredOf c"
    using r3 [THEN conjunct2] by blast
qed

lemma redisUp_publish:
  assumes "redisUp client entriesOf deliveredOf"
  shows "fst (redisPublish client topic m c) = None"
proof -
  let ?kv = "[(''payload'', AnyString (bm_Payload m)), (''trace_id'', AnyString (bm_TraceID m)),
      (''correlation_id'', AnyString (bm_CorrelationID m)), (''key'', AnyString (bm_Key m))]"
  obtain i c' where "rc_XAdd client topic ?kv c = (Inr i, c')"
    using redisUp_parts(2) [OF assms] by (metis prod.collapse)
  then show ?thesis by (simp add: redisPublish_def)
qed

lemma redisUp_ack:
  assumes "redisUp client entriesOf deliveredOf"
  shows "fst (redisAck client s g is c) = None"
proof -
  obtain c' where "rc_XAck client s g is c = (None, c')"
    using redisUp_parts(4) [OF assms] by (metis prod.collapse)
  then show ?thesis by (simp add: redisAck_def)
qed

lemma redisUp_read:
  assumes "redisUp client entriesOf deliveredOf"
  shows "\<exists>ms. fst (redisRead client s g name n block c) = Inr ms"
proof -
  obtain res c' where r: "rc_XReadGroup client g name [s, ''>''] n block c = (res, c')" by fastforce
  with redisUp_parts(3) [OF assms] have "res \<noteq> Inl (RedisErr e)" for e by (metis fst_conv)
  with r show ?thesis by (cases res) (auto simp: redisRead_def split: redisError.split)
qed

lemma redisUp_group:
  assumes "redisUp client entriesOf deliveredOf"
  shows "\<exists>c'. EnsureConsumerGroup client s g c = (None, c') \<and> entriesOf c' = entriesOf c \<and> deliveredOf c' = deliveredOf c"
proof -
  obtain e c' where "rc_XGroupCreateMkStream client s g ''0'' c = (e, c')" by fastforce
  moreover from this have "\<forall>m. e = Some m \<longrightarrow> containsSub ''BUSYGROUP'' m" "entriesOf c' = entriesOf c" "deliveredOf c' = deliveredOf c"
    using redisUp_parts(5) [OF assms] by blast+
  ultimately show ?thesis by (cases e) (auto simp: EnsureConsumerGroup_def)
qed

text \<open>What the publisher hands over arrives on the stream, in order.\<close>

lemma handedOver_all:
  assumes "redisUp client entriesOf deliveredOf"
  shows "redisPublishAll client topic (map messageOf evs) c = (None, handedOver (redisPublish client) topic evs c)"
proof (induction evs arbitrary: c)
  case (Cons ev evs)
  obtain c1 where "redisPublish client topic (messageOf ev) c = (None, c1)"
    using redisUp_publish [OF assms] by (metis prod.collapse)
  with Cons show ?case by (simp add: handedOver_def)
qed (simp add: handedOver_def)

lemma carries_payloads:
  "list_all2 carries (map messageOf evs) ms \<Longrightarrow> map cm_Payload ms = map oe_Payload evs"
  by (induction evs ms rule: list_induct2') (auto simp: carries_def messageOf_def)

section \<open>The projection after a batch\<close>

definition eventsOf :: "(string \<Rightarrow> string + orderCreatedEvent) \<Rightarrow> string list \<Rightarrow> orderCreatedEvent list" where
  "eventsOf unmarshal payloads = map (\<lambda>p. projr (unmarshal p)) payloads"

definition lastEvent :: "int64 \<Rightarrow> orderCreatedEvent list \<Rightarrow> orderCreatedEvent option" where
  "lastEvent oid es = find (\<lambda>e. oc_OrderID e = oid) (rev es)"

definition projectedAs :: "projectionRow option \<Rightarrow> orderCreatedEvent option \<Rightarrow> projectionRow option \<Rightarrow> bool" where
  "projectedAs before e after = (case e of
       None \<Rightarrow> after = before
     | Some e \<Rightarrow> (case after of
           None \<Rightarrow> False
         | Some row \<Rightarrow> jrow_LastEventType row = ''order.created'' \<and> jrow_PaymentStatus row = oc_PaymentStatus e \<and>
             jrow_TotalCents row = oc_TotalCents e))"

definition decodable :: "(string \<Rightarrow> string + orderCreatedEvent) \<Rightarrow> string \<Rightarrow> bool" where
  "decodable unmarshal p = (case unmarshal p of Inl _ \<Rightarrow> False | Inr e \<Rightarrow> 0 < oc_OrderID e)"

lemma lastEvent_Cons: "lastEvent oid (e # es) = (case lastEvent oid es of
    None \<Rightarrow> if oc_OrderID e = oid then Some e else None | Some x \<Rightarrow> Some x)"
proof -
  have "find P (xs @ [y]) = (case find P xs of None \<Rightarrow> if P y then Some y else None | Some x \<Rightarrow> Some x)"
    for P :: "orderCreatedEvent \<Rightarrow> bool" and xs y
    by (induction xs) auto
  then show ?thesis by (simp add: lastEvent_def)
qed

lemma lastEvent_snoc: "lastEvent oid (es @ [e]) = (if oc_OrderID e = oid then Some e else lastEvent oid es)"
  by (simp add: lastEvent_def)

lemma projectedAs_Cons:
  assumes "mid = before(oc_OrderID e \<mapsto> \<lparr>jrow_LastEventType = ''order.created'',
      jrow_PaymentStatus = oc_PaymentStatus e, jrow_TotalCents = oc_TotalCents e, jrow_UpdatedAt = ts\<rparr>)"
    and "projectedAs (mid i) (lastEvent i es) (after i)"
  shows "projectedAs (before i) (lastEvent i (e # es)) (after i)"
  using assms by (cases "lastEvent i es") (auto simp: lastEvent_Cons projectedAs_def)

lemma upsert_nofault:
  assumes "pg_faults d = []" and "unmarshal p = Inr e" and "0 < oc_OrderID e"
  shows "\<exists>d'. projectionHandle unmarshal pgUpsertOrderProjection now p d = (None, d') \<and> pg_faults d' = [] \<and>
     t_outbox (pg_tables d') = t_outbox (pg_tables d) \<and>
     map_of (t_projection (pg_tables d')) = (map_of (t_projection (pg_tables d)))(oc_OrderID e \<mapsto>
        \<lparr>jrow_LastEventType = ''order.created'', jrow_PaymentStatus = oc_PaymentStatus e,
         jrow_TotalCents = oc_TotalCents e, jrow_UpdatedAt = pgTime now\<rparr>)"
  using assms by (auto simp: projectionHandle_def pgUpsertOrderProjection_def runStmt_nofault execStmt_def upsertProjection_def
      fun_eq_iff)

lemma consumeLoop_projects:
  assumes "redisUp client entriesOf deliveredOf"
    and "pg_faults d = []" and "\<forall>m \<in> set ms. decodable unmarshal (cm_Payload m)"
  shows "\<exists>att' c' d'. consumeLoop cfg (redisConsumer client) dlq (projectionHandle unmarshal pgUpsertOrderProjection) nowOf n ms
        (att, c, d) = ((n + length ms, None), att', c', d') \<and>
     entriesOf c' = entriesOf c \<and> deliveredOf c' = deliveredOf c \<and> t_outbox (pg_tables d') = t_outbox (pg_tables d) \<and>
     (\<forall>i. projectedAs (map_of (t_projection (pg_tables d)) i) (lastEvent i (eventsOf unmarshal (map cm_Payload ms)))
        (map_of (t_projection (pg_tables d')) i))"
  using assms(2,3)
proof (induction ms arbitrary: n att c d)
  case Nil
  then show ?case by (simp add: eventsOf_def lastEvent_def projectedAs_def)
next
  case (Cons m ms)
  obtain e where e: "unmarshal (cm_Payload m) = Inr e" "0 < oc_OrderID e"
    using Cons.prems(2) by (auto simp: decodable_def split: sum.splits)
  obtain d1 where d1: "projectionHandle unmarshal pgUpsertOrderProjection (fst (nowOf n)) (cm_Payload m) d = (None, d1)"
    "pg_faults d1 = []" "t_outbox (pg_tables d1) = t_outbox (pg_tables d)"
    "map_of (t_projection (pg_tables d1)) = (map_of (t_projection (pg_tables d)))(oc_OrderID e \<mapsto>
        \<lparr>jrow_LastEventType = ''order.created'', jrow_PaymentStatus = oc_PaymentStatus e,
         jrow_TotalCents = oc_TotalCents e, jrow_UpdatedAt = pgTime (fst (nowOf n))\<rparr>)"
    using upsert_nofault [where unmarshal = unmarshal and p = "cm_Payload m", OF Cons.prems(1) e] by blast
  obtain c1 where c1: "redisAck client (cc_Stream cfg) (cc_Group cfg) [cm_ID m] c = (None, c1)"
    using redisUp_ack [OF assms(1)] by (metis prod.collapse)
  have same: "entriesOf c1 = entriesOf c" "deliveredOf c1 = deliveredOf c"
    using redisAck_same [OF redisUp_parts(1) [OF assms(1)] c1] by simp_all
  obtain att1 where one: "consumeOne cfg (redisConsumer client) dlq (projectionHandle unmarshal pgUpsertOrderProjection)
      (nowOf n) m (att, c, d) = (None, att1, c1, d1)"
    using d1(1) c1 by (simp add: consumeOne_def redisConsumer_def Let_def)
  obtain att' c' d' where rest: "consumeLoop cfg (redisConsumer client) dlq (projectionHandle unmarshal pgUpsertOrderProjection)
        nowOf (n + 1) ms (att1, c1, d1) = ((n + 1 + length ms, None), att', c', d')"
      "entriesOf c' = entriesOf c1" "deliveredOf c' = deliveredOf c1" "t_outbox (pg_tables d') = t_outbox (pg_tables d1)"
      "\<And>i. projectedAs (map_of (t_projection (pg_tables d1)) i) (lastEvent i (eventsOf unmarshal (map cm_Payload ms)))
         (map_of (t_projection (pg_tables d')) i)"
    using Cons.IH [OF d1(2), of "n + 1" att1 c1] Cons.prems(2) by auto
  from rest(5) have "projectedAs (map_of (t_projection (pg_tables d)) i)
      (lastEvent i (eventsOf unmarshal (map cm_Payload (m # ms)))) (map_of (t_projection (pg_tables d')) i)" for i
    using projectedAs_Cons [OF d1(4)] e(1) by (simp add: eventsOf_def)
  with one rest(1-4) same d1(3) show ?case by simp
qed

section \<open>From the outbox to the projection\<close>

lemma runPublisher_configured:
  assumes "pipeConfigured px client" and "pg_faults s = []"
  shows "runPublisher px rounds (s, c)
     = publisherRun (publisherSettings px) postgresOutbox (redisPublish client) rounds (s, c)"
  using assms by (simp add: runPublisher_def pipeConfigured_def Let_def pingDB_def takeFault_none)

lemma runConsumer_configured:
  assumes "pipeConfigured px client" and "pg_faults s = []"
    and "EnsureConsumerGroup client (pipeGetenv px ''EVENT_STREAM'' ''orders.events'')
       (pipeGetenv px ''EVENT_CONSUMER_GROUP'' ''orders-consumers'') c = (None, c1)"
  shows "runConsumer px jsonb unmarshal rounds (s, c)
     = (case consumerRun (consumerSettings px) (redisConsumer client) (pgInsertDLQ jsonb)
           (projectionHandle unmarshal pgUpsertOrderProjection) rounds ([], c1, s) of (out, _, c2, s2) \<Rightarrow> (out, s2, c2))"
  using assms by (simp add: runConsumer_def pipeConfigured_def Let_def pingDB_def takeFault_none)

text \<open>
  One round of the publisher process, then one round of the consumer process, each cancelled while
  it waits: every due event is published and its row of the projection written.
\<close>

lemma pipeline_round:
  fixes entriesOf :: "'c \<Rightarrow> string \<Rightarrow> streamEntry list" and px :: "'c pipeEnv"
  defines "stream \<equiv> pipeGetenv px ''EVENT_STREAM'' ''orders.events''"
    and "grp \<equiv> pipeGetenv px ''EVENT_CONSUMER_GROUP'' ''orders-consumers''"
  assumes up: "redisUp client entriesOf deliveredOf" and conf: "pipeConfigured px client"
    and db: "pgOutboxInv s" "pg_faults s = []"
    and fit: "\<forall>i row. map_of (t_outbox (pg_tables s)) i = Some row \<longrightarrow> in32 (oe_Attempts (ob_event row) + 1)"
    and due: "evs = pendingEvents 200 now (pg_tables s)" "length evs \<le> 100"
    and dec: "\<forall>ev \<in> set evs. decodable unmarshal (oe_Payload ev)"
    and read: "deliveredOf c stream grp = length (entriesOf c stream)"
  shows "\<exists>s1 c1 s2 c2. runPublisher px [(now, nowOf, True)] (s, c) = (Some (Some ''context canceled''), s1, c1) \<and>
     runConsumer px jsonb unmarshal [(nowOf2, True)] (s1, c1) = (Some ''context canceled'', s2, c2) \<and>
     (\<forall>ev \<in> set evs. \<exists>row'. map_of (t_outbox (pg_tables s2)) (oe_ID ev) = Some row' \<and> ob_status row' = ''published'' \<and>
       messageOf (ob_event row') = messageOf ev) \<and>
     (\<forall>i. projectedAs (map_of (t_projection (pg_tables s)) i) (lastEvent i (eventsOf unmarshal (map oe_Payload evs)))
        (map_of (t_projection (pg_tables s2)) i)) \<and>
     deliveredOf c2 stream grp = length (entriesOf c2 stream)"
proof -
  let ?cfg = "publisherSettings px" and ?cc = "consumerSettings px"
  let ?handle = "projectionHandle unmarshal pgUpsertOrderProjection"
  obtain s1 c1 where pub: "publisherRunOnce ?cfg postgresOutbox (redisPublish client) now nowOf (s, c) = ((length evs, None), s1, c1)"
    and pubd: "\<forall>ev \<in> set evs. \<exists>row'. map_of (t_outbox (pg_tables s1)) (oe_ID ev) = Some row' \<and> ob_status row' = ''published'' \<and>
       messageOf (ob_event row') = messageOf ev"
    and c1: "c1 = handedOver (redisPublish client) stream evs c" and f1: "pg_faults s1 = []"
    and p1: "t_projection (pg_tables s1) = t_projection (pg_tables s)"
    using publisherRunOnce_all [where cfg = ?cfg and publish = "redisPublish client" and now = now and nowOf = nowOf and b = c,
        OF db _ _ fit] due(1) redisUp_publish [OF up] by (auto simp: stream_def)
  have one: "runPublisher px [(now, nowOf, True)] (s, c) = (Some (Some ''context canceled''), s1, c1)"
    using runPublisher_configured [OF conf db(2)] pub by simp
  obtain ens where ens: "deliveredOf c1 = deliveredOf c" "entriesOf c1 stream = entriesOf c stream @ ens"
    "list_all2 carries (map messageOf evs) (map consumedMessage ens)"
    using redisPublishAll_ok [OF redisUp_parts(1) [OF up] handedOver_all [OF up], of stream evs c] c1 by blast
  have len: "length ens = length evs" using ens(3) by (auto dest: list_all2_lengthD)
  obtain c2 where c2: "EnsureConsumerGroup client stream grp c1 = (None, c2)" "entriesOf c2 = entriesOf c1" "deliveredOf c2 = deliveredOf c1"
    using redisUp_group [OF up] by blast
  obtain ms c3 where rd: "redisRead client stream grp (cc_ConsumerName ?cc) 100 (cc_BlockTimeout ?cc) c2 = (Inr ms, c3)"
    using redisUp_read [OF up] by (metis prod.collapse)
  note got = redisRead_ok [OF redisUp_parts(1) [OF up] rd]
  have n: "length ms = length ens" using got c2 ens read len due(2) by simp
  have ms: "ms = map consumedMessage ens" using got c2 ens(1,2) read n by simp
  have pay: "map cm_Payload ms = map oe_Payload evs" using carries_payloads [OF ens(3)] ms by simp
  have "decodable unmarshal p" if "p \<in> set (map cm_Payload ms)" for p using that dec unfolding pay by auto
  then have ok: "\<forall>m \<in> set ms. decodable unmarshal (cm_Payload m)" by simp
  obtain att c4 s2 where loop: "consumeLoop ?cc (redisConsumer client) (pgInsertDLQ jsonb) ?handle nowOf2 0 ms ([], c3, s1)
        = ((0 + length ms, None), att, c4, s2)"
      "entriesOf c4 = entriesOf c3" "deliveredOf c4 = deliveredOf c3" "t_outbox (pg_tables s2) = t_outbox (pg_tables s1)"
      "\<forall>i. projectedAs (map_of (t_projection (pg_tables s1)) i) (lastEvent i (eventsOf unmarshal (map cm_Payload ms)))
         (map_of (t_projection (pg_tables s2)) i)"
    using consumeLoop_projects [OF up f1 ok] by blast
  have "consumerRunOnce ?cc (redisConsumer client) (pgInsertDLQ jsonb) ?handle nowOf2 ([], c2, s1) = ((length ms, None), att, c4, s2)"
    using rd loop(1) by (simp add: consumerRunOnce_def redisConsumer_def stream_def grp_def)
  then have two: "runConsumer px jsonb unmarshal [(nowOf2, True)] (s1, c1) = (Some ''context canceled'', s2, c4)"
    using runConsumer_configured [OF conf f1 c2(1) [unfolded stream_def grp_def], of jsonb unmarshal] by simp
  have "deliveredOf c4 stream grp = length (entriesOf c4 stream)"
    using got loop(2,3) c2 ens(1,2) read n by simp
  with one two pubd loop(4,5) p1 pay show ?thesis by auto
qed

section \<open>From the order to the projection\<close>

definition eventOfOrder :: "orderRec \<Rightarrow> int64 \<Rightarrow> string \<Rightarrow> time \<Rightarrow> orderCreatedEvent" where
  "eventOfOrder x uid key ts = \<lparr>oc_OrderID = ord_ID x, oc_UserID = uid, oc_Status = ord_Status x,
     oc_TotalCents = ord_TotalCents x, oc_PaymentStatus = ord_PaymentStatus x, oc_CorrelationID = key,
     oc_OccurredAt = fmtRFC3339 ts\<rparr>"

text \<open>A placed order adds its event behind the pending ones.\<close>

lemma placed_event:
  assumes "pgEcomInv s" and "pgOutboxInv s" and "trimSpace key = key"
    and "pgEcom_CreateOrder env uid key inp charge ts (s, w) = (Inr x, s', w')"
    and "\<not> (\<exists>r \<in> set (mvals (t_idem (pg_tables s))). hasKey uid key r)"
  obtains n payload where "pe_jsonb env (pe_marshal env (eventOfOrder x uid key ts)) = Some payload" "0 < ord_ID x"
    "orderByID (t_outbox (pg_tables s')) = orderByID (t_outbox (pg_tables s)) @ [(n, newOutboxRow (Some payload) (ord_ID x) key ts n)]"
    "t_outbox (pg_tables s') = mput n (newOutboxRow (Some payload) (ord_ID x) key ts n) (t_outbox (pg_tables s))"
    "pgOutboxInv s'"
  using assms(1,4,3)
proof (cases rule: pgEcom_order_cases)
  case (replay r oid)
  then show ?thesis using assms(5) by blast
next
  case (placed s0 s1 tot items pay ef)
  have x: "x = orderOfRow (ef_row ef) items (Inr (newPaymentRow (ef_id ef) pay tot ts 0))"
    by (rule placed_result [OF placed(3,4,7,8)])
  have row: "ef_row ef = newOrderRow uid (statusOf pay) tot key ts (ef_id ef)"
    and event: "pe_jsonb env (pe_marshal env (orderEvent (ef_id ef) uid (statusOf pay) tot pay key ts)) = Some (ef_payload ef)"
    and n: "ef_eventID ef = seqVal (pg_seqs s) ''outbox_events'' + 1"
    and outbox: "t_outbox (pg_tables s') = mput (ef_eventID ef)
        (newOutboxRow (Some (ef_payload ef)) (ef_id ef) key ts (ef_eventID ef)) (t_outbox (pg_tables s))"
    and pos: "ef_id ef = seqVal (pg_seqs s) ''orders'' + 1"
    using placed(7) keyReserved_ok(4,7) [OF placed(4,3)] placed(1,2) unfolding orderWritten_def by auto
  have xs: "ord_ID x = ef_id ef" "eventOfOrder x uid key ts = orderEvent (ef_id ef) uid (statusOf pay) tot pay key ts"
    using x row by (simp_all add: orderOfRow_def newOrderRow_def newPaymentRow_def eventOfOrder_def orderEvent_def)
  have oOK: "orderTablesOK (pg_tables s) (pg_seqs s)" "orderTablesOK (pg_tables s') (pg_seqs s')"
    using pgEcomInv_parts(1) assms(1) placed(9) by blast+
  have "0 < ef_id ef" using oOK(1) pos by (simp add: orderTablesOK_def tableOK_def)
  moreover have "orderByID (t_outbox (pg_tables s')) = orderByID (t_outbox (pg_tables s)) @
      [(ef_eventID ef, newOutboxRow (Some (ef_payload ef)) (ef_id ef) key ts (ef_eventID ef))]"
    unfolding outbox n using oOK(1) by (intro orderByID_insert) (simp add: orderTablesOK_def)
  moreover have "pgOutboxInv s'"
    using oOK(2) assms(2) outbox by (auto simp: pgOutboxInv_def orderTablesOK_def newOutboxRow_def)
  ultimately show ?thesis using that [of "ef_payload ef" "ef_eventID ef"] event outbox xs by simp
qed

lemma pendingEvents_snoc:
  assumes "orderByID (t_outbox t') = orderByID (t_outbox t) @ [(n, row)]" and "dueRow now row"
    and "length (pendingEvents bound now t) < nat bound"
  shows "pendingEvents bound now t' = pendingEvents bound now t @ [ob_event row]"
  using assms by (simp add: pendingEvents_def min_def split: if_splits)

text \<open>
  C5: a placed order reaches the projection. Place an order on PostgreSQL under a fresh key; then let
  the publisher process run a round and the consumer process run a round, on a database and a
  Redis that serve every command, with the settings of the two binaries and a consumer group that
  had read everything. When fewer than a hundred events were due before, and they and the event of
  the order decode, both processes end only because they are cancelled; the outbox event of the
  order is published, the group has read everything again, and the projection of the order shows
  the payment status and the total that were reported to the customer.
\<close>

theorem placed_order_projected:
  assumes "pgEcomInv s" and "pgOutboxInv s" and "trimSpace key = key"
    and order: "pgEcom_CreateOrder env uid key inp charge ts (s, w) = (Inr x, s', w')" "pg_faults s' = []"
    and fresh: "\<not> (\<exists>r \<in> set (mvals (t_idem (pg_tables s))). hasKey uid key r)"
    and up: "redisUp client entriesOf deliveredOf" "pipeConfigured px client"
    and read: "deliveredOf c (pipeGetenv px ''EVENT_STREAM'' ''orders.events'')
         (pipeGetenv px ''EVENT_CONSUMER_GROUP'' ''orders-consumers'')
       = length (entriesOf c (pipeGetenv px ''EVENT_STREAM'' ''orders.events''))"
    and fit: "\<And>i row. map_of (t_outbox (pg_tables s)) i = Some row \<Longrightarrow> in32 (oe_Attempts (ob_event row) + 1)"
    and due: "pgTime ts \<le> pgTime now" "length (pendingEvents 200 now (pg_tables s)) < 100"
    and dec: "\<And>ev. ev \<in> set (pendingEvents 200 now (pg_tables s)) \<Longrightarrow> decodable unmarshal (oe_Payload ev)"
    and json: "\<And>p. pe_jsonb env (pe_marshal env (eventOfOrder x uid key ts)) = Some p \<Longrightarrow>
       unmarshal p = Inr (eventOfOrder x uid key ts)"
  shows "\<exists>s1 c1 s2 c2 n row proj.
     runPublisher px [(now, nowOf, True)] (s', c) = (Some (Some ''context canceled''), s1, c1) \<and>
     runConsumer px jsonb unmarshal [(nowOf2, True)] (s1, c1) = (Some ''context canceled'', s2, c2) \<and>
     map_of (t_outbox (pg_tables s2)) n = Some row \<and> bm_Key (messageOf (ob_event row)) = ''order:'' @ fmtD (ord_ID x) \<and> ob_status row = ''published'' \<and>
     deliveredOf c2 (pipeGetenv px ''EVENT_STREAM'' ''orders.events'')
         (pipeGetenv px ''EVENT_CONSUMER_GROUP'' ''orders-consumers'')
       = length (entriesOf c2 (pipeGetenv px ''EVENT_STREAM'' ''orders.events'')) \<and>
     map_of (t_projection (pg_tables s2)) (ord_ID x) = Some proj \<and>
     jrow_PaymentStatus proj = ord_PaymentStatus x \<and> jrow_TotalCents proj = ord_TotalCents x"
proof -
  obtain n payload where ev: "pe_jsonb env (pe_marshal env (eventOfOrder x uid key ts)) = Some payload" "0 < ord_ID x"
    and rows: "orderByID (t_outbox (pg_tables s')) = orderByID (t_outbox (pg_tables s)) @ [(n, newOutboxRow (Some payload) (ord_ID x) key ts n)]"
    and outbox: "t_outbox (pg_tables s') = mput n (newOutboxRow (Some payload) (ord_ID x) key ts n) (t_outbox (pg_tables s))"
    and inv: "pgOutboxInv s'"
    by (rule placed_event [OF assms(1-3) order(1) fresh])
  define new where "new = newOutboxRow (Some payload) (ord_ID x) key ts n"
  define evs where "evs = pendingEvents 200 now (pg_tables s')"
  have "dueRow now new" using due(1) by (simp add: dueRow_def newOutboxRow_def new_def)
  then have evs: "evs = pendingEvents 200 now (pg_tables s) @ [ob_event new]"
    unfolding evs_def using rows due(2) by (intro pendingEvents_snoc) (simp_all add: new_def)
  have fit': "\<forall>i row. map_of (t_outbox (pg_tables s')) i = Some row \<longrightarrow> in32 (oe_Attempts (ob_event row) + 1)"
    using fit outbox by (auto simp: newOutboxRow_def in32_def)
  have dec': "\<forall>ev \<in> set evs. decodable unmarshal (oe_Payload ev)"
    using dec json [OF ev(1)] ev(2) by (auto simp: evs decodable_def newOutboxRow_def new_def eventOfOrder_def)
  have "length evs \<le> 100" using due(2) evs by simp
  from pipeline_round [where client = client and entriesOf = entriesOf and deliveredOf = deliveredOf and px = px and s = s'
      and evs = evs and now = now and unmarshal = unmarshal and c = c and nowOf = nowOf and jsonb = jsonb and ?nowOf2.0 = nowOf2, OF up inv order(2) fit' evs_def this dec' read]
  obtain s1 c1 s2 c2 where run: "runPublisher px [(now, nowOf, True)] (s', c) = (Some (Some ''context canceled''), s1, c1)"
      "runConsumer px jsonb unmarshal [(nowOf2, True)] (s1, c1) = (Some ''context canceled'', s2, c2)"
    and pubd: "\<forall>ev \<in> set evs. \<exists>row'. map_of (t_outbox (pg_tables s2)) (oe_ID ev) = Some row' \<and> ob_status row' = ''published'' \<and>
       messageOf (ob_event row') = messageOf ev"
    and proj: "\<forall>i. projectedAs (map_of (t_projection (pg_tables s')) i) (lastEvent i (eventsOf unmarshal (map oe_Payload evs)))
        (map_of (t_projection (pg_tables s2)) i)"
    and del: "deliveredOf c2 (pipeGetenv px ''EVENT_STREAM'' ''orders.events'')
         (pipeGetenv px ''EVENT_CONSUMER_GROUP'' ''orders-consumers'')
       = length (entriesOf c2 (pipeGetenv px ''EVENT_STREAM'' ''orders.events''))"
    by blast
  have "lastEvent (ord_ID x) (eventsOf unmarshal (map oe_Payload evs)) = Some (eventOfOrder x uid key ts)"
    using json [OF ev(1)] by (simp add: evs eventsOf_def lastEvent_snoc new_def newOutboxRow_def)
      (simp add: eventOfOrder_def)
  with proj [rule_format, of "ord_ID x"] obtain row where
    "map_of (t_projection (pg_tables s2)) (ord_ID x) = Some row" "jrow_PaymentStatus row = ord_PaymentStatus x"
    "jrow_TotalCents row = ord_TotalCents x"
    by (auto simp: projectedAs_def eventOfOrder_def split: option.splits)
  moreover obtain row' where "map_of (t_outbox (pg_tables s2)) (oe_ID (ob_event new)) = Some row'" "ob_status row' = ''published''"
    "messageOf (ob_event row') = messageOf (ob_event new)"
    using pubd evs by auto
  moreover from this(3) have "bm_Key (messageOf (ob_event row')) = ''order:'' @ fmtD (ord_ID x)"
    by (simp add: messageOf_def new_def newOutboxRow_def)
  ultimately show ?thesis using run del by blast
qed

section \<open>Failures\<close>

text \<open>
  A single failed read ends the consumer process, whatever rounds would follow, and \<open>main\<close> reports
  it unless the context was cancelled. Nothing in the repository starts the process again.
\<close>

lemma read_error_ends_consumer:
  assumes "bc_Read broker (cc_Stream cfg) (cc_Group cfg) (cc_ConsumerName cfg) (cc_ReadCount cfg) (cc_BlockTimeout cfg) b
     = (Inl e, b')" and "\<not> canceled e"
  shows "consumerRun cfg broker dlq handle ((nowOf, cancelled) # rounds) (att, b, d) = (Some e, att, b', d)"
    and "pipeMain ''event consumer'' canceled (fst (consumerRun cfg broker dlq handle ((nowOf, cancelled) # rounds) (att, b, d)))
       = Some (''event consumer error: '' @ e)"
  using assms by (simp_all add: consumerRunOnce_def pipeMain_def)

section \<open>Witnesses\<close>

lemma demo_redis_up: "redisUp demoRedis demoEntries demoDelivered"
  unfolding redisUp_def using demo_stream_laws
  by (auto simp: demoRedis_def Let_def split: if_splits)

definition demoPipe :: "demoStreams pipeEnv" where
  "demoPipe = \<lparr>px_Getenv = (\<lambda>key. if key \<in> {''DATABASE_URL'', ''REDIS_ADDR''} then ''x'' else ''''),
     px_sqlOpen = (\<lambda>url. None), px_redis = (\<lambda>addr pw n. demoRedis)\<rparr>"

theorem placed_order_projected_witness:
  "\<exists>s1 c1 s2 c2 proj.
     runPublisher demoPipe [(5000, \<lambda>n. 5000, True)] (demoPgOrdered, (\<lambda>_. [], \<lambda>_ _. 0)) = (Some (Some ''context canceled''), s1, c1) \<and>
     runConsumer demoPipe Some (\<lambda>p. Inr (eventOfOrder demoOrder 1 ''k'' 0)) [(\<lambda>n. (6000, 6000), True)] (s1, c1)
       = (Some ''context canceled'', s2, c2) \<and>
     map_of (t_projection (pg_tables s2)) 1 = Some proj \<and> jrow_PaymentStatus proj = ''paid'' \<and> jrow_TotalCents proj = 10"
proof -
  let ?c = "(\<lambda>_. [], \<lambda>_ _. 0) :: demoStreams"
  have fresh: "\<not> (\<exists>r \<in> set (mvals (t_idem (pg_tables (demoPg [])))). hasKey 1 ''k'' r)"
    and inv: "pgOutboxInv (demoPg [])" and rows: "t_outbox (pg_tables (demoPg [])) = []"
    by (simp_all add: demoPg_def emptyTables_def pgOutboxInv_def tableOK_def seqVal_def maxInt64_def)
  have none: "pendingEvents 200 5000 (pg_tables (demoPg [])) = []" by (simp add: pendingEvents_def rows orderByID_def)
  have faults: "pg_faults demoPgOrdered = []" by code_simp
  have conf: "pipeConfigured demoPipe demoRedis" by (simp add: pipeConfigured_def demoPipe_def)
  have read: "demoDelivered ?c a b = length (demoEntries ?c a)" for a b by (simp add: demoDelivered_def)
  show ?thesis
    using placed_order_projected [where now = 5000 and nowOf = "\<lambda>n. 5000" and ?nowOf2.0 = "\<lambda>n. (6000, 6000)"
        and unmarshal = "\<lambda>p. Inr (eventOfOrder demoOrder 1 ''k'' 0)" and jsonb = Some,
        OF demoPg_inv inv demo_key demo_pg_order faults fresh demo_redis_up conf read]
    by (auto simp: none rows pgTime_def demoOrder_def)
qed

end
