(* ===== verification/App.thy ===== *)
theory App
  imports Files Shortener Tasks Ecommerce Chat Metrics
begin

text \<open>
  The server as a whole: the route table of \<open>NewHandlerWithRepositories\<close> in
  \<open>internal/httpapp/handler.go\<close> with its middlewares, the \<open>Hijack\<close> method of the status recorder, and
  \<open>cmd/app/main.go\<close>, which puts the metrics collector around it.

  \<open>http.ServeMux\<close> is modelled for the patterns of the table: a method and literal or wildcard
  segments, \<open>GET\<close> matching \<open>HEAD\<close> as well, the more specific pattern winning. Its own 404 and 405
  answers have a status only; request paths are clean (the mux redirects others). The components keep their state in one repository state \<open>'r\<close>: the
  PostgreSQL handler passes one repository for all of them, the in-memory handler four.
\<close>

section \<open>Wiring\<close>

record ('r, 'b, 'p) appConfig =
  ac_tasks :: "'r taskRepository"
  ac_short :: "'r shortURLRepository"
  ac_files :: "'r fileRepository"
  ac_ecom :: "('r, 'p) ecommerceRepository"
  ac_storage :: "'b blobStorage"
  ac_charge :: "'p paymentProvider"
  ac_authEnv :: authEnv
  ac_shortEnv :: shortEnv
  ac_fileEnv :: fileEnv

record ('r, 'b, 'p) appState =
  app_auth :: authAPI
  app_repo :: 'r
  app_blobs :: 'b
  app_pay :: 'p

datatype appPayload =
    PInfo infoResponse | PAuth authPayload | PTask taskPayload | PShort shortURLResponse
  | PEcom ecomPayload | PFile fileUploadResponse

text \<open>What a request brings besides its header: the clock, randomness and the decoded body.\<close>

record appInput =
  in_t0 :: time
  in_t1 :: time
  in_token :: "string + string"
  in_random :: "string + nat list"
  in_signup :: "signupRequest jsonBody"
  in_login :: "loginRequest jsonBody"
  in_refresh :: "refreshRequest jsonBody"
  in_task :: "taskInput jsonBody"
  in_short :: "createShortURLInput jsonBody"
  in_product :: "createProductInput jsonBody"
  in_order :: "createOrderInput jsonBody"
  in_form :: multipartForm
  in_upgradeOK :: bool

definition mapRes :: "('d \<Rightarrow> 'e) \<Rightarrow> 'd response \<Rightarrow> 'e response" where
  "mapRes f res = \<lparr>res_status = res_status res, res_headers = res_headers res,
     res_body = map_option (\<lambda>env. \<lparr>env_Data = map_option f (env_Data env), env_Error = env_Error env,
        env_RequestID = env_RequestID env\<rparr>) (res_body res)\<rparr>"

definition onRepo :: "('d \<Rightarrow> appPayload) \<Rightarrow> ('r, 'd) handler \<Rightarrow> (('r, 'b, 'p) appState, appPayload) handler" where
  "onRepo f h st r = (let (res, s) = h (app_repo st) r in (mapRes f res, st\<lparr>app_repo := s\<rparr>))"

definition onAuth :: "(authAPI, authPayload) handler \<Rightarrow> (('r, 'b, 'p) appState, appPayload) handler" where
  "onAuth h st r = (let (res, a) = h (app_auth st) r in (mapRes PAuth res, st\<lparr>app_auth := a\<rparr>))"

definition onOrder :: "('r \<times> 'p, ecomPayload) handler \<Rightarrow> (('r, 'b, 'p) appState, appPayload) handler" where
  "onOrder h st r = (let (res, s, w) = h (app_repo st, app_pay st) r
     in (mapRes PEcom res, st\<lparr>app_repo := s, app_pay := w\<rparr>))"

definition onFiles :: "('r \<times> 'b, fileUploadResponse) handler \<Rightarrow> (('r, 'b, 'p) appState, appPayload) handler" where
  "onFiles h st r = (let (res, s, b) = h (app_repo st, app_blobs st) r
     in (mapRes PFile res, st\<lparr>app_repo := s, app_blobs := b\<rparr>))"

section \<open>Response writers\<close>

text \<open>
  The writers a handler may hold: the connection of \<open>net/http\<close>, the recorder of \<open>httpapp\<close>, which has a
  \<open>Hijack\<close> method, and the recorder of \<open>metricscollector\<close>, which has none. \<open>hijack\<close> is the error of
  the call, \<open>None\<close> for success. The WebSocket upgrader answers 400 to a request that is no
  upgrade, 500 when the connection cannot be taken over, and 101 otherwise.
\<close>

datatype responseWriter = NetConn | HttpRecorder responseWriter | MetricsRecorder responseWriter

fun implementsHijacker :: "responseWriter \<Rightarrow> bool" where
  "implementsHijacker NetConn = True"
| "implementsHijacker (HttpRecorder w) = True"
| "implementsHijacker (MetricsRecorder w) = False"

fun hijack :: "responseWriter \<Rightarrow> string option" where
  "hijack NetConn = None"
| "hijack (HttpRecorder w) = (if \<not> implementsHijacker w then Some ''hijacker not supported'' else hijack w)"
| "hijack (MetricsRecorder w) = Some ''response does not implement http.Hijacker''"

definition upgradeChat :: "responseWriter \<Rightarrow> bool \<Rightarrow> appPayload response" where
  "upgradeChat w ok = (if \<not> ok then respondStatus 400
     else if \<not> implementsHijacker w \<or> hijack w \<noteq> None then respondStatus 500 else respondStatus 101)"

section \<open>Routes\<close>

datatype route = RHello | RHealth | RTaskList | RTaskCreate | RTaskGet | RTaskUpdate | RTaskDelete
  | RShortCreate | RShortGet | RProductCreate | RProductList | ROrderCreate | ROrderGet
  | RUpload | RFileGet | RChat | RSignup | RLogin | RRefresh | RMe | RRedirect

datatype pathSeg = Lit string | Wild string

definition routeTable :: "(string \<times> pathSeg list \<times> route) list" where
  "routeTable =
    [(''GET'', [Lit ''hello''], RHello), (''GET'', [Lit ''health''], RHealth),
     (''GET'', [Lit ''tasks''], RTaskList), (''POST'', [Lit ''tasks''], RTaskCreate),
     (''GET'', [Lit ''tasks'', Wild ''id''], RTaskGet), (''PUT'', [Lit ''tasks'', Wild ''id''], RTaskUpdate),
     (''DELETE'', [Lit ''tasks'', Wild ''id''], RTaskDelete),
     (''POST'', [Lit ''short-urls''], RShortCreate), (''GET'', [Lit ''short-urls'', Wild ''code''], RShortGet),
     (''POST'', [Lit ''products''], RProductCreate), (''GET'', [Lit ''products''], RProductList),
     (''POST'', [Lit ''orders''], ROrderCreate), (''GET'', [Lit ''orders'', Wild ''id''], ROrderGet),
     (''POST'', [Lit ''files''], RUpload), (''GET'', [Lit ''files'', Wild ''id''], RFileGet),
     (''GET'', [Lit ''ws'', Lit ''chat''], RChat),
     (''POST'', [Lit ''auth'', Lit ''signup''], RSignup), (''POST'', [Lit ''auth'', Lit ''login''], RLogin),
     (''POST'', [Lit ''auth'', Lit ''refresh''], RRefresh), (''GET'', [Lit ''auth'', Lit ''me''], RMe),
     (''GET'', [Wild ''code''], RRedirect)]"

fun matchSegs :: "pathSeg list \<Rightarrow> string list \<Rightarrow> (string, string) gomap option" where
  "matchSegs [] [] = Some []"
| "matchSegs (Lit l # ps) (s # ss) = (if s = l then matchSegs ps ss else None)"
| "matchSegs (Wild n # ps) (s # ss) = (if s = '''' then None else map_option (\<lambda>m. (n, s) # m) (matchSegs ps ss))"
| "matchSegs _ _ = None"

definition matchMethod :: "string \<Rightarrow> string \<Rightarrow> bool" where
  "matchMethod pat method \<longleftrightarrow> method = pat \<or> (pat = ''GET'' \<and> method = ''HEAD'')"

definition matching :: "string \<Rightarrow> string list \<Rightarrow> (route \<times> (string, string) gomap) list" where
  "matching method segs = List.map_filter (\<lambda>(m, ps, rt). if matchMethod m method
     then map_option (Pair rt) (matchSegs ps segs) else None) routeTable"

text \<open>Of two matching patterns the one without a wildcard is the more specific; others do not overlap.\<close>

definition muxRoute :: "string \<Rightarrow> string list \<Rightarrow> (route \<times> (string, string) gomap) option" where
  "muxRoute method segs = (let ms = matching method segs in
     case find (\<lambda>m. snd m = []) ms of Some m \<Rightarrow> Some m | None \<Rightarrow> (case ms of [] \<Rightarrow> None | m # _ \<Rightarrow> Some m))"

definition pathSegs :: "string \<Rightarrow> string list" where
  "pathSegs p = splitOn (CHR ''/'') (drop 1 p)"

definition dispatch ::
  "('r, 'b, 'p) appConfig \<Rightarrow> appInput \<Rightarrow> responseWriter \<Rightarrow> route \<Rightarrow> (('r, 'b, 'p) appState, appPayload) handler" where
  "dispatch cfg inp w rt st r =
     (let authed = authMiddleware (ac_authEnv cfg) (in_t0 inp) in case rt of
        RHello \<Rightarrow> (mapRes PInfo (helloHandler r), st)
      | RHealth \<Rightarrow> (mapRes PInfo (healthHandler (in_t0 inp) r), st)
      | RTaskList \<Rightarrow> authed (onRepo PTask (listTasks (ac_tasks cfg))) st r
      | RTaskCreate \<Rightarrow> authed (onRepo PTask (createTask (ac_tasks cfg) (in_t0 inp) (in_task inp))) st r
      | RTaskGet \<Rightarrow> authed (onRepo PTask (getTask (ac_tasks cfg))) st r
      | RTaskUpdate \<Rightarrow> authed (onRepo PTask (updateTask (ac_tasks cfg) (in_t0 inp) (in_task inp))) st r
      | RTaskDelete \<Rightarrow> authed (onRepo PTask (deleteTask (ac_tasks cfg))) st r
      | RShortCreate \<Rightarrow> onRepo PShort (createShortURL (ac_shortEnv cfg) (ac_short cfg) (in_t0 inp) (in_t1 inp) (in_short inp)) st r
      | RShortGet \<Rightarrow> onRepo PShort (getShortURL (ac_short cfg)) st r
      | RProductCreate \<Rightarrow> authed (onRepo PEcom (createProduct (ac_ecom cfg) (in_t0 inp) (in_product inp))) st r
      | RProductList \<Rightarrow> onRepo PEcom (listProducts (ac_ecom cfg)) st r
      | ROrderCreate \<Rightarrow> authed (onOrder (createOrder (ac_ecom cfg) (ac_charge cfg) (in_t0 inp) (in_order inp))) st r
      | ROrderGet \<Rightarrow> authed (onRepo PEcom (getOrder (ac_ecom cfg))) st r
      | RUpload \<Rightarrow> authed (onFiles (upload (ac_fileEnv cfg) (ac_files cfg) (ac_storage cfg) (in_t0 inp) (in_t1 inp)
            (in_random inp) (in_form inp))) st r
      | RFileGet \<Rightarrow> authed (onRepo PFile (getFileMetadata (ac_files cfg))) st r
      | RChat \<Rightarrow> (upgradeChat w (in_upgradeOK inp), st)
      | RSignup \<Rightarrow> onAuth (signup (ac_authEnv cfg) (in_t0 inp) (in_t1 inp) (in_token inp) (in_signup inp)) st r
      | RLogin \<Rightarrow> onAuth (login (ac_authEnv cfg) (in_t0 inp) (in_token inp) (in_login inp)) st r
      | RRefresh \<Rightarrow> onAuth (refresh (ac_authEnv cfg) (in_t0 inp) (in_t1 inp) (in_token inp) (in_refresh inp)) st r
      | RMe \<Rightarrow> authed (onAuth me) st r
      | RRedirect \<Rightarrow> onRepo PShort (redirectByCode (ac_shortEnv cfg) (ac_short cfg)) st r)"

text \<open>404 when no pattern has this path, 405 when only other methods have it.\<close>

definition muxServe ::
  "('r, 'b, 'p) appConfig \<Rightarrow> appInput \<Rightarrow> responseWriter \<Rightarrow> (('r, 'b, 'p) appState, appPayload) handler" where
  "muxServe cfg inp w st r = (case muxRoute (req_Method r) (pathSegs (req_Path r)) of
       Some (rt, vals) \<Rightarrow> dispatch cfg inp w rt st (r\<lparr>req_PathValue := vals\<rparr>)
     | None \<Rightarrow> (if list_all (\<lambda>(m, ps, rt). matchSegs ps (pathSegs (req_Path r)) = None) routeTable
                then respondStatus 404 else respondStatus 405, st))"

text \<open>The handler \<open>NewHandlerWithRepositories\<close> returns, on a given writer, without its log line.\<close>

definition appHandler ::
  "('r, 'b, 'p) appConfig \<Rightarrow> appInput \<Rightarrow> responseWriter \<Rightarrow> (uint64 \<times> ('r, 'b, 'p) appState, appPayload) handler" where
  "appHandler cfg inp w s r =
     (let (res, s', entry) = serveChain (in_t0 inp) (in_t1 inp) (muxServe cfg inp (HttpRecorder w)) s r in (res, s'))"

section \<open>The server binary\<close>

datatype 'f rootResponse = AppResponse "appPayload response" | MetricsResponse "'f metricsResponse" | MuxResponse nat

text \<open>The mux of the collector, and the mux of the binary in front of both.\<close>

definition metricsMux ::
  "('f, 's) metricsStore \<Rightarrow> string + metricEvent \<Rightarrow> metricsService \<times> 's \<Rightarrow> request \<Rightarrow> 'f rootResponse \<times> metricsService \<times> 's" where
  "metricsMux store body sw r =
     (let (s, w) = sw in
      if pathSegs (req_Path r) = [''metrics'', ''events'']
      then (if req_Method r = ''POST'' then (let (res, s1) = postMetricEvent body s in (MetricsResponse res, s1, w))
            else (MuxResponse 405, s, w))
      else if pathSegs (req_Path r) = [''metrics'']
      then (if matchMethod ''GET'' (req_Method r) then (let (res, w1) = getMetrics store w in (MetricsResponse res, s, w1))
            else (MuxResponse 405, s, w))
      else (MuxResponse 404, s, w))"

definition rootServe ::
  "('f, 's) metricsStore \<Rightarrow> ('r, 'b, 'p) appConfig \<Rightarrow> appInput \<Rightarrow> string + metricEvent
     \<Rightarrow> metricsService \<times> 's \<times> uint64 \<times> ('r, 'b, 'p) appState \<Rightarrow> request
     \<Rightarrow> 'f rootResponse \<times> metricsService \<times> 's \<times> uint64 \<times> ('r, 'b, 'p) appState" where
  "rootServe store cfg inp body S r =
     (let (svc, w, app) = S in
      if take 1 (pathSegs (req_Path r)) = [''metrics'']
      then (let (res, svc1, w1) = metricsMux store body (svc, w) r in (res, svc1, w1, app))
      else (let (res, svc1, app1) = metricsMiddleware (in_t0 inp) (in_t1 inp) (appHandler cfg inp (MetricsRecorder NetConn)) (svc, app) r
            in (AppResponse res, svc1, w, app1)))"

text \<open>
  \<open>run\<close>: the choice of the repositories and of the metrics store, the wait for the listener or a
  signal, and the deferred calls in the order they run. \<open>newPostgres\<close> is the error of the
  PostgreSQL handler; a signal shuts the server down and then waits for the listener.
\<close>

datatype serveErr = ErrServerClosed | ServeError string
datatype serverEvent = ListenerReturned "serveErr option" | SignalReceived "string option" "serveErr option"
datatype cleanup = StopCollector | CloseMetricsStore | CloseDatabase

definition listenerError :: "serveErr option \<Rightarrow> string option" where
  "listenerError e = (case e of Some (ServeError x) \<Rightarrow> Some x | _ \<Rightarrow> None)"

definition runServer :: "string \<Rightarrow> string \<Rightarrow> (string \<Rightarrow> string option) \<Rightarrow> serverEvent \<Rightarrow> string option \<times> cleanup list" where
  "runServer databaseURL redisAddr newPostgres ev =
     (case (if databaseURL \<noteq> '''' then newPostgres databaseURL else None) of
        Some e \<Rightarrow> (Some e, [])
      | None \<Rightarrow>
          let db = (if databaseURL \<noteq> '''' then [CloseDatabase] else []);
              store = (if redisAddr \<noteq> '''' then [CloseMetricsStore] else []);
              res = (case ev of
                 ListenerReturned e \<Rightarrow> listenerError e
               | SignalReceived (Some e) _ \<Rightarrow> Some e
               | SignalReceived None e \<Rightarrow> listenerError e)
          in (res, [StopCollector] @ store @ db))"

section \<open>The in-memory server\<close>

record memoryRepos =
  mr_tasks :: memoryTaskRepository
  mr_short :: memoryShortURLRepository
  mr_files :: memoryFileRepository
  mr_ecom :: memoryEcommerceRepository

definition lensed :: "('s \<Rightarrow> 'a) \<Rightarrow> ('a \<Rightarrow> 's \<Rightarrow> 's) \<Rightarrow> ('a \<Rightarrow> 'x \<times> 'a) \<Rightarrow> 's \<Rightarrow> 'x \<times> 's" where
  "lensed get put f s = (let (x, a) = f (get s) in (x, put a s))"

definition memoryApp :: "'b blobStorage \<Rightarrow> authEnv \<Rightarrow> shortEnv \<Rightarrow> fileEnv \<Rightarrow> (memoryRepos, 'b, 'p) appConfig" where
  "memoryApp storage aenv senv fenv =
     (let onTasks = lensed mr_tasks (\<lambda>a s. s\<lparr>mr_tasks := a\<rparr>);
          onShort = lensed mr_short (\<lambda>a s. s\<lparr>mr_short := a\<rparr>)
      in \<lparr>ac_tasks = \<lparr>repo_List = lensed mr_tasks (\<lambda>a s. s\<lparr>mr_tasks := a\<rparr>) (repo_List memoryTaskRepo),
            repo_Create = (\<lambda>i t. onTasks (repo_Create memoryTaskRepo i t)), repo_Get = (\<lambda>i. onTasks (repo_Get memoryTaskRepo i)),
            repo_Update = (\<lambda>i x t. onTasks (repo_Update memoryTaskRepo i x t)),
            repo_Delete = (\<lambda>i. lensed mr_tasks (\<lambda>a s. s\<lparr>mr_tasks := a\<rparr>) (repo_Delete memoryTaskRepo i))\<rparr>,
          ac_short = \<lparr>sur_Create = (\<lambda>i t. onShort (sur_Create memoryShortRepo i t)), sur_Get = (\<lambda>c. onShort (sur_Get memoryShortRepo c))\<rparr>,
          ac_files = \<lparr>fr_CreateFile = (\<lambda>i t. lensed mr_files (\<lambda>a s. s\<lparr>mr_files := a\<rparr>) (fr_CreateFile memoryFileRepo i t)),
            fr_GetFile = (\<lambda>i. lensed mr_files (\<lambda>a s. s\<lparr>mr_files := a\<rparr>) (fr_GetFile memoryFileRepo i))\<rparr>,
          ac_ecom = \<lparr>er_CreateProduct = (\<lambda>i t. lensed mr_ecom (\<lambda>a s. s\<lparr>mr_ecom := a\<rparr>) (memEcom_CreateProduct i t)),
            er_ListProducts = lensed mr_ecom (\<lambda>a s. s\<lparr>mr_ecom := a\<rparr>) memEcom_ListProducts,
            er_CreateOrder = (\<lambda>u k i ch t sp. let (res, a, w) = memEcom_CreateOrder u k i ch t (mr_ecom (fst sp), snd sp)
               in (res, (fst sp)\<lparr>mr_ecom := a\<rparr>, w)),
            er_GetOrder = (\<lambda>i. lensed mr_ecom (\<lambda>a s. s\<lparr>mr_ecom := a\<rparr>) (memEcom_GetOrder i))\<rparr>,
          ac_storage = storage, ac_charge = mockCharge, ac_authEnv = aenv, ac_shortEnv = senv, ac_fileEnv = fenv\<rparr>)"

section \<open>Access control of the routes\<close>

definition hasToken :: "authEnv \<Rightarrow> time \<Rightarrow> request \<Rightarrow> bool" where
  "hasToken env now r \<longleftrightarrow> (case parseBearerToken (lookupStr (req_Header r) ''Authorization'') of
       Inl _ \<Rightarrow> False | Inr tok \<Rightarrow> (case validateAccessToken env now tok of Inl _ \<Rightarrow> False | Inr _ \<Rightarrow> True))"

definition publicRoutes :: "route list" where
  "publicRoutes = [RHello, RHealth, RShortCreate, RShortGet, RProductList, RChat, RSignup, RLogin, RRefresh, RRedirect]"

lemma authMiddleware_denied:
  "\<not> hasToken env now r \<Longrightarrow> \<exists>e. authMiddleware env now h s r = (respondErrorJSON r 401 e, s)"
  by (auto simp: hasToken_def authMiddleware_def split: sum.splits)

lemma hasToken_path [simp]: "hasToken env now (r\<lparr>req_PathValue := v\<rparr>) = hasToken env now r"
  by (simp add: hasToken_def)

lemma dispatch_denied:
  assumes "\<not> hasToken (ac_authEnv cfg) (in_t0 inp) r" and "rt \<notin> set publicRoutes"
  shows "\<exists>e. dispatch cfg inp w rt st r = (respondErrorJSON r 401 e, st)"
  using assms(2) by (cases rt) (simp_all add: publicRoutes_def dispatch_def authMiddleware_denied [OF assms(1)])

lemma dispatch_public_state:
  assumes "dispatch cfg inp w rt st r = (res, st')" and "rt \<in> set publicRoutes"
  shows "app_blobs st' = app_blobs st \<and> app_pay st' = app_pay st \<and>
     (app_auth st' \<noteq> app_auth st \<longrightarrow> rt \<in> {RSignup, RLogin, RRefresh}) \<and>
     (app_repo st' \<noteq> app_repo st \<longrightarrow> rt \<in> {RShortCreate, RShortGet, RProductList, RRedirect})"
  using assms by (auto simp: publicRoutes_def dispatch_def onRepo_def onAuth_def upgradeChat_def split: prod.splits)

text \<open>
  C11: only the public routes act without a token. Whatever a request asks for, if it carries no
  valid access token then either it matches a public route or nothing, or it is answered 401 and
  the accounts, repositories, blobs and payments are as before; and the public routes never touch
  blobs or payments, change accounts only by signup, login and refresh, and repositories only by the
  short URL routes and the product list.
\<close>

theorem protected_routes_need_token:
  assumes "\<not> hasToken (ac_authEnv cfg) (in_t0 inp) r"
    and "muxServe cfg inp w st r = (res, st')"
    and "muxRoute (req_Method r) (pathSegs (req_Path r)) = Some (rt, vals)"
  shows "(rt \<notin> set publicRoutes \<longrightarrow> res_status res = 401 \<and> st' = st) \<and>
     app_blobs st' = app_blobs st \<and> app_pay st' = app_pay st \<and>
     (app_auth st' \<noteq> app_auth st \<longrightarrow> rt \<in> {RSignup, RLogin, RRefresh}) \<and>
     (app_repo st' \<noteq> app_repo st \<longrightarrow> rt \<in> {RShortCreate, RShortGet, RProductList, RRedirect})"
proof -
  have run: "dispatch cfg inp w rt st (r\<lparr>req_PathValue := vals\<rparr>) = (res, st')"
    using assms(2,3) by (simp add: muxServe_def)
  show ?thesis
  proof (cases "rt \<in> set publicRoutes")
    case True
    then show ?thesis using dispatch_public_state [OF run] by blast
  next
    case False
    have "\<not> hasToken (ac_authEnv cfg) (in_t0 inp) (r\<lparr>req_PathValue := vals\<rparr>)" using assms(1) by simp
    from dispatch_denied [OF this False, of w st] run have "res_status res = 401" "st' = st" by auto
    then show ?thesis by simp
  qed
qed

section \<open>Short codes and the other routes\<close>


section \<open>Upgrades in the binary\<close>

lemma appHandler_status:
  assumes "\<And>v. fst (muxServe cfg inp (HttpRecorder w) st (r\<lparr>req_ctx := v\<rparr>)) = res"
  shows "res_status (fst (appHandler cfg inp w (seq, st) r)) = res_status res"
proof -
  have f: "muxServe cfg inp (HttpRecorder w) st (r\<lparr>req_ctx := v\<rparr>) =
      (res, snd (muxServe cfg inp (HttpRecorder w) st (r\<lparr>req_ctx := v\<rparr>)))" for v
    using assms by (metis prod.collapse)
  show ?thesis
    unfolding appHandler_def chain_defs by (auto split: prod.splits) (metis f prod.inject)+
qed

lemma chat_route:
  "pathSegs (req_Path r) = [''ws'', ''chat''] \<Longrightarrow> req_Method r = ''GET'' \<Longrightarrow>
     fst (muxServe cfg inp w st r) = upgradeChat w (in_upgradeOK inp)"
  by (simp add: muxServe_def muxRoute_def matching_def routeTable_def List.map_filter_def matchMethod_def dispatch_def)

text \<open>
  C20: the chat cannot be used through the server binary. On its own the handler upgrades a chat
  request. In the binary the metrics middleware hands it a recorder that is no \<open>http.Hijacker\<close>, so
  whatever the request, the state and the stores, \<open>GET /ws/chat\<close> is answered 400 or 500, never 101.
\<close>

theorem chat_upgrade_fails_in_binary:
  assumes "pathSegs (req_Path r) = [''ws'', ''chat'']" and "req_Method r = ''GET''"
  shows "(\<exists>res S'. rootServe store cfg inp body (svc, w, seq, st) r = (AppResponse res, S') \<and>
       res_status res = (if in_upgradeOK inp then 500 else 400)) \<and>
     res_status (fst (appHandler cfg inp NetConn (seq, st) r)) = (if in_upgradeOK inp then 101 else 400)"
proof
  have chat: "fst (muxServe cfg inp v st (r\<lparr>req_ctx := c\<rparr>)) = upgradeChat v (in_upgradeOK inp)" for v c
    by (rule chat_route) (simp_all add: assms)
  obtain res app' where a: "appHandler cfg inp (MetricsRecorder NetConn) (seq, st) r = (res, app')"
    by (metis prod.collapse)
  have "res_status res = (if in_upgradeOK inp then 500 else 400)"
    using appHandler_status [OF chat, of "MetricsRecorder NetConn" seq] a by (simp add: upgradeChat_def)
  with a show "\<exists>res S'. rootServe store cfg inp body (svc, w, seq, st) r = (AppResponse res, S') \<and>
       res_status res = (if in_upgradeOK inp then 500 else 400)"
    by (simp add: rootServe_def metricsMiddleware_def assms(1) split: prod.splits)
  show "res_status (fst (appHandler cfg inp NetConn (seq, st) r)) = (if in_upgradeOK inp then 101 else 400)"
    using appHandler_status [OF chat, of NetConn seq] by (simp add: upgradeChat_def)
qed

section \<open>Every request is numbered and metered\<close>

lemma metricsMux_own: "metricsMux store body sw r \<noteq> (AppResponse res, sw')"
  by (auto simp: metricsMux_def split: prod.splits if_splits)

text \<open>
  C13: the middlewares do their work around every route. A request outside \<open>/metrics\<close> is answered
  with a fresh request id in \<open>X-Request-ID\<close>, and while the collector runs and has room exactly one
  event is queued, with the method and path of the request, the status of the answer (200 when the
  handler wrote none) and the milliseconds it took; the store is not touched.
\<close>

theorem request_is_metered:
  assumes "rootServe store cfg inp body (svc, w, seq, st) r = (AppResponse res, svc', w', seq', st')"
    and "mx_started svc" and "int (length (mx_queue svc)) < mc_QueueSize (mx_cfg svc)" and "in_t0 inp \<le> in_t1 inp"
  shows "map_of (res_headers res) ''X-Request-ID'' = Some (fst (newRequestID seq)) \<and> seq' = seq + 1 \<and> w' = w \<and>
     svc' = svc\<lparr>mx_queue := mx_queue svc @ [\<lparr>ev_Source = ''http'', ev_Name = req_Method r @ '':'' @ req_Path r,
       ev_Status = fmtD (int (if res_status res = 0 then 200 else res_status res)),
       ev_DurationMS = (in_t1 inp - in_t0 inp) div millisecond\<rparr>]\<rparr>"
proof -
  let ?h = "serveChain (in_t0 inp) (in_t1 inp) (muxServe cfg inp (HttpRecorder (MetricsRecorder NetConn)))"
  obtain entry where h: "?h (seq, st) r = (res, (seq', st'), entry)"
    and ing: "svc' = snd (metricsIngest \<lparr>ev_Source = ''http'', ev_Name = req_Method r @ '':'' @ req_Path r,
       ev_Status = fmtD (int (mwStatusCode (res_status res))), ev_DurationMS = (in_t1 inp - in_t0 inp) div millisecond\<rparr> svc)"
    and w: "w' = w"
    using assms(1) by (auto simp: rootServe_def metricsMiddleware_def appHandler_def metricsMux_own split: prod.splits if_splits)
  have "seq' = seq + 1" "map_of (res_headers res) ''X-Request-ID'' = Some (fst (newRequestID seq))"
    using serveChain_seq [of "in_t0 inp" "in_t1 inp" _ seq st r] serveChain_header [of "in_t0 inp" "in_t1 inp" _ seq st r]
    by (metis h fst_conv snd_conv)+
  moreover have "fmtD i \<noteq> ''''" for i by (simp add: fmtD_def fmtNat_nonempty)
  moreover have "0 \<le> (in_t1 inp - in_t0 inp) div millisecond"
    using assms(4) by (simp add: millisecond_def pos_imp_zdiv_nonneg_iff)
  ultimately show ?thesis
    using w assms(2,3) unfolding ing
    by (simp add: metricsIngest_def ingestCheck_def ingestSend_def mwStatusCode_def)
qed

section \<open>The shape of an answer\<close>

text \<open>
  An answer is either an envelope with data and a success status, or an envelope with an error and
  a status from 400 to 599, each with the request id of the request, or it has no envelope: a
  deletion, a redirect, a protocol switch, or an answer of the mux or the upgrader.
\<close>

definition answerOK :: "request \<Rightarrow> 'd response \<Rightarrow> bool" where
  "answerOK r res \<longleftrightarrow> (case res_body res of
       None \<Rightarrow> res_status res \<in> {101, 204, 302, 400, 404, 405, 500}
     | Some env \<Rightarrow> env_RequestID env = fst (requestIDFromContext (req_ctx r)) \<and>
         (env_Data env \<noteq> None \<and> env_Error env = None \<and> res_status res \<in> {200, 201} \<or>
          env_Data env = None \<and> env_Error env \<noteq> None \<and> 400 \<le> res_status res \<and> res_status res < 600))"

lemma answerOK_builders [simp]:
  "answerOK r (respondJSON r st d) \<longleftrightarrow> st \<in> {200, 201}"
  "answerOK r (respondErrorJSON r st e) \<longleftrightarrow> 400 \<le> st \<and> st < 600"
  "answerOK r (respondStatus st) \<longleftrightarrow> st \<in> {101, 204, 302, 400, 404, 405, 500}"
  "answerOK r (httpRedirect env r t)"
  by (auto simp: answerOK_def respondJSON_def respondErrorJSON_def respondStatus_def httpRedirect_def)

lemma answerOK_mapRes [simp]: "answerOK r (mapRes f res) = answerOK r res"
  by (cases "res_body res") (simp_all add: answerOK_def mapRes_def)

lemma answerOK_context [simp]:
  "answerOK (r\<lparr>req_ctx := withAuthPrincipal (req_ctx r) uid role\<rparr>) res = answerOK r res"
  "answerOK (r\<lparr>req_PathValue := vals\<rparr>) res = answerOK r res"
  by (simp_all add: answerOK_def requestIDFromContext_def withAuthPrincipal_def withAuthUserID_def cong: option.case_cong)

lemmas answer_defs = answerOK_builders authRequired_def taskDenied_def respondTaskNotFound_def
  respondTaskRepositoryError_def respondInternalServerError_def respondShortURLRepositoryError_def
  respondOrderError_def respondTokens_def badRequest_def internalError_def Let_def

lemma answers_auth:
  "answerOK r (fst (signup aenv t0 t1 tok bsu a r))" "answerOK r (fst (login aenv t0 tok blo a r))"
  "answerOK r (fst (refresh aenv t0 t1 tok brf a r))" "answerOK r (fst (me a r))"
  by (auto simp: signup_def login_def refresh_def me_def answer_defs split: sum.splits option.splits prod.splits)

lemma answers_tasks:
  "answerOK r (fst (listTasks repo s r))" "answerOK r (fst (createTask repo now body s r))"
  "answerOK r (fst (getTask repo s r))" "answerOK r (fst (updateTask repo now body s r))"
  "answerOK r (fst (deleteTask repo s r))"
  by (auto simp: listTasks_def createTask_def getTask_def updateTask_def deleteTask_def parseTaskID_def answer_defs
      split: sum.splits option.splits prod.splits taskError.splits if_splits)

lemma answers_short:
  "answerOK r (fst (createShortURL senv srepo t0 t1 sbody s r))" "answerOK r (fst (getShortURL srepo s r))"
  "answerOK r (fst (redirectByCode senv srepo s r))"
  by (auto simp: createShortURL_def getShortURL_def redirectByCode_def parseShortCodePathValue_def answer_defs
      split: sum.splits option.splits prod.splits shortURLError.splits if_splits)

lemma answers_files:
  "answerOK r (fst (upload fenv frepo storage t0 t1 rnd form sb r))" "answerOK r (fst (getFileMetadata frepo s r))"
  by (auto simp: upload_def storeUpload_def getFileMetadata_def answer_defs
      split: sum.splits option.splits prod.splits fileError.splits multipartForm.splits if_splits)

lemma answers_shop:
  "answerOK r (fst (createProduct erepo now pbody s r))" "answerOK r (fst (listProducts erepo s r))"
  "answerOK r (fst (createOrder erepo charge now obody sp r))" "answerOK r (fst (getOrder erepo s r))"
  by (auto simp: createProduct_def listProducts_def createOrder_def getOrder_def answer_defs
      split: sum.splits option.splits prod.splits ecomError.splits if_splits)

lemma answers_lifted:
  "answerOK r (fst (h1 (app_repo st) r)) \<Longrightarrow> answerOK r (fst (onRepo f h1 st r))"
  "answerOK r (fst (h2 (app_auth st) r)) \<Longrightarrow> answerOK r (fst (onAuth h2 st r))"
  "answerOK r (fst (h3 (app_repo st, app_pay st) r)) \<Longrightarrow> answerOK r (fst (onOrder h3 st r))"
  "answerOK r (fst (h4 (app_repo st, app_blobs st) r)) \<Longrightarrow> answerOK r (fst (onFiles h4 st r))"
  by (auto simp: onRepo_def onAuth_def onOrder_def onFiles_def case_prod_unfold Let_def)

lemma answers_authed:
  assumes "\<And>q. answerOK q (fst (h s q))"
  shows "answerOK r (fst (authMiddleware aenv now h s r))"
proof -
  have "answerOK r (fst (h s (r\<lparr>req_ctx := withAuthPrincipal (req_ctx r) uid role\<rparr>)))" for uid role
    using assms [of "r\<lparr>req_ctx := withAuthPrincipal (req_ctx r) uid role\<rparr>"] by simp
  then show ?thesis by (auto simp: authMiddleware_def split: sum.splits)
qed

lemma answers_dispatch: "answerOK r (fst (dispatch cfg inp w rt st r))"
  by (cases rt)
    (simp_all add: dispatch_def helloHandler_def healthHandler_def upgradeChat_def answers_authed answers_lifted
      answers_auth answers_tasks answers_short answers_files answers_shop)


section \<open>Witnesses\<close>

definition demoInput :: appInput where
  "demoInput = \<lparr>in_t0 = 0, in_t1 = 3 * millisecond, in_token = Inr ''t'', in_random = Inr [10],
     in_signup = okBody demoSignup, in_login = \<lparr>jb_first = Inl ''eof'', jb_second = DecodeEOF\<rparr>,
     in_refresh = \<lparr>jb_first = Inl ''eof'', jb_second = DecodeEOF\<rparr>, in_task = okBody demoTaskInput,
     in_short = okBody demoShortInput, in_product = \<lparr>jb_first = Inl ''eof'', jb_second = DecodeEOF\<rparr>,
     in_order = okBody (demoLines [1]), in_form = demoForm, in_upgradeOK = True\<rparr>"

definition demoBlobs :: "unit blobStorage" where
  "demoBlobs = \<lparr>bs_Provider = ''none'', bs_Put = (\<lambda>key body ct b. (Inl ''disabled'', '''', b))\<rparr>"

definition demoApp :: "(memoryRepos, unit, unit) appConfig" where
  "demoApp = memoryApp demoBlobs demoEnv demoShortEnv demoFileEnv"

definition demoAppState :: "(memoryRepos, unit, unit) appState" where
  "demoAppState = \<lparr>app_auth = newAuthAPI, app_repo = \<lparr>mr_tasks = newMemoryTaskRepository,
     mr_short = newMemoryShortURLRepository, mr_files = newMemoryFileRepository,
     mr_ecom = newMemoryEcommerceRepository\<rparr>, app_blobs = (), app_pay = ()\<rparr>"

definition demoHTTP :: "string \<Rightarrow> string \<Rightarrow> request" where
  "demoHTTP method path = demoRequest\<lparr>req_Method := method, req_Path := path\<rparr>"

definition demoCollector :: metricsService where
  "demoCollector = snd (metricsStart (newMetrics \<lparr>mc_Workers = 2, mc_QueueSize = 1024, mc_FlushInterval = second\<rparr>))"

theorem protected_routes_need_token_witness:
  "res_status (fst (muxServe demoApp demoInput NetConn demoAppState (demoHTTP ''POST'' ''/orders''))) = 401"
proof -
  have route: "muxRoute (req_Method (demoHTTP ''POST'' ''/orders'')) (pathSegs (req_Path (demoHTTP ''POST'' ''/orders''))) =
      Some (ROrderCreate, [])" by code_simp
  have "\<not> hasToken (ac_authEnv demoApp) (in_t0 demoInput) (demoHTTP ''POST'' ''/orders'')"
    by (simp add: hasToken_def parseBearerToken_def lookupStr_def demoHTTP_def demoRequest_def)
  moreover have "ROrderCreate \<notin> set publicRoutes" by (simp add: publicRoutes_def)
  ultimately show ?thesis
    using protected_routes_need_token [OF _ _ route, of demoApp demoInput NetConn demoAppState]
    by (metis prod.collapse)
qed


theorem chat_upgrade_fails_in_binary_witness:
  "res_status (fst (appHandler demoApp demoInput NetConn (0, demoAppState) (demoHTTP ''GET'' ''/ws/chat''))) = 101 \<and>
   (\<exists>res S'. rootServe (memoryMetrics (\<lparr>fo_zero = 0, fo_quot = (\<lambda>a b. a div b)\<rparr> :: int floatOps)) demoApp demoInput
      (Inl ''eof'') (demoCollector, newMemoryStore, 0, demoAppState) (demoHTTP ''GET'' ''/ws/chat'') = (AppResponse res, S') \<and>
      res_status res = 500)"
proof -
  let ?r = "demoHTTP ''GET'' ''/ws/chat''"
  have "pathSegs (req_Path ?r) = [''ws'', ''chat'']" by code_simp
  moreover have "req_Method ?r = ''GET''" by (simp add: demoHTTP_def)
  moreover have "in_upgradeOK demoInput" by (simp add: demoInput_def)
  ultimately show ?thesis
    using chat_upgrade_fails_in_binary [of ?r "memoryMetrics (\<lparr>fo_zero = 0, fo_quot = (\<lambda>a b. a div b)\<rparr> :: int floatOps)"
        demoApp demoInput "Inl ''eof''" demoCollector newMemoryStore 0 demoAppState] by simp
qed

theorem request_is_metered_witness:
  "\<exists>svc'. mx_queue svc' = [\<lparr>ev_Source = ''http'', ev_Name = ''GET:/hello'', ev_Status = ''200'', ev_DurationMS = 3\<rparr>] \<and>
     fst (snd (rootServe (memoryMetrics (\<lparr>fo_zero = 0, fo_quot = (\<lambda>a b. a div b)\<rparr> :: int floatOps)) demoApp demoInput
      (Inl ''eof'') (demoCollector, newMemoryStore, 0, demoAppState) (demoHTTP ''GET'' ''/hello''))) = svc'"
proof -
  let ?F = "\<lparr>fo_zero = 0, fo_quot = (\<lambda>a b. a div b)\<rparr> :: int floatOps"
  let ?r = "demoHTTP ''GET'' ''/hello''"
  let ?run = "rootServe (memoryMetrics ?F) demoApp demoInput (Inl ''eof'') (demoCollector, newMemoryStore, 0, demoAppState) ?r"
  have answered: "(case fst ?run of AppResponse q \<Rightarrow> res_status q | _ \<Rightarrow> 0) = 200" by code_simp
  then obtain res where "fst ?run = AppResponse res" by (cases "fst ?run") auto
  then obtain svc' w' seq' st' where run: "?run = (AppResponse res, svc', w', seq', st')" by (metis prod.collapse)
  have status: "res_status res = 200" using answered unfolding run by simp
  have "fmtD 200 = ''200''" by code_simp
  with request_is_metered [OF run] status show ?thesis
    unfolding run
    by (simp add: demoCollector_def metricsStart_def newMetrics_def demoInput_def millisecond_def second_def demoHTTP_def demoRequest_def Let_def)
qed

end
