(* ===== verification/Spec2Isabelle.thy ===== *)
theory Spec2Isabelle
  imports PgShop PgEvents RedisBroker MetricsStores Chat JobWorker RedisWorker BackupSum ScrapExport Pipeline App
begin

text \<open>
  A verification library for showoff-golang: an HTTP server with several small products behind one
  route table, its repositories in memory and on PostgreSQL, an event pipeline over a Redis stream,
  background workers, and two command line tools.

  \<^bold>\<open>Conventions.\<close> A Go function with effects is a function that takes and returns the state it uses; a
  Go interface is a record of its methods over a type of states; an error result is a sum, an option
  or the text of the error; a panic is a value. Go integers are \<open>int\<close> with \<open>wrap64\<close> written where they
  can overflow, strings are lists of bytes, maps are association lists without duplicate keys, time
  is nanoseconds since 1970. Iteration over a map takes the order of the list. Concurrent code is an
  inductive step relation whose steps are the critical sections and channel operations.

  \<^bold>\<open>Library.\<close>
  \<^item> \<open>Prelude\<close>: \<open>wrap64\<close>, maps, \<open>slices.SortFunc\<close>, and the collections \<open>resp_defs\<close>, \<open>repo_defs\<close>, \<open>inv_defs\<close>.
  \<^item> \<open>GoStrings\<close>, \<open>GoTime\<close>: what the program uses of \<open>strings\<close>, \<open>strconv\<close>, \<open>fmt\<close> and \<open>time\<close>.

  \<^bold>\<open>The server\<close> (\<open>internal/httpapp\<close>, \<open>internal/hello\<close>, \<open>cmd/app\<close>).
  \<^item> \<open>Http\<close>: requests, responses, the JSON envelope, decoding of bodies, the request id, logging and
    content type middlewares of \<open>handler.go\<close>.
  \<^item> \<open>Auth\<close>: \<open>auth.go\<close>. Users, password hashes, refresh tokens, access tokens, the middleware that
    puts user and role into the context; every refresh token works once, and an issued access token
    authenticates its user and role.
  \<^item> \<open>Tasks\<close>, \<open>Shortener\<close>, \<open>Files\<close>, \<open>Ecommerce\<close>: the files of these names with their handlers, the
    repository interface as a locale (\<open>task_repo\<close>, \<open>short_url_repo\<close>, \<open>file_repo\<close>, \<open>ecom_repo\<close>) in which
    the handlers are verified, and the repository in memory as an interpretation of it.
  \<^item> \<open>Chat\<close>: the hub of \<open>chat_ws.go\<close> as a step relation of rooms, buffered channels and the two loops
    of each client; no send on a closed channel and no second close is reachable.
  \<^item> \<open>Metrics\<close>, \<open>MetricsStores\<close>: \<open>internal/metricscollector\<close>. Queue, workers, pending aggregates and
    flushes as a step relation with a conservation law; both stores; their equivalence.
  \<^item> \<open>App\<close>: the route table, the chain of middlewares and the root of \<open>cmd/app/main.go\<close> with the metrics
    around everything: which requests need a token, the shape of every answer, what is counted.

  \<^bold>\<open>PostgreSQL\<close> (\<open>tasks_postgres.go\<close>, \<open>eventpipe/postgres.go\<close>, \<open>migrations/\<close>).
  \<^item> \<open>PgDb\<close>: tables, sequences, constraints, statements, transactions, and a list of faults of which
    every statement takes the next one.
  \<^item> \<open>PgTasks\<close>: migrations; tasks, short URLs and files on PostgreSQL interpret the same locales, and
    the two task repositories are equivalent for the handlers.
  \<^item> \<open>PgOrders\<close>, \<open>PgShop\<close>: the order transaction, statement by statement, and what it guarantees: all or
    nothing, exact effects, no oversell, idempotency.
  \<^item> \<open>PgEvents\<close>: outbox, dead letters and projection; the outbox interprets \<open>outbox_repo\<close>.

  \<^bold>\<open>The event pipeline\<close> (\<open>internal/eventpipe\<close>, \<open>cmd/outboxpublisher\<close>, \<open>cmd/eventconsumer\<close>).
  \<^item> \<open>EventPipe\<close>: publisher, consumer and projection handler over their interfaces; the locale
    \<open>outbox_repo\<close> with the rule that no event is lost.
  \<^item> \<open>RedisBroker\<close>: the broker over a Redis client, whose documented behaviour is \<open>streamLaws\<close>.
  \<^item> \<open>Pipeline\<close>: the two processes, and the path of an order from \<open>CreateOrder\<close> through outbox, stream
    and consumer to its projection.

  \<^bold>\<open>Workers and tools.\<close>
  \<^item> \<open>JobWorker\<close>: \<open>internal/jobworker\<close>. Queue, retries, dead jobs, schedules, start and stop, as a step
    relation: jobs are conserved, and a stopped service drains.
  \<^item> \<open>RedisWorker\<close>: \<open>internal/redisworker\<close>. Both modes, the loop of a worker and a pool of workers as
    a step relation: messages are conserved, the list mode is last in, first out.
  \<^item> \<open>FileSystem\<close>: a Unix file system with links, permissions, umask and a fault for every call.
  \<^item> \<open>BackupSum\<close>: \<open>internal/backupsum\<close>, \<open>cmd/backupsum\<close>. Validation, walk, copy and report: the backup is
    exact, and the source is untouched.
  \<^item> \<open>ScrapExport\<close>: \<open>internal/scrapexport\<close>, \<open>cmd/scrapexport\<close>. Extraction from the parsed page equals a
    reference by first match; the CSV written is read back as the pages.

  \<^bold>\<open>Bounds.\<close> The walk of \<open>BackupSum\<close> has fuel for the number of visited entries: more fuel than
  there are nodes in the file system is shown to be enough, and what holds of failed backups holds for
  every fuel that returns a result. The schedule loop of
  \<open>JobWorker\<close> is a \<open>partial_function\<close>, because it need not end for an interval that is not positive;
  for registered schedules it is shown to end. The loops of processes take the list of their rounds
  (clock readings, cancellation), and a result of \<open>None\<close> is a process that still runs. Everything
  else is structural recursion or has a measure.

  \<^bold>\<open>Parameters.\<close> bcrypt, JWT, random bytes, JSON encoding and decoding of the data types, URL, multipart
  and HTML parsing, SHA-256, the HTTP client, the S3 and Redis clients, \<open>jsonb\<close>, the process
  environment and the clock are arguments; what is assumed of them stands in the theorems.

  \<^bold>\<open>Not modelled.\<close> The text of log lines other than the request log, \<open>Flush\<close> of the status recorder,
  the bytes of the WebSocket protocol, \<open>ListenAndServe\<close> (an event of \<open>App\<close>), isolation anomalies
  between concurrent PostgreSQL transactions, data races of the memory repository of the shop (it has
  no lock; the model runs its operations one after the other), timeouts of single HTTP requests. The
  tests under \<open>src/\<close> are not part of the program.
\<close>

end
